(* ===== verification/Prelude.thy ===== *)
theory Prelude
  imports Main "HOL-Library.Word" "HOL-Library.Monad_Syntax"
begin

text \<open>
  The vocabulary shared by the component theories: the machine integer types of the C
  sources, the \<open>for\<close> loop over a \<open>uint64_t\<close> counter, and the lemmas that move
  masks, shifts and alignment from words to natural numbers.

  \<^item> \<open>for_u64 i e st body s\<close> is \<open>for (; i < e; i += st) body\<close> with the state \<open>s\<close> threaded
    through. The body may leave the loop early (\<open>Inl r\<close> is a \<open>return r\<close> inside the loop) and
    may fail to return (\<open>None\<close>). The counter wraps as \<open>uint64_t\<close> does, so a loop whose
    counter wraps below its bound forever has the value \<open>None\<close>.
  \<^item> \<open>loop_list\<close> is the same loop over an explicit list of counter values;
    \<open>for_u64_step1\<close> and \<open>for_u64_list\<close> connect the two. \<open>run_u64\<close> is the loop without
    early exit, which is \<open>foldM\<close> over its counter values.
\<close>

unbundle bit_operations_syntax

section \<open>Machine integers\<close>

type_synonym u8 = "8 word"
type_synonym u16 = "16 word"
type_synonym u32 = "32 word"
type_synonym u64 = "64 word"

named_theorems unat_simps \<open>word operations read as operations on natural numbers\<close>

lemma u64_less: "unat (w::u64) < 18446744073709551616"
  using unsigned_less [of w] by simp

lemma u8_less: "unat (w::u8) < 256"
  using unsigned_less [of w] by simp

lemma u16_less: "unat (w::u16) < 65536"
  using unsigned_less [of w] by simp

lemma u32_less: "unat (w::u32) < 4294967296"
  using unsigned_less [of w] by simp

lemma unat_max [simp]: "unat (- 1 :: u64) = 18446744073709551615"
  by (simp add: unsigned_minus_1_eq_mask mask_eq_exp_minus_1)

lemma u64_add_wraps: "(a::u64) + b < a \<longleftrightarrow> unat a + unat b \<ge> 2 ^ 64"
  using u64_less [of a] u64_less [of b]
  by (cases "unat a + unat b < 2 ^ 64") (auto simp: word_less_nat_alt unat_word_ariths mod_if)

lemma unat_mask_and [unat_simps]: "unat ((w::'a::len word) AND mask n) = unat w mod 2 ^ n"
  by (simp flip: take_bit_eq_mask add: unsigned_take_bit_eq take_bit_nat_def)

lemma unat_and [unat_simps]: "unat ((v::'a::len word) AND w) = unat v AND unat w"
  by (simp add: unsigned_and_eq)

lemma unat_ucast_up:
  "LENGTH('a) \<le> LENGTH('b) \<Longrightarrow> unat (ucast (w::'a::len word) :: 'b::len word) = unat w"
  by (simp add: unsigned_ucast_eq take_bit_nat_eq_self order_less_le_trans [OF unsigned_less])

lemma and_not_mask: "(w::'a::len word) AND NOT (mask n) = push_bit n (drop_bit n w)"
  by (rule bit_eqI) (auto simp: bit_simps)

lemma unat_div_pow [unat_simps]: "unat (drop_bit n (w::'a::len word)) = unat w div 2 ^ n"
  by (simp add: unat_drop_bit_eq drop_bit_nat_def)

lemma unat_push_bit [unat_simps]:
  "unat (push_bit n (w::'a::len word)) = (unat w * 2 ^ n) mod 2 ^ LENGTH('a)"
  by (simp add: push_bit_eq_mult unat_word_ariths) (metis mod_mult_right_eq unat_of_nat of_nat_numeral of_nat_power)

lemma unat_and_not_mask [unat_simps]:
  "unat ((w::'a::len word) AND NOT (mask n)) = unat w div 2 ^ n * 2 ^ n"
proof -
  have "unat w div 2 ^ n * 2 ^ n \<le> unat w" by simp
  also have "\<dots> < 2 ^ LENGTH('a)" by (rule unsigned_less)
  finally show ?thesis by (simp add: and_not_mask unat_push_bit unat_div_pow)
qed

lemma and_plus_and_not: "((w::'a::len word) AND m) + (w AND NOT m) = w"
proof -
  have "(w AND m) + (w AND NOT m) = (w AND m) OR (w AND NOT m)"
    by (rule disjunctive_add) (auto simp: bit_simps)
  also have "\<dots> = w"
    by (rule bit_eqI) (auto simp: bit_simps)
  finally show ?thesis .
qed

lemma unat_and_not: "unat ((w::'a::len word) AND NOT m) = unat w - unat (w AND m)"
proof -
  have "w AND NOT m = w - (w AND m)"
    using and_plus_and_not [of w m] by (metis add_diff_cancel_left')
  moreover have "w AND m \<le> w" by (rule word_and_le2)
  ultimately show ?thesis by (simp add: unat_sub)
qed

lemma unat_and_not_ge: "unat (w::'a::len word) \<le> unat (w AND NOT m) + unat m"
proof -
  have "w AND m \<le> m" by (rule word_and_le1)
  then have "unat (w AND m) \<le> unat m" by (simp add: word_le_nat_alt)
  then show ?thesis using unat_and_not [of w m] by linarith
qed

text \<open>\<open>a & (a - 1) == 0\<close> with \<open>a != 0\<close> is the sources' test for a power of two.\<close>

lemma nat_and_pred_zero: "0 < n \<Longrightarrow> n AND (n - 1) = 0 \<Longrightarrow> \<exists>k. n = 2 ^ k" for n :: nat
proof (induction n rule: less_induct)
  case (less n)
  show ?case
  proof (cases "even n")
    case True
    then obtain m where m: "n = 2 * m" by blast
    with less.prems have "0 < m" by simp
    have half: "(2 * m - Suc 0) div 2 = m - 1" using \<open>0 < m\<close> by presburger
    have "n AND (n - 1) = 2 * (m AND (m - 1))"
      using \<open>0 < m\<close> half by (subst and_rec) (auto simp: m)
    with less.prems have "m AND (m - 1) = 0" by simp
    with less.IH [of m] \<open>0 < m\<close> m obtain k where "m = 2 ^ k" by auto
    with m have "n = 2 ^ Suc k" by simp
    then show ?thesis by blast
  next
    case False
    then obtain m where m: "n = 2 * m + 1" by (metis oddE)
    have "n AND (n - 1) = 2 * m"
      by (subst and_rec) (auto simp: m)
    with less.prems m have "n = 2 ^ 0" by simp
    then show ?thesis by blast
  qed
qed

lemma word_pow2:
  fixes a :: "'a::len word"
  assumes "a \<noteq> 0" and "a AND (a - 1) = 0"
  obtains k where "unat a = 2 ^ k" and "k < LENGTH('a)" and "a - 1 = mask k"
proof -
  have pos: "0 < unat a" using assms(1) by (simp add: unat_gt_0)
  have "unat (a - 1) = unat a - 1"
    using assms(1) by (simp add: unat_minus_one)
  then have "unat a AND (unat a - 1) = 0"
    using assms(2) by (metis unat_and unat_0)
  with pos obtain k where k: "unat a = 2 ^ k"
    using nat_and_pred_zero by blast
  have "(2::nat) ^ k < 2 ^ LENGTH('a)"
    by (metis k unsigned_less)
  then have lt: "k < LENGTH('a)" by (rule power_less_imp_less_exp [rotated]) simp
  have "a = of_nat (unat a)" by simp
  then have "a = 2 ^ k" by (simp only: k) simp
  then have "a - 1 = mask k" by (simp add: mask_eq_exp_minus_1)
  with k lt show ?thesis by (rule that)
qed

section \<open>Counted loops\<close>

partial_function (option) for_u64 ::
  "u64 \<Rightarrow> u64 \<Rightarrow> u64 \<Rightarrow> (u64 \<Rightarrow> 's \<Rightarrow> ('r + 's) option) \<Rightarrow> 's \<Rightarrow> ('r + 's) option" where
  "for_u64 i e st body s =
     (if i < e
      then Option.bind (body i s)
             (\<lambda>r. case r of Inl x \<Rightarrow> Some (Inl x) | Inr s' \<Rightarrow> for_u64 (i + st) e st body s')
      else Some (Inr s))"

fun loop_list :: "('i \<Rightarrow> 's \<Rightarrow> ('r + 's) option) \<Rightarrow> 'i list \<Rightarrow> 's \<Rightarrow> ('r + 's) option" where
  "loop_list body [] s = Some (Inr s)"
| "loop_list body (i # is) s =
     Option.bind (body i s)
       (\<lambda>r. case r of Inl x \<Rightarrow> Some (Inl x) | Inr s' \<Rightarrow> loop_list body is s')"

text \<open>The values a counter takes from \<open>i\<close> in \<open>n\<close> steps of \<open>st\<close>.\<close>

fun counter_values :: "u64 \<Rightarrow> u64 \<Rightarrow> nat \<Rightarrow> u64 list" where
  "counter_values i st 0 = []"
| "counter_values i st (Suc n) = i # counter_values (i + st) st n"

text \<open>Loops that never leave early: \<open>run_u64\<close> over a counter, \<open>foldM\<close> over a list.\<close>

definition run_u64 ::
  "u64 \<Rightarrow> u64 \<Rightarrow> u64 \<Rightarrow> (u64 \<Rightarrow> 's \<Rightarrow> 's option) \<Rightarrow> 's \<Rightarrow> 's option" where
  "run_u64 i e st body s =
     Option.bind (for_u64 i e st (\<lambda>i s. map_option Inr (body i s)) s)
       (\<lambda>r. case r of Inl (_::unit) \<Rightarrow> None | Inr s' \<Rightarrow> Some s')"

fun foldM :: "('i \<Rightarrow> 's \<Rightarrow> 's option) \<Rightarrow> 'i list \<Rightarrow> 's \<Rightarrow> 's option" where
  "foldM body [] s = Some s"
| "foldM body (i # is) s = Option.bind (body i s) (foldM body is)"

lemma bind_weak_cong [cong]: "m = m' \<Longrightarrow> Option.bind m f = Option.bind m' f"
  by simp

lemma for_u64_list:
  assumes "0 < unat st" and "unat i + n * unat st < 2 ^ 64"
    and "unat e \<le> unat i + n * unat st" and "n = 0 \<or> unat i + (n - 1) * unat st < unat e"
  shows "for_u64 i e st body s = loop_list body (counter_values i st n) s"
  using assms
proof (induction n arbitrary: i s)
  case 0
  then show ?case by (simp add: for_u64.simps word_less_nat_alt)
next
  case (Suc n)
  have lt: "i < e" using Suc.prems by (simp add: word_less_nat_alt)
  have "unat (i + st) = unat i + unat st"
    using Suc.prems(2) by (simp add: unat_word_ariths)
  then have "for_u64 (i + st) e st body = loop_list body (counter_values (i + st) st n)"
    using Suc.prems by (intro ext Suc.IH) (cases n; simp add: algebra_simps)+
  with lt show ?case
    by (subst for_u64.simps) (simp cong del: bind_weak_cong)
qed

lemma counter_values_upt:
  "counter_values i 1 n = map (\<lambda>k. i + of_nat k) [0..<n]"
proof (induction n arbitrary: i)
  case (Suc n)
  have "[0..<Suc n] = 0 # map Suc [0..<n]" by (simp add: map_Suc_upt upt_conv_Cons del: upt_Suc)
  then show ?case by (simp add: Suc.IH add_ac)
qed simp

text \<open>The common loop \<open>for (i = a; i < b; ++i)\<close> never wraps.\<close>

definition u64_upt :: "u64 \<Rightarrow> u64 \<Rightarrow> u64 list" where
  "u64_upt a b = map of_nat [unat a..<unat b]"

lemma map_add_upt_of_nat:
  "map (\<lambda>k. (a::u64) + of_nat k) [0..<n] = map of_nat [unat a..<unat a + n]"
  by (rule nth_equalityI) auto

lemma for_u64_step1: "for_u64 a b 1 body s = loop_list body (u64_upt a b) s"
proof (cases "a < b")
  case True
  then have lt: "unat a < unat b" by (simp add: word_less_nat_alt)
  have "for_u64 a b 1 body s = loop_list body (counter_values a 1 (unat b - unat a)) s"
    using lt u64_less [of b] by (intro for_u64_list) auto
  also have "counter_values a 1 (unat b - unat a) = u64_upt a b"
    using lt by (simp add: counter_values_upt map_add_upt_of_nat u64_upt_def)
  finally show ?thesis .
next
  case False
  then show ?thesis
    by (simp add: for_u64.simps u64_upt_def word_less_nat_alt)
qed

lemma in_u64_upt: "x \<in> set (u64_upt a b) \<longleftrightarrow> a \<le> x \<and> x < b"
proof
  assume "x \<in> set (u64_upt a b)"
  then obtain k where "x = of_nat k" "unat a \<le> k" "k < unat b"
    by (auto simp: u64_upt_def)
  moreover have "k < 2 ^ 64"
    using \<open>k < unat b\<close> u64_less [of b] by simp
  ultimately show "a \<le> x \<and> x < b"
    by (simp add: word_le_nat_alt word_less_nat_alt unat_of_nat take_bit_nat_eq_self)
next
  assume "a \<le> x \<and> x < b"
  then have "x = of_nat (unat x)" "unat a \<le> unat x" "unat x < unat b"
    by (simp_all add: word_le_nat_alt word_less_nat_alt)
  then show "x \<in> set (u64_upt a b)"
    unfolding u64_upt_def set_map set_upt by (intro image_eqI [of _ _ "unat x"]) simp_all
qed

lemma length_u64_upt [simp]: "length (u64_upt a b) = unat b - unat a"
  by (simp add: u64_upt_def)

lemma unat_image_u64_upt: "unat ` set (u64_upt a b) = {unat a..<unat b}"
proof
  show "unat ` set (u64_upt a b) \<subseteq> {unat a..<unat b}"
    by (auto simp: in_u64_upt word_le_nat_alt word_less_nat_alt)
  show "{unat a..<unat b} \<subseteq> unat ` set (u64_upt a b)"
  proof
    fix k assume k: "k \<in> {unat a..<unat b}"
    then have "unat (of_nat k :: u64) = k"
      using u64_less [of b] by (simp add: unat_of_nat take_bit_nat_eq_self)
    with k show "k \<in> unat ` set (u64_upt a b)"
      by (intro image_eqI [of _ _ "of_nat k"]) (auto simp: u64_upt_def)
  qed
qed

lemma map_unat_u64_upt: "map unat (u64_upt 0 n) = [0..<unat n]"
  using u64_less [of n]
  by (auto simp: u64_upt_def unat_of_nat take_bit_nat_eq_self intro!: map_idI)

lemma foldM_fun:
  "foldM body [] = Some" "foldM body (i # is) = (\<lambda>s. Option.bind (body i s) (foldM body is))"
  by (simp_all add: fun_eq_iff)

lemma foldM_append: "foldM f (xs @ ys) s = Option.bind (foldM f xs s) (foldM f ys)"
proof (induction xs arbitrary: s)
  case (Cons x xs)
  then show ?case by (cases "f x s") simp_all
qed simp

lemma foldM_map: "foldM body (map g is) s = foldM (\<lambda>i. body (g i)) is s"
proof (induction "is" arbitrary: s)
  case (Cons i "is")
  then show ?case by (cases "body (g i) s") simp_all
qed simp

text \<open>Rules for loops. A loop all of whose iterations continue is a fold of its body.\<close>

lemma foldM_fold:
  assumes "\<And>i s. i \<in> set is \<Longrightarrow> P s \<Longrightarrow> body i s = Some (f i s) \<and> P (f i s)" and "P s"
  shows "foldM body is s = Some (fold f is s) \<and> P (fold f is s)"
  using assms
proof (induction "is" arbitrary: s)
  case (Cons i "is")
  then have "body i s = Some (f i s)" and "P (f i s)" by auto
  with Cons show ?case by simp
qed simp

lemma loop_list_foldM:
  "Option.bind (loop_list (\<lambda>i s. map_option Inr (body i s)) is s)
       (\<lambda>r. case r of Inl (_::unit) \<Rightarrow> None | Inr s' \<Rightarrow> Some s') = foldM body is s"
proof (induction "is" arbitrary: s)
  case (Cons i "is")
  then show ?case by (cases "body i s") simp_all
qed simp

lemma run_u64_step1: "run_u64 a b 1 body s = foldM body (u64_upt a b) s"
  by (simp add: run_u64_def for_u64_step1 loop_list_foldM)

lemma run_u64_list:
  assumes "0 < unat st" and "unat i + n * unat st < 2 ^ 64"
    and "unat e \<le> unat i + n * unat st" and "n = 0 \<or> unat i + (n - 1) * unat st < unat e"
  shows "run_u64 i e st body s = foldM body (counter_values i st n) s"
  using assms by (simp add: run_u64_def for_u64_list [of st i n e] loop_list_foldM)

text \<open>A loop that only tests, leaving with \<open>r\<close> at the first failing element.\<close>

lemma loop_list_test:
  assumes "\<And>i. i \<in> set is \<Longrightarrow> body i s = (case t i of None \<Rightarrow> Some (Inr s) | Some r \<Rightarrow> Some (Inl r))"
  shows "loop_list body is s =
     (case List.find (\<lambda>i. t i \<noteq> None) is of None \<Rightarrow> Some (Inr s) | Some i \<Rightarrow> Some (Inl (the (t i))))"
  using assms
proof (induction "is")
  case (Cons i "is")
  then show ?case by (cases "t i") auto
qed simp

section \<open>Arrays\<close>

text \<open>Reading and writing an array: outside the bounds the access faults.\<close>

definition load_at :: "'a list \<Rightarrow> nat \<Rightarrow> 'a option" where
  "load_at xs i = (if i < length xs then Some (xs ! i) else None)"

definition store_at :: "'a list \<Rightarrow> nat \<Rightarrow> 'a \<Rightarrow> 'a list option" where
  "store_at xs i v = (if i < length xs then Some (xs[i := v]) else None)"

lemma load_at_Some [simp]: "i < length xs \<Longrightarrow> load_at xs i = Some (xs ! i)"
  by (simp add: load_at_def)

lemma store_at_Some [simp]: "i < length xs \<Longrightarrow> store_at xs i v = Some (xs[i := v])"
  by (simp add: store_at_def)

text \<open>A loop that collects one value per iteration.\<close>

lemma foldM_collect:
  "(\<And>i. i \<in> set is \<Longrightarrow> g i = Some (h i)) \<Longrightarrow>
   foldM (\<lambda>i out. Option.bind (g i) (\<lambda>b. Some (out @ [b]))) is out = Some (out @ map h is)"
  by (induction "is" arbitrary: out) simp_all

lemma run_u64_collect:
  assumes "\<And>i. i < n \<Longrightarrow> g i = Some (h (unat i))"
  shows "run_u64 0 n 1 (\<lambda>i out. Option.bind (g i) (\<lambda>b. Some (out @ [b]))) [] = Some (map h [0..<unat n])"
proof -
  have "map (\<lambda>i. h (unat i)) (u64_upt 0 n) = map h [0..<unat n]"
    by (metis (no_types, lifting) map_unat_u64_upt map_map comp_apply map_cong)
  then show ?thesis
    using foldM_collect [of "u64_upt 0 n" g "\<lambda>i. h (unat i)" "[]"] assms
    by (simp add: run_u64_step1 in_u64_upt)
qed

text \<open>A loop whose state after \<open>k\<close> iterations is known.\<close>

lemma foldM_states:
  assumes "\<And>k. k < length is \<Longrightarrow> body (is ! k) (F k) = Some (F (Suc k))"
  shows "foldM body is (F 0) = Some (F (length is))"
  using assms
proof (induction "is" arbitrary: F)
  case (Cons i "is")
  have "body i (F 0) = Some (F 1)" using Cons.prems [of 0] by simp
  moreover have "foldM body is (F (Suc 0)) = Some (F (Suc (length is)))"
    using Cons.IH [of "\<lambda>k. F (Suc k)"] Cons.prems [of "Suc k" for k] by simp
  ultimately show ?case by simp
qed simp

lemma run_u64_states:
  assumes "\<And>i. i < n \<Longrightarrow> body i (F (unat i)) = Some (F (Suc (unat i)))"
  shows "run_u64 0 n 1 body (F 0) = Some (F (unat n))"
proof -
  have "unat (u64_upt 0 n ! k) = k \<and> u64_upt 0 n ! k < n" if "k < unat n" for k
    using that nth_map [of k "u64_upt 0 n" unat] nth_mem [of k "u64_upt 0 n"]
    by (simp add: map_unat_u64_upt in_u64_upt)
  then show ?thesis
    using foldM_states [of "u64_upt 0 n" body F] assms by (simp add: run_u64_step1) (metis)
qed

text \<open>The first index whose element satisfies a predicate: a search loop with early return.\<close>

fun find_index :: "('a \<Rightarrow> bool) \<Rightarrow> 'a list \<Rightarrow> nat option" where
  "find_index P [] = None"
| "find_index P (x # xs) = (if P x then Some 0 else map_option Suc (find_index P xs))"

lemma find_index_None: "find_index P xs = None \<longleftrightarrow> (\<forall>x \<in> set xs. \<not> P x)"
  by (induction xs) auto

lemma find_index_Some: "find_index P xs = Some i \<Longrightarrow> i < length xs \<and> P (xs ! i) \<and> (\<forall>j < i. \<not> P (xs ! j))"
proof (induction xs arbitrary: i)
  case (Cons x xs)
  then show ?case
    by (cases i) (auto split: if_splits simp: less_Suc_eq_0_disj)
qed simp

end
