(* ===== verification/Pmm.thy ===== *)
theory Pmm
  imports Prelude
begin

text \<open>
  The physical memory manager, \<open>kernel/mm/pmm.c\<close>: two bitmaps with one bit per 4 KiB frame,
  built from the firmware memory map at boot and then served by first-fit allocation with a
  moving hint.

  The C functions run to completion or not at all, so every operation is a function into
  \<open>option\<close>. \<open>None\<close> stands for the two ways a call does not return normally: an access outside a
  bitmap, and waiting for a spin lock that is held. A pointer to an object is the object, an
  out-parameter is a component of the result.
\<close>

section \<open>Constants and data\<close>

abbreviation (input) NS_PAGE_SHIFT :: nat where "NS_PAGE_SHIFT \<equiv> 12"
abbreviation (input) NS_PAGE_SIZE :: u64 where "NS_PAGE_SIZE \<equiv> 4096"
abbreviation (input) UINT64_MAX :: u64 where "UINT64_MAX \<equiv> - 1"
abbreviation (input) NS_INVALID_PHYS :: u64 where "NS_INVALID_PHYS \<equiv> UINT64_MAX"
abbreviation (input) NS_PMM_LOW_MEMORY_RESERVE :: u64 where "NS_PMM_LOW_MEMORY_RESERVE \<equiv> 0x100000"
abbreviation (input) NORTHSTAR_BOOT_MAGIC :: u64 where "NORTHSTAR_BOOT_MAGIC \<equiv> 0x544f4f425254534e"
abbreviation (input) NORTHSTAR_BOOT_F_E820 :: u32 where "NORTHSTAR_BOOT_F_E820 \<equiv> 1"
abbreviation (input) NORTHSTAR_BOOT_F_FRAMEBUFFER :: u32 where "NORTHSTAR_BOOT_F_FRAMEBUFFER \<equiv> 2"
abbreviation (input) NORTHSTAR_BOOT_F_INITRD :: u32 where "NORTHSTAR_BOOT_F_INITRD \<equiv> 4"
abbreviation (input) NORTHSTAR_BOOT_F_CHECKSUM :: u32 where "NORTHSTAR_BOOT_F_CHECKSUM \<equiv> 16"
abbreviation (input) NORTHSTAR_E820_USABLE :: u32 where "NORTHSTAR_E820_USABLE \<equiv> 1"
abbreviation (input) KERNEL_HALF :: u64 where "KERNEL_HALF \<equiv> 0xffff800000000000"

datatype ns_pmm_error =
    NS_PMM_OK | NS_PMM_EINVAL | NS_PMM_ECORRUPT | NS_PMM_ENOSPC | NS_PMM_ERANGE
  | NS_PMM_EPERM | NS_PMM_EDOUBLEFREE

record northstar_e820_entry =
  e_base :: u64
  e_length :: u64
  e_type :: u32
  e_attributes :: u32

text \<open>The boot protocol structure; \<open>bi_reserved0\<close> holds the seven reserved bytes.\<close>

record northstar_boot_info =
  bi_magic :: u64
  bi_version :: u32
  bi_size :: u32
  bi_checksum :: u32
  bi_flags :: u32
  bi_boot_drive :: u8
  bi_reserved0 :: "u8 list"
  bi_e820_entries_phys :: u64
  bi_e820_entry_count :: u32
  bi_e820_entry_size :: u32
  bi_kernel_phys_base :: u64
  bi_kernel_virt_base :: u64
  bi_kernel_size :: u64
  bi_pml4_phys :: u64
  bi_initrd_phys_base :: u64
  bi_initrd_size :: u64
  bi_direct_map_base :: u64
  bi_bootloader_phys_base :: u64
  bi_bootloader_size :: u64
  bi_page_tables_phys_base :: u64
  bi_page_tables_size :: u64
  bi_boot_info_phys :: u64
  bi_framebuffer_phys_base :: u64
  bi_framebuffer_size :: u64
  bi_rsdp_phys :: u64
  bi_direct_map_size :: u64
  bi_filesystem_lba :: u64
  bi_filesystem_sectors :: u64

record ns_pmm =
  allocated_bitmap :: "u8 list"
  reserved_bitmap :: "u8 list"
  bytes_per_bitmap :: u64
  frame_count :: u64
  usable_frames :: u64
  free_frames :: u64
  next_hint :: u64
  managed_limit :: u64
  lock :: u32
  initialized :: u32

record ns_pmm_stats =
  st_tracked_frames :: u64
  st_usable_frames :: u64
  st_free_frames :: u64
  st_allocated_frames :: u64
  st_permanently_reserved_frames :: u64
  st_highest_physical_address :: u64

section \<open>Helpers\<close>

text \<open>A held lock makes the caller spin; nobody releases it during the call.\<close>

definition pmm_lock :: "ns_pmm \<Rightarrow> ns_pmm option" where
  "pmm_lock p = (if lock p = 0 then Some (p\<lparr>lock := 1\<rparr>) else None)"

definition pmm_unlock :: "ns_pmm \<Rightarrow> ns_pmm" where
  "pmm_unlock p = p\<lparr>lock := 0\<rparr>"

definition load_le32 :: "u8 \<Rightarrow> u8 \<Rightarrow> u8 \<Rightarrow> u8 \<Rightarrow> u32" where
  "load_le32 b0 b1 b2 b3 =
     ucast b0 OR push_bit 8 (ucast b1) OR push_bit 16 (ucast b2) OR push_bit 24 (ucast b3)"

text \<open>The overflow test compares the wrapped sum with its first operand.\<close>

definition add_overflow_u64 :: "u64 \<Rightarrow> u64 \<Rightarrow> bool \<times> u64" where
  "add_overflow_u64 a b = (let s = a + b in (s < a, s))"

definition align_down_page :: "u64 \<Rightarrow> u64" where
  "align_down_page value = value AND NOT (NS_PAGE_SIZE - 1)"

definition align_up_page_saturating :: "u64 \<Rightarrow> u64" where
  "align_up_page_saturating value =
     (if value > UINT64_MAX - (NS_PAGE_SIZE - 1) then UINT64_MAX AND NOT (NS_PAGE_SIZE - 1)
      else (value + NS_PAGE_SIZE - 1) AND NOT (NS_PAGE_SIZE - 1))"

definition bitmap_get :: "u8 list \<Rightarrow> u64 \<Rightarrow> bool option" where
  "bitmap_get bitmap frame =
     (let k = unat (drop_bit 3 frame) in
      if k < length bitmap
      then Some (bitmap ! k AND push_bit (unat (frame AND 7)) 1 \<noteq> 0) else None)"

definition bitmap_set :: "u8 list \<Rightarrow> u64 \<Rightarrow> u8 list option" where
  "bitmap_set bitmap frame =
     (let k = unat (drop_bit 3 frame) in
      if k < length bitmap
      then Some (bitmap[k := bitmap ! k OR push_bit (unat (frame AND 7)) 1]) else None)"

definition bitmap_clear :: "u8 list \<Rightarrow> u64 \<Rightarrow> u8 list option" where
  "bitmap_clear bitmap frame =
     (let k = unat (drop_bit 3 frame) in
      if k < length bitmap
      then Some (bitmap[k := bitmap ! k AND NOT (push_bit (unat (frame AND 7)) 1)]) else None)"

section \<open>The boot structure and the firmware memory map\<close>

text \<open>
  The firmware entries are raw memory read with the stride the boot loader reports, so the
  memory is a function from the byte offset to the byte there.
\<close>

type_synonym memory = "nat \<Rightarrow> u8"

definition load_mem32 :: "memory \<Rightarrow> nat \<Rightarrow> u32" where
  "load_mem32 m a = load_le32 (m a) (m (a + 1)) (m (a + 2)) (m (a + 3))"

definition load_mem64 :: "memory \<Rightarrow> nat \<Rightarrow> u64" where
  "load_mem64 m a = ucast (load_mem32 m a) OR push_bit 32 (ucast (load_mem32 m (a + 4)))"

definition entry_at :: "northstar_boot_info \<Rightarrow> memory \<Rightarrow> nat \<Rightarrow> northstar_e820_entry" where
  "entry_at boot entries index =
     (let a = index * unat (bi_e820_entry_size boot) in
      \<lparr>e_base = load_mem64 entries a, e_length = load_mem64 entries (a + 8),
       e_type = load_mem32 entries (a + 16), e_attributes = load_mem32 entries (a + 20)\<rparr>)"

definition entry_enabled :: "northstar_e820_entry \<Rightarrow> bool" where
  "entry_enabled entry \<longleftrightarrow> e_attributes entry = 0 \<or> e_attributes entry AND 1 \<noteq> 0"

text \<open>The structure as the bytes it occupies, in the packed layout of the header.\<close>

definition le_bytes32 :: "u32 \<Rightarrow> u8 list" where
  "le_bytes32 w = [ucast w, ucast (drop_bit 8 w), ucast (drop_bit 16 w), ucast (drop_bit 24 w)]"

definition le_bytes64 :: "u64 \<Rightarrow> u8 list" where
  "le_bytes64 w = le_bytes32 (ucast w) @ le_bytes32 (ucast (drop_bit 32 w))"

definition boot_info_bytes :: "northstar_boot_info \<Rightarrow> u8 list" where
  "boot_info_bytes b =
     le_bytes64 (bi_magic b) @ le_bytes32 (bi_version b) @ le_bytes32 (bi_size b) @
     le_bytes32 (bi_checksum b) @ le_bytes32 (bi_flags b) @
     bi_boot_drive b # bi_reserved0 b @
     le_bytes64 (bi_e820_entries_phys b) @ le_bytes32 (bi_e820_entry_count b) @
     le_bytes32 (bi_e820_entry_size b) @ le_bytes64 (bi_kernel_phys_base b) @
     le_bytes64 (bi_kernel_virt_base b) @ le_bytes64 (bi_kernel_size b) @
     le_bytes64 (bi_pml4_phys b) @ le_bytes64 (bi_initrd_phys_base b) @
     le_bytes64 (bi_initrd_size b) @ le_bytes64 (bi_direct_map_base b) @
     le_bytes64 (bi_bootloader_phys_base b) @ le_bytes64 (bi_bootloader_size b) @
     le_bytes64 (bi_page_tables_phys_base b) @ le_bytes64 (bi_page_tables_size b) @
     le_bytes64 (bi_boot_info_phys b) @ le_bytes64 (bi_framebuffer_phys_base b) @
     le_bytes64 (bi_framebuffer_size b) @ le_bytes64 (bi_rsdp_phys b) @
     le_bytes64 (bi_direct_map_size b) @ le_bytes64 (bi_filesystem_lba b) @
     le_bytes64 (bi_filesystem_sectors b)"

fun le_word_sum :: "u8 list \<Rightarrow> u32" where
  "le_word_sum (a # b # c # d # rest) = load_le32 a b c d + le_word_sum rest"
| "le_word_sum _ = 0"

definition page_offset :: "u64 \<Rightarrow> u64" where
  "page_offset a = a AND (NS_PAGE_SIZE - 1)"

definition ns_boot_info_validate :: "northstar_boot_info \<Rightarrow> ns_pmm_error" where
  "ns_boot_info_validate boot =
     (if bi_magic boot \<noteq> NORTHSTAR_BOOT_MAGIC \<or> bi_version boot \<noteq> 1 \<or> bi_size boot \<noteq> 192
      then NS_PMM_ECORRUPT
      else if bi_flags boot AND NORTHSTAR_BOOT_F_E820 = 0 \<or> bi_e820_entries_phys boot = 0 \<or>
              bi_e820_entry_count boot = 0 \<or> bi_e820_entry_count boot > 4096 \<or>
              bi_e820_entry_size boot < 20 \<or> bi_e820_entry_size boot > 64
      then NS_PMM_ECORRUPT
      else
        let (phys_overflow, kernel_phys_end) =
              add_overflow_u64 (bi_kernel_phys_base boot) (bi_kernel_size boot);
            (virt_overflow, kernel_virt_end) =
              add_overflow_u64 (bi_kernel_virt_base boot) (bi_kernel_size boot);
            direct_last = bi_direct_map_base boot + bi_direct_map_size boot - 1;
            e820_bytes = ucast (bi_e820_entry_count boot) * ucast (bi_e820_entry_size boot) in
        if bi_kernel_size boot = 0 \<or>
           page_offset (bi_kernel_phys_base boot) \<noteq> 0 \<or>
           page_offset (bi_kernel_virt_base boot) \<noteq> 0 \<or>
           phys_overflow \<or> virt_overflow \<or>
           bi_kernel_virt_base boot < KERNEL_HALF \<or>
           kernel_virt_end < KERNEL_HALF \<or>
           bi_direct_map_size boot = 0 \<or>
           page_offset (bi_direct_map_size boot) \<noteq> 0 \<or>
           bi_direct_map_base boot > UINT64_MAX - (bi_direct_map_size boot - 1) \<or>
           direct_last < KERNEL_HALF \<or>
           kernel_phys_end > bi_direct_map_size boot \<or>
           bi_pml4_phys boot = 0 \<or>
           page_offset (bi_pml4_phys boot) \<noteq> 0 \<or>
           bi_pml4_phys boot > bi_direct_map_size boot - NS_PAGE_SIZE \<or>
           page_offset (bi_direct_map_base boot) \<noteq> 0 \<or>
           bi_direct_map_base boot < KERNEL_HALF \<or>
           bi_e820_entries_phys boot \<ge> bi_direct_map_size boot \<or>
           e820_bytes > bi_direct_map_size boot - bi_e820_entries_phys boot \<or>
           bi_boot_info_phys boot \<ge> bi_direct_map_size boot \<or>
           ucast (bi_size boot) > bi_direct_map_size boot - bi_boot_info_phys boot
        then NS_PMM_ECORRUPT
        else if bi_page_tables_size boot \<noteq> 0 \<and>
           (page_offset (bi_page_tables_phys_base boot) \<noteq> 0 \<or>
            page_offset (bi_page_tables_size boot) \<noteq> 0 \<or>
            bi_page_tables_phys_base boot \<ge> bi_direct_map_size boot \<or>
            bi_page_tables_size boot > bi_direct_map_size boot - bi_page_tables_phys_base boot \<or>
            bi_pml4_phys boot < bi_page_tables_phys_base boot \<or>
            bi_pml4_phys boot - bi_page_tables_phys_base boot \<ge> bi_page_tables_size boot)
        then NS_PMM_ECORRUPT
        else if bi_flags boot AND NORTHSTAR_BOOT_F_CHECKSUM \<noteq> 0 \<and>
                le_word_sum (boot_info_bytes boot) \<noteq> 0
        then NS_PMM_ECORRUPT
        else NS_PMM_OK)"

definition discover_limit_step ::
  "northstar_boot_info \<Rightarrow> memory \<Rightarrow> nat \<Rightarrow> u64 \<Rightarrow> u64" where
  "discover_limit_step boot entries i highest =
     (let entry = entry_at boot entries i in
      if \<not> entry_enabled entry \<or> e_length entry = 0 then highest
      else let (overflow, sum) = add_overflow_u64 (e_base entry) (e_length entry);
               stop = (if overflow then UINT64_MAX else sum) in
           if stop > highest then stop else highest)"

definition discover_limit :: "northstar_boot_info \<Rightarrow> memory \<Rightarrow> u64" where
  "discover_limit boot entries =
     (let highest = fold (discover_limit_step boot entries) [0..<unat (bi_e820_entry_count boot)] 0;
          highest = (if bi_direct_map_size boot \<noteq> 0 \<and> highest > bi_direct_map_size boot
                     then bi_direct_map_size boot else highest) in
      align_up_page_saturating highest)"

definition ns_pmm_storage_required :: "northstar_boot_info \<Rightarrow> memory \<Rightarrow> u64" where
  "ns_pmm_storage_required boot entries =
     (if ns_boot_info_validate boot \<noteq> NS_PMM_OK then 0
      else let limit = discover_limit boot entries;
               frames = drop_bit NS_PAGE_SHIFT limit;
               bytes = drop_bit 3 (frames + 7) in
           if bytes > UINT64_MAX div 2 then 0 else bytes * 2)"

section \<open>Building the bitmaps\<close>

definition mark_frame_free_initial :: "u64 \<Rightarrow> ns_pmm \<Rightarrow> ns_pmm option" where
  "mark_frame_free_initial frame p =
     (if frame \<ge> frame_count p then Some p
      else do {
        r \<leftarrow> bitmap_get (reserved_bitmap p) frame;
        if \<not> r then Some p
        else do {
          rb \<leftarrow> bitmap_clear (reserved_bitmap p) frame;
          ab \<leftarrow> bitmap_clear (allocated_bitmap p) frame;
          Some (p\<lparr>reserved_bitmap := rb, allocated_bitmap := ab,
                 usable_frames := usable_frames p + 1, free_frames := free_frames p + 1\<rparr>)
        }
      })"

definition mark_frame_permanent :: "u64 \<Rightarrow> ns_pmm \<Rightarrow> ns_pmm option" where
  "mark_frame_permanent frame p =
     (if frame \<ge> frame_count p then Some p
      else do {
        a \<leftarrow> bitmap_get (allocated_bitmap p) frame;
        p \<leftarrow> (if \<not> a then do {
                 ab \<leftarrow> bitmap_set (allocated_bitmap p) frame;
                 Some (p\<lparr>allocated_bitmap := ab,
                        free_frames := (if free_frames p \<noteq> 0 then free_frames p - 1
                                        else free_frames p)\<rparr>)
               } else Some p);
        rb \<leftarrow> bitmap_set (reserved_bitmap p) frame;
        Some (p\<lparr>reserved_bitmap := rb\<rparr>)
      })"

definition reserve_range_unlocked :: "u64 \<Rightarrow> u64 \<Rightarrow> ns_pmm \<Rightarrow> ns_pmm option" where
  "reserve_range_unlocked base len p =
     (if len = 0 \<or> base \<ge> managed_limit p then Some p
      else let (overflow, sum) = add_overflow_u64 base len;
               stop = (if overflow \<or> sum > managed_limit p then managed_limit p else sum);
               first = drop_bit NS_PAGE_SHIFT (align_down_page base);
               last_frame = drop_bit NS_PAGE_SHIFT (align_up_page_saturating stop);
               last_frame = (if last_frame > frame_count p then frame_count p else last_frame) in
           run_u64 first last_frame 1 mark_frame_permanent p)"

definition reserve_boot_regions ::
  "northstar_boot_info \<Rightarrow> u64 \<Rightarrow> u64 \<Rightarrow> ns_pmm \<Rightarrow> ns_pmm option" where
  "reserve_boot_regions boot bitmap_phys bitmap_size p = do {
     p \<leftarrow> reserve_range_unlocked 0 NS_PMM_LOW_MEMORY_RESERVE p;
     p \<leftarrow> reserve_range_unlocked (bi_kernel_phys_base boot) (bi_kernel_size boot) p;
     p \<leftarrow> reserve_range_unlocked (bi_bootloader_phys_base boot) (bi_bootloader_size boot) p;
     p \<leftarrow> reserve_range_unlocked (bi_page_tables_phys_base boot) (bi_page_tables_size boot) p;
     p \<leftarrow> reserve_range_unlocked (bi_pml4_phys boot) NS_PAGE_SIZE p;
     p \<leftarrow> reserve_range_unlocked (bi_boot_info_phys boot) (ucast (bi_size boot)) p;
     p \<leftarrow> reserve_range_unlocked (bi_e820_entries_phys boot)
            (ucast (bi_e820_entry_count boot) * ucast (bi_e820_entry_size boot)) p;
     p \<leftarrow> reserve_range_unlocked bitmap_phys bitmap_size p;
     p \<leftarrow> (if bi_flags boot AND NORTHSTAR_BOOT_F_INITRD \<noteq> 0
           then reserve_range_unlocked (bi_initrd_phys_base boot) (bi_initrd_size boot) p
           else Some p);
     if bi_flags boot AND NORTHSTAR_BOOT_F_FRAMEBUFFER \<noteq> 0
     then reserve_range_unlocked (bi_framebuffer_phys_base boot) (bi_framebuffer_size boot) p
     else Some p
   }"

text \<open>The two passes over the firmware entries: usable pages first, then reserved ranges.\<close>

definition expose_entry ::
  "northstar_boot_info \<Rightarrow> memory \<Rightarrow> u64 \<Rightarrow> nat \<Rightarrow> ns_pmm \<Rightarrow> ns_pmm option" where
  "expose_entry boot entries limit i p =
     (let entry = entry_at boot entries i in
      if \<not> entry_enabled entry \<or> e_type entry \<noteq> NORTHSTAR_E820_USABLE \<or> e_length entry = 0
      then Some p
      else let (overflow, sum) = add_overflow_u64 (e_base entry) (e_length entry);
               stop = (if overflow \<or> sum > limit then limit else sum);
               start = align_up_page_saturating (e_base entry);
               stop = align_down_page stop in
           run_u64 start stop NS_PAGE_SIZE
             (\<lambda>address. mark_frame_free_initial (drop_bit NS_PAGE_SHIFT address)) p)"

definition reserve_entry ::
  "northstar_boot_info \<Rightarrow> memory \<Rightarrow> nat \<Rightarrow> ns_pmm \<Rightarrow> ns_pmm option" where
  "reserve_entry boot entries i p =
     (let entry = entry_at boot entries i in
      if \<not> entry_enabled entry \<or> e_type entry = NORTHSTAR_E820_USABLE then Some p
      else reserve_range_unlocked (e_base entry) (e_length entry) p)"

definition check_invariants_step :: "ns_pmm \<Rightarrow> u64 \<Rightarrow> u64 \<Rightarrow> (unit + u64) option" where
  "check_invariants_step p frame count = do {
     allocated \<leftarrow> bitmap_get (allocated_bitmap p) frame;
     reserved \<leftarrow> bitmap_get (reserved_bitmap p) frame;
     if reserved \<and> \<not> allocated then Some (Inl ())
     else Some (Inr (if \<not> allocated then count + 1 else count))
   }"

definition ns_pmm_check_invariants :: "ns_pmm \<Rightarrow> (ns_pmm_error \<times> ns_pmm) option" where
  "ns_pmm_check_invariants p =
     (if frame_count p = 0 \<or> bytes_per_bitmap p \<noteq> drop_bit 3 (frame_count p + 7)
      then Some (NS_PMM_ECORRUPT, p)
      else do {
        p \<leftarrow> pmm_lock p;
        r \<leftarrow> for_u64 0 (frame_count p) 1 (check_invariants_step p) 0;
        case r of
          Inl _ \<Rightarrow> Some (NS_PMM_ECORRUPT, pmm_unlock p)
        | Inr count \<Rightarrow>
            Some (if count = free_frames p then NS_PMM_OK else NS_PMM_ECORRUPT, pmm_unlock p)
      })"

definition ns_pmm_init ::
  "ns_pmm \<Rightarrow> northstar_boot_info \<Rightarrow> memory \<Rightarrow> u64 \<Rightarrow> u64 \<Rightarrow> (ns_pmm_error \<times> ns_pmm) option" where
  "ns_pmm_init p boot entries bitmap_phys bitmap_storage_size =
     (if page_offset bitmap_phys \<noteq> 0 \<or> ns_boot_info_validate boot \<noteq> NS_PMM_OK
      then Some (NS_PMM_EINVAL, p)
      else let required = ns_pmm_storage_required boot entries in
      if required = 0 \<or> bitmap_storage_size < required then Some (NS_PMM_ENOSPC, p)
      else
        let limit = discover_limit boot entries;
            frames = drop_bit NS_PAGE_SHIFT limit;
            bytes = drop_bit 3 (frames + 7);
            p = \<lparr>allocated_bitmap = replicate (unat bytes) 0xff,
                 reserved_bitmap = replicate (unat bytes) 0xff,
                 bytes_per_bitmap = bytes, frame_count = frames, usable_frames = 0,
                 free_frames = 0, next_hint = 0, managed_limit = limit, lock = 0,
                 initialized = 0\<rparr> in
        do {
          p \<leftarrow> foldM (expose_entry boot entries limit) [0..<unat (bi_e820_entry_count boot)] p;
          p \<leftarrow> foldM (reserve_entry boot entries) [0..<unat (bi_e820_entry_count boot)] p;
          p \<leftarrow> reserve_boot_regions boot bitmap_phys required p;
          let hint = drop_bit NS_PAGE_SHIFT NS_PMM_LOW_MEMORY_RESERVE;
          let p = p\<lparr>next_hint := (if hint \<ge> frame_count p then 0 else hint), initialized := 1\<rparr>;
          ns_pmm_check_invariants p
        })"

section \<open>Allocation\<close>

definition align_frame :: "u64 \<Rightarrow> u64 \<Rightarrow> u64" where
  "align_frame frame alignment =
     (let msk = alignment - 1 in
      if frame > UINT64_MAX - msk then UINT64_MAX else (frame + msk) AND NOT msk)"

definition span_is_free :: "ns_pmm \<Rightarrow> u64 \<Rightarrow> u64 \<Rightarrow> u64 \<Rightarrow> bool option" where
  "span_is_free p first count limit =
     (if first > limit \<or> count > limit - first then Some False
      else do {
        r \<leftarrow> for_u64 0 count 1
              (\<lambda>i s. do { a \<leftarrow> bitmap_get (allocated_bitmap p) (first + i);
                         Some (if a then Inl () else Inr s) }) ();
        Some (case r of Inl _ \<Rightarrow> False | Inr _ \<Rightarrow> True)
      })"

text \<open>The distance past the first occupied frame of the candidate span.\<close>

definition occupied_skip :: "ns_pmm \<Rightarrow> u64 \<Rightarrow> u64 \<Rightarrow> u64 option" where
  "occupied_skip p frame count = do {
     r \<leftarrow> for_u64 0 count 1
           (\<lambda>i s. do { a \<leftarrow> bitmap_get (allocated_bitmap p) (frame + i);
                      Some (if a then Inl (i + 1) else Inr s) }) ();
     Some (case r of Inl skip \<Rightarrow> skip | Inr _ \<Rightarrow> 1)
   }"

partial_function (option) find_run_loop ::
  "ns_pmm \<Rightarrow> u64 \<Rightarrow> u64 \<Rightarrow> u64 \<Rightarrow> u64 \<Rightarrow> u64 option option" where
  "find_run_loop p frame stop count alignment =
     (if frame < stop \<and> count \<le> stop - frame
      then do {
        free \<leftarrow> span_is_free p frame count stop;
        if free then Some (Some frame)
        else do {
          skip \<leftarrow> occupied_skip p frame count;
          find_run_loop p (align_frame (frame + skip) alignment) stop count alignment
        }
      }
      else Some None)"

definition find_run :: "ns_pmm \<Rightarrow> u64 \<Rightarrow> u64 \<Rightarrow> u64 \<Rightarrow> u64 \<Rightarrow> u64 option option" where
  "find_run p start stop count alignment =
     find_run_loop p (align_frame start alignment) stop count alignment"

text \<open>
  The out-parameter is \<open>None\<close> where the call returns before writing it.
\<close>

definition ns_pmm_alloc_pages ::
  "ns_pmm \<Rightarrow> u64 \<Rightarrow> u64 \<Rightarrow> u64 \<Rightarrow> (ns_pmm_error \<times> u64 option \<times> ns_pmm) option" where
  "ns_pmm_alloc_pages p count alignment_pages max_phys_exclusive =
     (if initialized p = 0 \<or> count = 0 \<or> alignment_pages = 0 \<or>
         alignment_pages AND (alignment_pages - 1) \<noteq> 0
      then Some (NS_PMM_EINVAL, None, p)
      else do {
        p \<leftarrow> pmm_lock p;
        if count > free_frames p then Some (NS_PMM_ENOSPC, Some NS_INVALID_PHYS, pmm_unlock p)
        else
          let limit = (if max_phys_exclusive \<noteq> 0 \<and>
                          drop_bit NS_PAGE_SHIFT max_phys_exclusive < frame_count p
                       then drop_bit NS_PAGE_SHIFT max_phys_exclusive else frame_count p);
              hint = (if next_hint p < limit then next_hint p else 0) in
          do {
            found \<leftarrow> find_run p hint limit count alignment_pages;
            found \<leftarrow> (if found = None \<and> hint \<noteq> 0
                      then find_run p 0 hint count alignment_pages else Some found);
            case found of
              None \<Rightarrow> Some (NS_PMM_ENOSPC, Some NS_INVALID_PHYS, pmm_unlock p)
            | Some candidate \<Rightarrow> do {
                ab \<leftarrow> run_u64 0 count 1 (\<lambda>i ab. bitmap_set ab (candidate + i)) (allocated_bitmap p);
                let hint' = candidate + count;
                let p = p\<lparr>allocated_bitmap := ab, free_frames := free_frames p - count,
                           next_hint := (if hint' \<ge> frame_count p then 0 else hint')\<rparr>;
                Some (NS_PMM_OK, Some (push_bit NS_PAGE_SHIFT candidate), pmm_unlock p)
              }
          }
      })"

definition ns_pmm_alloc_page :: "ns_pmm \<Rightarrow> (ns_pmm_error \<times> u64 option \<times> ns_pmm) option" where
  "ns_pmm_alloc_page p = ns_pmm_alloc_pages p 1 1 0"

section \<open>Freeing, reserving and querying\<close>

definition free_check_step :: "ns_pmm \<Rightarrow> u64 \<Rightarrow> u64 \<Rightarrow> unit \<Rightarrow> (ns_pmm_error + unit) option" where
  "free_check_step p first i s = do {
     r \<leftarrow> bitmap_get (reserved_bitmap p) (first + i);
     if r then Some (Inl NS_PMM_EPERM)
     else do {
       a \<leftarrow> bitmap_get (allocated_bitmap p) (first + i);
       Some (if \<not> a then Inl NS_PMM_EDOUBLEFREE else Inr s)
     }
   }"

definition ns_pmm_free_pages :: "ns_pmm \<Rightarrow> u64 \<Rightarrow> u64 \<Rightarrow> (ns_pmm_error \<times> ns_pmm) option" where
  "ns_pmm_free_pages p phys count =
     (if initialized p = 0 \<or> count = 0 \<or> page_offset phys \<noteq> 0 then Some (NS_PMM_EINVAL, p)
      else let first = drop_bit NS_PAGE_SHIFT phys in
      if first \<ge> frame_count p \<or> count > frame_count p - first then Some (NS_PMM_ERANGE, p)
      else do {
        p \<leftarrow> pmm_lock p;
        r \<leftarrow> for_u64 0 count 1 (free_check_step p first) ();
        case r of
          Inl e \<Rightarrow> Some (e, pmm_unlock p)
        | Inr _ \<Rightarrow> do {
            ab \<leftarrow> run_u64 0 count 1 (\<lambda>i ab. bitmap_clear ab (first + i)) (allocated_bitmap p);
            Some (NS_PMM_OK,
              pmm_unlock (p\<lparr>allocated_bitmap := ab, free_frames := free_frames p + count,
                next_hint := (if first < next_hint p then first else next_hint p)\<rparr>))
          }
      })"

definition ns_pmm_free_page :: "ns_pmm \<Rightarrow> u64 \<Rightarrow> (ns_pmm_error \<times> ns_pmm) option" where
  "ns_pmm_free_page p phys = ns_pmm_free_pages p phys 1"

definition ns_pmm_reserve_range :: "ns_pmm \<Rightarrow> u64 \<Rightarrow> u64 \<Rightarrow> (ns_pmm_error \<times> ns_pmm) option" where
  "ns_pmm_reserve_range p base len =
     (if initialized p = 0 \<or> len = 0 then Some (NS_PMM_EINVAL, p)
      else if base \<ge> managed_limit p then Some (NS_PMM_ERANGE, p)
      else do {
        p \<leftarrow> pmm_lock p;
        p \<leftarrow> reserve_range_unlocked base len p;
        Some (NS_PMM_OK, pmm_unlock p)
      })"

definition ns_pmm_is_allocated :: "ns_pmm \<Rightarrow> u64 \<Rightarrow> (bool \<times> ns_pmm) option" where
  "ns_pmm_is_allocated p phys =
     (if initialized p = 0 \<or> page_offset phys \<noteq> 0 \<or> phys \<ge> managed_limit p then Some (True, p)
      else do {
        p \<leftarrow> pmm_lock p;
        a \<leftarrow> bitmap_get (allocated_bitmap p) (drop_bit NS_PAGE_SHIFT phys);
        Some (a, pmm_unlock p)
      })"

definition ns_pmm_is_permanently_reserved :: "ns_pmm \<Rightarrow> u64 \<Rightarrow> (bool \<times> ns_pmm) option" where
  "ns_pmm_is_permanently_reserved p phys =
     (if initialized p = 0 \<or> page_offset phys \<noteq> 0 \<or> phys \<ge> managed_limit p then Some (True, p)
      else do {
        p \<leftarrow> pmm_lock p;
        r \<leftarrow> bitmap_get (reserved_bitmap p) (drop_bit NS_PAGE_SHIFT phys);
        Some (r, pmm_unlock p)
      })"

definition stats_step :: "ns_pmm \<Rightarrow> u64 \<Rightarrow> u64 \<times> u64 \<Rightarrow> (u64 \<times> u64) option" where
  "stats_step p frame c = do {
     r \<leftarrow> bitmap_get (reserved_bitmap p) frame;
     if r then Some (fst c + 1, snd c)
     else do {
       a \<leftarrow> bitmap_get (allocated_bitmap p) frame;
       Some (if a then (fst c, snd c + 1) else c)
     }
   }"

definition ns_pmm_get_stats :: "ns_pmm \<Rightarrow> (ns_pmm_stats \<times> ns_pmm) option" where
  "ns_pmm_get_stats p = do {
     p \<leftarrow> pmm_lock p;
     c \<leftarrow> run_u64 0 (frame_count p) 1 (stats_step p) (0, 0);
     Some (\<lparr>st_tracked_frames = frame_count p, st_usable_frames = usable_frames p,
            st_free_frames = free_frames p, st_allocated_frames = snd c,
            st_permanently_reserved_frames = fst c,
            st_highest_physical_address = managed_limit p\<rparr>, pmm_unlock p)
   }"

end
