(* ===== verification/Pmm_Frames.thy ===== *)
theory Pmm_Frames
  imports Pmm
begin

text \<open>
  The bitmaps of \<open>kernel/mm/pmm.c\<close> read as sets of frame numbers: what setting and clearing bits
  does to them (one interface, two instances), the invariant of the manager, the frames that a
  range of addresses touches or covers, and the correctness of \<open>ns_pmm_init\<close> and of the self check.
\<close>

section \<open>Bits and bytes\<close>

definition frame_bit :: "u8 list \<Rightarrow> nat \<Rightarrow> bool" where
  "frame_bit bm f \<longleftrightarrow> bit (bm ! (f div 8)) (f mod 8)"

lemma word_seven: "(7::u64) = mask 3"
  by (simp add: mask_eq_exp_minus_1)

lemma byte_index [unat_simps]: "unat (drop_bit 3 (f::u64)) = unat f div 8"
  by (simp add: unat_div_pow)

lemma bit_index [unat_simps]: "unat ((f::u64) AND 7) = unat f mod 8"
  by (simp only: word_seven unat_mask_and) simp

lemma and_single_bit: "(w::u8) AND 2 ^ n = 0 \<longleftrightarrow> \<not> bit w n"
  using bit_iff_and_push_bit_not_eq_0 [of w n] by simp

lemma bitmap_get_eq:
  "unat f div 8 < length bm \<Longrightarrow> bitmap_get bm f = Some (frame_bit bm (unat f))"
  by (simp add: bitmap_get_def Let_def byte_index bit_index and_single_bit frame_bit_def)

lemma bitmap_set_eq:
  assumes "unat f div 8 < length bm"
  shows "\<exists>bm'. bitmap_set bm f = Some bm' \<and> length bm' = length bm \<and>
    (\<forall>g. g div 8 < length bm \<longrightarrow> (frame_bit bm' g \<longleftrightarrow> g = unat f \<or> frame_bit bm g))"
proof -
  let ?k = "unat f div 8" and ?b = "unat f mod 8"
  let ?bm = "bm[?k := bm ! ?k OR push_bit ?b 1]"
  have "frame_bit ?bm g \<longleftrightarrow> g = unat f \<or> frame_bit bm g" if "g div 8 < length bm" for g
  proof (cases "g div 8 = ?k")
    case True
    have "g = unat f \<longleftrightarrow> g mod 8 = ?b"
      using True by (metis div_mult_mod_eq)
    moreover have "g mod 8 < 8" by simp
    ultimately show ?thesis
      using True assms by (auto simp: frame_bit_def bit_simps)
  next
    case False
    then have "g \<noteq> unat f" by auto
    with False show ?thesis by (simp add: frame_bit_def)
  qed
  then show ?thesis
    using assms by (intro exI [of _ ?bm]) (simp add: bitmap_set_def Let_def byte_index bit_index)
qed

lemma bitmap_clear_eq:
  assumes "unat f div 8 < length bm"
  shows "\<exists>bm'. bitmap_clear bm f = Some bm' \<and> length bm' = length bm \<and>
    (\<forall>g. g div 8 < length bm \<longrightarrow> (frame_bit bm' g \<longleftrightarrow> g \<noteq> unat f \<and> frame_bit bm g))"
proof -
  let ?k = "unat f div 8" and ?b = "unat f mod 8"
  let ?bm = "bm[?k := bm ! ?k AND NOT (push_bit ?b 1)]"
  have "frame_bit ?bm g \<longleftrightarrow> g \<noteq> unat f \<and> frame_bit bm g" if "g div 8 < length bm" for g
  proof (cases "g div 8 = ?k")
    case True
    have "g = unat f \<longleftrightarrow> g mod 8 = ?b"
      using True by (metis div_mult_mod_eq)
    moreover have "g mod 8 < 8" by simp
    ultimately show ?thesis
      using True assms by (auto simp: frame_bit_def bit_simps)
  next
    case False
    then have "g \<noteq> unat f" by auto
    with False show ?thesis by (simp add: frame_bit_def)
  qed
  then show ?thesis
    using assms by (intro exI [of _ ?bm]) (simp add: bitmap_clear_def Let_def byte_index bit_index)
qed

definition bitmap_frames :: "u8 list \<Rightarrow> nat \<Rightarrow> nat set" where
  "bitmap_frames bm n = {f. f < n \<and> frame_bit bm f}"

lemma finite_bitmap_frames [simp]: "finite (bitmap_frames bm n)"
  by (simp add: bitmap_frames_def)

lemma bitmap_frames_less: "f \<in> bitmap_frames bm n \<Longrightarrow> f < n"
  by (simp add: bitmap_frames_def)

lemma bitmap_get_frames:
  "unat f < n \<Longrightarrow> n \<le> 8 * length bm \<Longrightarrow> bitmap_get bm f = Some (unat f \<in> bitmap_frames bm n)"
  by (simp add: bitmap_get_eq bitmap_frames_def)

text \<open>
  What writing one bit promises, and what a loop that writes a run of bits makes of it. The two
  instances are setting and clearing.
\<close>

locale bitmap_update =
  fixes upd :: "u8 list \<Rightarrow> u64 \<Rightarrow> u8 list option"
    and eff :: "nat set \<Rightarrow> nat set \<Rightarrow> nat set"
  assumes upd_one: "unat f < n \<Longrightarrow> n \<le> 8 * length bm \<Longrightarrow>
      \<exists>bm'. upd bm f = Some bm' \<and> length bm' = length bm \<and>
            bitmap_frames bm' n = eff {unat f} (bitmap_frames bm n)"
    and eff_none: "eff {} S = S"
    and eff_more: "eff A (eff B S) = eff (A \<union> B) S"
begin

lemma upd_list:
  assumes "\<forall>f \<in> set fs. unat f < n" and "n \<le> 8 * length bm"
  shows "\<exists>bm'. foldM (\<lambda>f bm. upd bm f) fs bm = Some bm' \<and> length bm' = length bm \<and>
           bitmap_frames bm' n = eff (unat ` set fs) (bitmap_frames bm n)"
  using assms
proof (induction fs arbitrary: bm)
  case Nil
  then show ?case by (simp add: eff_none)
next
  case (Cons f fs)
  obtain bm1 where bm1: "upd bm f = Some bm1" "length bm1 = length bm"
    "bitmap_frames bm1 n = eff {unat f} (bitmap_frames bm n)"
    using upd_one [of f n bm] Cons.prems by auto
  obtain bm2 where "foldM (\<lambda>f bm. upd bm f) fs bm1 = Some bm2" "length bm2 = length bm1"
    "bitmap_frames bm2 n = eff (unat ` set fs) (bitmap_frames bm1 n)"
    using Cons.IH [of bm1] Cons.prems bm1(2) by auto
  moreover have "unat ` set fs \<union> {unat f} = unat ` set (f # fs)" by simp
  ultimately show ?case using bm1 by (intro exI [of _ bm2]) (simp only: eff_more foldM.simps bind.bind_lunit)
qed

text \<open>The loops of the allocator: \<open>count\<close> consecutive frames from \<open>c\<close>.\<close>

lemma upd_run:
  assumes "unat c + unat count \<le> n" and "n \<le> 8 * length bm" and "n < 2 ^ 64"
  shows "\<exists>bm'. run_u64 0 count 1 (\<lambda>i bm. upd bm (c + i)) bm = Some bm' \<and>
           length bm' = length bm \<and>
           bitmap_frames bm' n = eff {unat c..<unat c + unat count} (bitmap_frames bm n)"
proof -
  let ?fs = "map (\<lambda>i. c + i) (u64_upt 0 count)"
  have sum: "unat (c + i) = unat c + unat i" if "i \<in> set (u64_upt 0 count)" for i
    using that assms(1,3) by (simp add: in_u64_upt word_less_nat_alt unat_word_ariths)
  have "unat ` set ?fs = (\<lambda>k. unat c + k) ` (unat ` set (u64_upt 0 count))"
    using sum by (force simp: image_iff)
  also have "unat ` set (u64_upt 0 count) = {0..<unat count}"
    by (simp add: unat_image_u64_upt)
  finally have img: "unat ` set ?fs = {unat c..<unat c + unat count}"
    by (simp add: image_add_atLeastLessThan add.commute)
  have "foldM (\<lambda>f bm. upd bm f) ?fs bm = foldM (\<lambda>i bm. upd bm (c + i)) (u64_upt 0 count) bm"
    by (simp add: foldM_map)
  moreover have "\<forall>f \<in> set ?fs. unat f < n"
    using sum assms(1) by (auto simp: in_u64_upt word_less_nat_alt)
  ultimately show ?thesis
    using upd_list [of ?fs n bm, unfolded img] assms(2) by (simp add: run_u64_step1)
qed

end

interpretation bset: bitmap_update bitmap_set "(\<union>)"
proof
  fix f :: u64 and n and bm :: "u8 list" assume "unat f < n" "n \<le> 8 * length bm"
  then have "unat f div 8 < length bm" by simp
  from bitmap_set_eq [OF this] obtain bm' where bm': "bitmap_set bm f = Some bm'" "length bm' = length bm"
    "\<forall>g. g div 8 < length bm \<longrightarrow> (frame_bit bm' g \<longleftrightarrow> g = unat f \<or> frame_bit bm g)"
    by blast
  moreover have "g div 8 < length bm" if "g < n" for g
    using that \<open>n \<le> 8 * length bm\<close> by simp
  ultimately have "bitmap_frames bm' n = {unat f} \<union> bitmap_frames bm n"
    using \<open>unat f < n\<close> by (auto simp: bitmap_frames_def)
  then show "\<exists>bm'. bitmap_set bm f = Some bm' \<and> length bm' = length bm \<and>
          bitmap_frames bm' n = {unat f} \<union> bitmap_frames bm n"
    using bm' by blast
qed auto

interpretation bclear: bitmap_update bitmap_clear "\<lambda>A S. S - A"
proof
  fix f :: u64 and n and bm :: "u8 list" assume "unat f < n" "n \<le> 8 * length bm"
  then have "unat f div 8 < length bm" by simp
  from bitmap_clear_eq [OF this] obtain bm' where bm': "bitmap_clear bm f = Some bm'" "length bm' = length bm"
    "\<forall>g. g div 8 < length bm \<longrightarrow> (frame_bit bm' g \<longleftrightarrow> g \<noteq> unat f \<and> frame_bit bm g)"
    by blast
  moreover have "g div 8 < length bm" if "g < n" for g
    using that \<open>n \<le> 8 * length bm\<close> by simp
  ultimately have "bitmap_frames bm' n = bitmap_frames bm n - {unat f}"
    using \<open>unat f < n\<close> by (auto simp: bitmap_frames_def)
  then show "\<exists>bm'. bitmap_clear bm f = Some bm' \<and> length bm' = length bm \<and>
          bitmap_frames bm' n = bitmap_frames bm n - {unat f}"
    using bm' by blast
qed auto

section \<open>Frame sets and the invariant\<close>

definition allocated_frames :: "ns_pmm \<Rightarrow> nat set" where
  "allocated_frames p = bitmap_frames (allocated_bitmap p) (unat (frame_count p))"

definition reserved_frames :: "ns_pmm \<Rightarrow> nat set" where
  "reserved_frames p = bitmap_frames (reserved_bitmap p) (unat (frame_count p))"

definition free_set :: "ns_pmm \<Rightarrow> nat set" where
  "free_set p = {..<unat (frame_count p)} - allocated_frames p"

definition pmm_layout :: "ns_pmm \<Rightarrow> bool" where
  "pmm_layout p \<longleftrightarrow>
     length (allocated_bitmap p) = unat (bytes_per_bitmap p) \<and>
     length (reserved_bitmap p) = unat (bytes_per_bitmap p) \<and>
     bytes_per_bitmap p = drop_bit 3 (frame_count p + 7) \<and>
     unat (managed_limit p) = unat (frame_count p) * 4096 \<and>
     frame_count p \<noteq> 0"

definition pmm_counts :: "ns_pmm \<Rightarrow> bool" where
  "pmm_counts p \<longleftrightarrow>
     reserved_frames p \<subseteq> allocated_frames p \<and> unat (free_frames p) = card (free_set p)"

definition pmm_core :: "ns_pmm \<Rightarrow> bool" where
  "pmm_core p \<longleftrightarrow> pmm_layout p \<and> pmm_counts p"

definition pmm_inv :: "ns_pmm \<Rightarrow> bool" where
  "pmm_inv p \<longleftrightarrow> pmm_core p \<and> next_hint p < frame_count p \<and> lock p = 0 \<and> initialized p \<noteq> 0"

definition same_header :: "ns_pmm \<Rightarrow> ns_pmm \<Rightarrow> bool" where
  "same_header p q \<longleftrightarrow>
     bytes_per_bitmap q = bytes_per_bitmap p \<and> frame_count q = frame_count p \<and>
     next_hint q = next_hint p \<and> managed_limit q = managed_limit p \<and>
     lock q = lock p \<and> initialized q = initialized p"

lemma frame_count_bound:
  assumes "pmm_layout p"
  shows "unat (frame_count p) < 2 ^ 52"
proof -
  have "unat (frame_count p) * 4096 < 2 ^ 64"
    using assms u64_less [of "managed_limit p"] by (simp add: pmm_layout_def)
  then show ?thesis by simp
qed

lemma layout_fits:
  assumes "pmm_layout p"
  shows "unat (frame_count p) \<le> 8 * length (allocated_bitmap p)"
    and "unat (frame_count p) \<le> 8 * length (reserved_bitmap p)"
proof -
  have "unat (frame_count p + 7) = unat (frame_count p) + 7"
    using frame_count_bound [OF assms] by (simp add: unat_word_ariths)
  then have "unat (bytes_per_bitmap p) = (unat (frame_count p) + 7) div 8"
    using assms by (simp add: pmm_layout_def byte_index)
  moreover have "unat (frame_count p) \<le> 8 * ((unat (frame_count p) + 7) div 8)"
    by presburger
  ultimately show "unat (frame_count p) \<le> 8 * length (allocated_bitmap p)"
    "unat (frame_count p) \<le> 8 * length (reserved_bitmap p)"
    using assms by (simp_all add: pmm_layout_def)
qed

lemma finite_frames [simp]:
  "finite (allocated_frames p)" "finite (reserved_frames p)" "finite (free_set p)"
  by (simp_all add: allocated_frames_def reserved_frames_def free_set_def)

lemma frames_less:
  "f \<in> allocated_frames p \<Longrightarrow> f < unat (frame_count p)"
  "f \<in> reserved_frames p \<Longrightarrow> f < unat (frame_count p)"
  by (simp_all add: allocated_frames_def reserved_frames_def bitmap_frames_less)

lemma get_allocated:
  "pmm_layout p \<Longrightarrow> unat f < unat (frame_count p) \<Longrightarrow>
   bitmap_get (allocated_bitmap p) f = Some (unat f \<in> allocated_frames p)"
  by (simp add: allocated_frames_def bitmap_get_frames layout_fits)

lemma get_reserved:
  "pmm_layout p \<Longrightarrow> unat f < unat (frame_count p) \<Longrightarrow>
   bitmap_get (reserved_bitmap p) f = Some (unat f \<in> reserved_frames p)"
  by (simp add: reserved_frames_def bitmap_get_frames layout_fits)

text \<open>What an operation that permanently reserves the frames \<open>F\<close> does to the manager.\<close>

definition reserves :: "nat set \<Rightarrow> ns_pmm \<Rightarrow> ns_pmm \<Rightarrow> bool" where
  "reserves F p q \<longleftrightarrow>
     pmm_core q \<and> same_header p q \<and> usable_frames q = usable_frames p \<and>
     allocated_frames q = allocated_frames p \<union> F \<and> reserved_frames q = reserved_frames p \<union> F"

lemma reserves_none: "pmm_core p \<Longrightarrow> reserves {} p p"
  by (simp add: reserves_def same_header_def)

lemma reserves_trans: "reserves F p q \<Longrightarrow> reserves G q r \<Longrightarrow> reserves (F \<union> G) p r"
  by (auto simp: reserves_def same_header_def)

lemma free_set_insert:
  "frame_count q = frame_count p \<Longrightarrow> allocated_frames q = {f} \<union> allocated_frames p \<Longrightarrow>
   free_set q = free_set p - {f}"
  by (auto simp: free_set_def)

lemma mark_frame_permanent_reserves:
  assumes core: "pmm_core p" and f: "unat f < unat (frame_count p)"
  shows "\<exists>q. mark_frame_permanent f p = Some q \<and> reserves {unat f} p q"
proof -
  have lay: "pmm_layout p" and cnt: "pmm_counts p" using core by (simp_all add: pmm_core_def)
  obtain ab where ab: "bitmap_set (allocated_bitmap p) f = Some ab"
    "length ab = length (allocated_bitmap p)"
    "bitmap_frames ab (unat (frame_count p)) = {unat f} \<union> allocated_frames p"
    using bset.upd_one [OF f] layout_fits [OF lay] by (metis allocated_frames_def)
  obtain rb where rb: "bitmap_set (reserved_bitmap p) f = Some rb"
    "length rb = length (reserved_bitmap p)"
    "bitmap_frames rb (unat (frame_count p)) = {unat f} \<union> reserved_frames p"
    using bset.upd_one [OF f] layout_fits [OF lay] by (metis reserved_frames_def)
  show ?thesis
  proof (cases "unat f \<in> allocated_frames p")
    case True
    let ?q = "p\<lparr>reserved_bitmap := rb\<rparr>"
    have "mark_frame_permanent f p = Some ?q"
      using f True by (simp add: mark_frame_permanent_def get_allocated [OF lay f] rb word_le_nat_alt)
    moreover have "reserves {unat f} p ?q"
      using True lay cnt rb
      by (auto simp: reserves_def pmm_core_def pmm_layout_def pmm_counts_def same_header_def
          allocated_frames_def reserved_frames_def free_set_def)
    ultimately show ?thesis by blast
  next
    case False
    then have mem: "unat f \<in> free_set p" using f by (simp add: free_set_def)
    then have pos: "0 < card (free_set p)" by (auto simp: card_gt_0_iff)
    then have nz: "free_frames p \<noteq> 0" using cnt by (auto simp: pmm_counts_def)
    let ?q = "p\<lparr>allocated_bitmap := ab, free_frames := free_frames p - 1, reserved_bitmap := rb\<rparr>"
    have "mark_frame_permanent f p = Some ?q"
      using f False nz by (simp add: mark_frame_permanent_def get_allocated [OF lay f] ab rb word_le_nat_alt)
    moreover have "unat (free_frames p - 1) = card (free_set p) - 1"
      using nz cnt by (simp add: unat_minus_one pmm_counts_def)
    moreover have "free_set ?q = free_set p - {unat f}"
      using ab(3) by (intro free_set_insert) (simp_all add: allocated_frames_def)
    ultimately have "reserves {unat f} p ?q"
      using lay cnt ab rb mem
      by (auto simp: reserves_def pmm_core_def pmm_layout_def pmm_counts_def same_header_def
          allocated_frames_def reserved_frames_def)
    with \<open>mark_frame_permanent f p = Some ?q\<close> show ?thesis by blast
  qed
qed

lemma foldM_reserves:
  assumes "pmm_core p" and "\<forall>f \<in> set fs. unat f < unat (frame_count p)"
  shows "\<exists>q. foldM mark_frame_permanent fs p = Some q \<and> reserves (unat ` set fs) p q"
  using assms
proof (induction fs arbitrary: p)
  case Nil
  then show ?case by (simp add: reserves_none)
next
  case (Cons f fs)
  obtain q where q: "mark_frame_permanent f p = Some q" "reserves {unat f} p q"
    using mark_frame_permanent_reserves [of p f] Cons.prems by auto
  then have "pmm_core q" "\<forall>f \<in> set fs. unat f < unat (frame_count q)"
    using Cons.prems by (auto simp: reserves_def same_header_def)
  then obtain r where "foldM mark_frame_permanent fs q = Some r" "reserves (unat ` set fs) q r"
    using Cons.IH by blast
  moreover have "{unat f} \<union> unat ` set fs = unat ` set (f # fs)" by simp
  ultimately show ?case
    using q reserves_trans [OF q(2)] by (metis bind.bind_lunit foldM.simps(2))
qed

section \<open>Ranges of addresses as sets of frames\<close>

text \<open>
  The specification speaks of addresses as unbounded numbers: a page is touched by a range when
  the two overlap, and lies within a range when the range covers all of it.
\<close>

definition pages_touched :: "nat \<Rightarrow> nat \<Rightarrow> nat set" where
  "pages_touched base len = {f. 0 < len \<and> f * 4096 < base + len \<and> base < (f + 1) * 4096}"

definition pages_within :: "nat \<Rightarrow> nat \<Rightarrow> nat set" where
  "pages_within base len = {f. base \<le> f * 4096 \<and> (f + 1) * 4096 \<le> base + len}"

lemma page_mask: "(NS_PAGE_SIZE - 1) = mask 12"
  by (simp add: mask_eq_exp_minus_1)

lemma unat_align_down [unat_simps]: "unat (align_down_page a) = unat a div 4096 * 4096"
  unfolding align_down_page_def page_mask by (simp add: unat_and_not_mask)

lemma unat_page_offset [unat_simps]: "unat (page_offset a) = unat a mod 4096"
  unfolding page_offset_def page_mask by (simp add: unat_mask_and)

lemma page_offset_zero: "page_offset a = 0 \<longleftrightarrow> unat a mod 4096 = 0"
  by (metis unat_page_offset unat_eq_0 unsigned_0)

lemma unat_align_up [unat_simps]:
  "unat (align_up_page_saturating a) =
     (if unat a > 2 ^ 64 - 4096 then 2 ^ 64 - 4096 else (unat a + 4095) div 4096 * 4096)"
proof -
  have max: "unat (UINT64_MAX - (NS_PAGE_SIZE - 1)) = 2 ^ 64 - 4096" by simp
  have "unat (UINT64_MAX AND NOT (NS_PAGE_SIZE - 1)) = 2 ^ 64 - 4096" by simp
  moreover have "unat ((a + NS_PAGE_SIZE - 1) AND NOT (NS_PAGE_SIZE - 1)) =
      (unat a + 4095) div 4096 * 4096" if "\<not> unat a > 2 ^ 64 - 4096"
  proof -
    have "unat (a + NS_PAGE_SIZE - 1) = unat (a + 4095)" by (simp add: add_diff_eq [symmetric])
    also have "\<dots> = unat a + 4095" using that by (simp add: unat_word_ariths)
    finally show ?thesis unfolding page_mask by (simp add: unat_and_not_mask)
  qed
  ultimately show ?thesis
    using max by (simp add: align_up_page_saturating_def word_less_nat_alt del: unat_and)
qed

lemma add_overflow: "add_overflow_u64 a b = (unat a + unat b \<ge> 2 ^ 64, a + b)"
  by (simp add: add_overflow_u64_def u64_add_wraps)

lemma layout_limit: "pmm_layout p \<Longrightarrow> unat (managed_limit p) = unat (frame_count p) * 4096"
  by (simp add: pmm_layout_def)

lemma reserve_range_unlocked_reserves:
  assumes core: "pmm_core p"
  shows "\<exists>q. reserve_range_unlocked base len p = Some q \<and>
           reserves (pages_touched (unat base) (unat len) \<inter> {..<unat (frame_count p)}) p q"
proof (cases "len = 0 \<or> base \<ge> managed_limit p")
  case True
  have "pages_touched (unat base) (unat len) \<inter> {..<unat (frame_count p)} = {}"
    using True core by (auto simp: pages_touched_def pmm_core_def pmm_layout_def word_le_nat_alt)
  with True core show ?thesis by (auto simp: reserve_range_unlocked_def reserves_none)
next
  case False
  let ?fc = "unat (frame_count p)"
  have lay: "pmm_layout p" and fc: "?fc < 2 ^ 52"
    using core frame_count_bound by (auto simp: pmm_core_def)
  define stop where "stop =
    (if unat base + unat len \<ge> 2 ^ 64 \<or> base + len > managed_limit p then managed_limit p
     else base + len)"
  define first where "first = drop_bit NS_PAGE_SHIFT (align_down_page base)"
  define last_frame where "last_frame =
    (let l = drop_bit NS_PAGE_SHIFT (align_up_page_saturating stop) in
     if l > frame_count p then frame_count p else l)"
  have first: "unat first = unat base div 4096"
    by (simp add: first_def unat_div_pow unat_align_down)
  have stop: "unat stop = min (unat base + unat len) (?fc * 4096)"
    using layout_limit [OF lay] fc
    by (auto simp: stop_def word_less_nat_alt unat_word_ariths)
  then have "unat stop \<le> 2 ^ 64 - 4096" using fc by simp
  then have "unat (drop_bit NS_PAGE_SHIFT (align_up_page_saturating stop)) = (unat stop + 4095) div 4096"
    by (simp add: unat_div_pow unat_align_up)
  then have last: "unat last_frame = min ?fc ((unat stop + 4095) div 4096)"
    by (auto simp: last_frame_def Let_def word_less_nat_alt)
  have "{unat first..<unat last_frame} =
      pages_touched (unat base) (unat len) \<inter> {..<unat (frame_count p)}"
  proof -
    have "0 < unat len" using False by (simp add: unat_gt_0)
    then show ?thesis
      unfolding first last stop pages_touched_def by (auto simp: min_def div_le_mono; presburger)
  qed
  moreover have "reserve_range_unlocked base len p =
      foldM mark_frame_permanent (u64_upt first last_frame) p"
    using False
    by (simp add: reserve_range_unlocked_def add_overflow Let_def stop_def first_def last_frame_def
        run_u64_step1)
  moreover have "\<forall>f \<in> set (u64_upt first last_frame). unat f < ?fc"
    using last by (auto simp: in_u64_upt word_less_nat_alt)
  ultimately show ?thesis
    using foldM_reserves [OF core, of "u64_upt first last_frame"] by (simp add: unat_image_u64_upt)
qed

text \<open>What exposing the frames \<open>F\<close> does while the two bitmaps still agree.\<close>

definition exposes :: "nat set \<Rightarrow> ns_pmm \<Rightarrow> ns_pmm \<Rightarrow> bool" where
  "exposes F p q \<longleftrightarrow>
     pmm_core q \<and> same_header p q \<and> allocated_frames q = allocated_frames p - F \<and>
     reserved_frames q = allocated_frames q"

lemma exposes_none: "pmm_core p \<Longrightarrow> reserved_frames p = allocated_frames p \<Longrightarrow> exposes {} p p"
  by (simp add: exposes_def same_header_def)

lemma exposes_trans: "exposes F p q \<Longrightarrow> exposes G q r \<Longrightarrow> exposes (F \<union> G) p r"
  by (auto simp: exposes_def same_header_def)

lemma mark_frame_free_initial_exposes:
  assumes core: "pmm_core p" and agree: "reserved_frames p = allocated_frames p"
    and f: "unat f < unat (frame_count p)"
  shows "\<exists>q. mark_frame_free_initial f p = Some q \<and> exposes {unat f} p q"
proof -
  have lay: "pmm_layout p" and cnt: "pmm_counts p" using core by (simp_all add: pmm_core_def)
  obtain ab where ab: "bitmap_clear (allocated_bitmap p) f = Some ab"
    "length ab = length (allocated_bitmap p)"
    "bitmap_frames ab (unat (frame_count p)) = allocated_frames p - {unat f}"
    using bclear.upd_one [OF f] layout_fits [OF lay] by (metis allocated_frames_def)
  obtain rb where rb: "bitmap_clear (reserved_bitmap p) f = Some rb"
    "length rb = length (reserved_bitmap p)"
    "bitmap_frames rb (unat (frame_count p)) = reserved_frames p - {unat f}"
    using bclear.upd_one [OF f] layout_fits [OF lay] by (metis reserved_frames_def)
  show ?thesis
  proof (cases "unat f \<in> reserved_frames p")
    case False
    have "mark_frame_free_initial f p = Some p"
      using f False by (simp add: mark_frame_free_initial_def get_reserved [OF lay f] word_le_nat_alt)
    moreover have "exposes {unat f} p p"
      using False agree core by (auto simp: exposes_def same_header_def)
    ultimately show ?thesis by blast
  next
    case True
    let ?q = "p\<lparr>reserved_bitmap := rb, allocated_bitmap := ab,
      usable_frames := usable_frames p + 1, free_frames := free_frames p + 1\<rparr>"
    have step: "mark_frame_free_initial f p = Some ?q"
      using f True
      by (simp add: mark_frame_free_initial_def get_reserved [OF lay f] ab rb word_le_nat_alt)
    have free: "free_set ?q = insert (unat f) (free_set p)"
      using ab(3) f by (auto simp: free_set_def allocated_frames_def)
    have "card (free_set p) \<le> card {..<unat (frame_count p)}"
      by (rule card_mono) (auto simp: free_set_def)
    then have "unat (free_frames p + 1) = card (free_set p) + 1"
      using cnt frame_count_bound [OF lay] by (simp add: pmm_counts_def unat_word_ariths)
    moreover have "unat f \<notin> free_set p" using True agree by (simp add: free_set_def)
    ultimately have "pmm_counts ?q"
      using free agree ab rb by (simp add: pmm_counts_def allocated_frames_def reserved_frames_def)
    then have "exposes {unat f} p ?q"
      using lay ab rb agree
      by (auto simp: exposes_def pmm_core_def pmm_layout_def same_header_def
          allocated_frames_def reserved_frames_def)
    with step show ?thesis by blast
  qed
qed

lemma foldM_exposes:
  assumes "pmm_core p" and "reserved_frames p = allocated_frames p"
    and "\<forall>f \<in> set fs. unat f < unat (frame_count p)"
  shows "\<exists>q. foldM mark_frame_free_initial fs p = Some q \<and> exposes (unat ` set fs) p q"
  using assms
proof (induction fs arbitrary: p)
  case Nil
  then show ?case by (simp add: exposes_none)
next
  case (Cons f fs)
  obtain q where q: "mark_frame_free_initial f p = Some q" "exposes {unat f} p q"
    using mark_frame_free_initial_exposes [of p f] Cons.prems by auto
  then have "pmm_core q" "reserved_frames q = allocated_frames q"
    "\<forall>f \<in> set fs. unat f < unat (frame_count q)"
    using Cons.prems by (auto simp: exposes_def same_header_def)
  then obtain r where "foldM mark_frame_free_initial fs q = Some r" "exposes (unat ` set fs) q r"
    using Cons.IH by blast
  moreover have "{unat f} \<union> unat ` set fs = unat ` set (f # fs)" by simp
  ultimately show ?case
    using q exposes_trans [OF q(2)] by (metis bind.bind_lunit foldM.simps(2))
qed

lemma page_span:
  assumes "a mod 4096 = 0" and "b mod 4096 = (0::nat)"
  shows "a + (b - a) div 4096 * 4096 = max a b"
proof -
  obtain x y where "a = 4096 * x" "b = 4096 * y"
    using assms by (auto elim!: dvdE simp flip: dvd_eq_mod_eq_0)
  then show ?thesis
    by (cases "x \<le> y") (auto simp: max_def dest: le_Suc_ex)
qed

lemma page_counter_frames:
  assumes "unat a mod 4096 = 0" and "unat a + n * 4096 < 2 ^ 64"
  shows "unat ` drop_bit NS_PAGE_SHIFT ` set (counter_values a NS_PAGE_SIZE n) =
           {unat a div 4096..<unat a div 4096 + n}"
  using assms
proof (induction n arbitrary: a)
  case (Suc n)
  have sum: "unat (a + 4096) = unat a + 4096"
    using Suc.prems(2) by (simp add: unat_word_ariths)
  have div: "(unat a + 4096) div 4096 = Suc (unat a div 4096)"
    by (simp add: div_add_self2)
  from sum have "unat ` drop_bit NS_PAGE_SHIFT ` set (counter_values (a + 4096) NS_PAGE_SIZE n) =
      {unat a div 4096 + 1..<unat a div 4096 + 1 + n}"
    using Suc.IH [of "a + 4096"] Suc.prems by (simp add: div)
  then show ?case by (auto simp: unat_div_pow)
qed simp

definition entry_usable :: "northstar_e820_entry \<Rightarrow> nat set" where
  "entry_usable e =
     (if entry_enabled e \<and> e_type e = NORTHSTAR_E820_USABLE
      then pages_within (unat (e_base e)) (unat (e_length e)) else {})"

lemma expose_entry_exposes:
  assumes core: "pmm_core p" and agree: "reserved_frames p = allocated_frames p"
    and limit: "limit = managed_limit p"
  shows "\<exists>q. expose_entry boot entries limit i p = Some q \<and>
           exposes (entry_usable (entry_at boot entries i) \<inter> {..<unat (frame_count p)}) p q"
proof -
  define e where "e = entry_at boot entries i"
  show ?thesis
  proof (cases "\<not> entry_enabled e \<or> e_type e \<noteq> NORTHSTAR_E820_USABLE \<or> e_length e = 0")
    case True
    have "entry_usable e = {}" using True by (auto simp: entry_usable_def pages_within_def)
    with True core agree show ?thesis
      by (auto simp: expose_entry_def e_def Let_def exposes_none)
  next
    case False
    let ?fc = "unat (frame_count p)" and ?b = "unat (e_base e)" and ?l = "unat (e_length e)"
    have lay: "pmm_layout p" and fc: "?fc < 2 ^ 52"
      using core frame_count_bound by (auto simp: pmm_core_def)
    define stop where "stop = align_down_page
      (if ?b + ?l \<ge> 2 ^ 64 \<or> e_base e + e_length e > limit then limit else e_base e + e_length e)"
    define start where "start = align_up_page_saturating (e_base e)"
    define n where "n = (unat stop - unat start) div 4096"
    let ?fs = "map (drop_bit NS_PAGE_SHIFT) (counter_values start NS_PAGE_SIZE n)"
    have stop: "unat stop = min (?b + ?l) (?fc * 4096) div 4096 * 4096"
      using layout_limit [OF lay] fc
      by (auto simp: stop_def unat_align_down limit word_less_nat_alt unat_word_ariths min_def)
    have start: "unat start = (if ?b > 2 ^ 64 - 4096 then 2 ^ 64 - 4096 else (?b + 4095) div 4096 * 4096)"
      by (simp add: start_def unat_align_up)
    have mod0: "unat start mod 4096 = 0" "unat stop mod 4096 = 0"
      unfolding start stop by auto
    have n: "unat start + n * 4096 = max (unat start) (unat stop)"
      unfolding n_def by (rule page_span [OF mod0])
    have bound: "unat start < 2 ^ 64" "unat stop < 2 ^ 64"
      using u64_less [of start] u64_less [of stop] by simp_all
    have "run_u64 start stop NS_PAGE_SIZE
        (\<lambda>address. mark_frame_free_initial (drop_bit NS_PAGE_SHIFT address)) p =
        foldM mark_frame_free_initial ?fs p"
      unfolding foldM_map using n bound
      by (intro run_u64_list) (auto simp: max_def split: if_splits)
    then have run: "expose_entry boot entries limit i p = foldM mark_frame_free_initial ?fs p"
      using False by (simp add: expose_entry_def e_def [symmetric] Let_def add_overflow start_def stop_def)
    have "unat ` set ?fs = {unat start div 4096..<unat start div 4096 + n}"
      using page_counter_frames [OF mod0(1), of n] n bound by (simp add: max_def)
    also have "\<dots> = {unat start div 4096..<unat stop div 4096}"
      using n mod0 by (auto simp: max_def split: if_splits)
    also have "\<dots> = pages_within ?b ?l \<inter> {..<?fc}"
      unfolding start stop pages_within_def using fc
      by (auto simp: min_def split: if_splits)
    also have "\<dots> = entry_usable e \<inter> {..<?fc}"
      using False by (simp add: entry_usable_def)
    finally have frames: "unat ` set ?fs = entry_usable e \<inter> {..<?fc}" .
    then have "\<forall>f \<in> set ?fs. unat f < ?fc" by blast
    from foldM_exposes [OF core agree this] show ?thesis
      unfolding run frames e_def .
  qed
qed

section \<open>Initialisation\<close>

definition entry_reserved :: "northstar_e820_entry \<Rightarrow> nat set" where
  "entry_reserved e =
     (if entry_enabled e \<and> e_type e \<noteq> NORTHSTAR_E820_USABLE
      then pages_touched (unat (e_base e)) (unat (e_length e)) else {})"

definition usable_pages :: "northstar_boot_info \<Rightarrow> memory \<Rightarrow> nat set" where
  "usable_pages boot entries =
     (\<Union>i < unat (bi_e820_entry_count boot). entry_usable (entry_at boot entries i))"

definition firmware_reserved :: "northstar_boot_info \<Rightarrow> memory \<Rightarrow> nat set" where
  "firmware_reserved boot entries =
     (\<Union>i < unat (bi_e820_entry_count boot). entry_reserved (entry_at boot entries i))"

text \<open>Every region the boot structure names, with the bitmaps themselves.\<close>

definition boot_reserved :: "northstar_boot_info \<Rightarrow> u64 \<Rightarrow> u64 \<Rightarrow> nat set" where
  "boot_reserved boot bitmap_phys bitmap_size =
     pages_touched 0 0x100000 \<union>
     pages_touched (unat (bi_kernel_phys_base boot)) (unat (bi_kernel_size boot)) \<union>
     pages_touched (unat (bi_bootloader_phys_base boot)) (unat (bi_bootloader_size boot)) \<union>
     pages_touched (unat (bi_page_tables_phys_base boot)) (unat (bi_page_tables_size boot)) \<union>
     pages_touched (unat (bi_pml4_phys boot)) 4096 \<union>
     pages_touched (unat (bi_boot_info_phys boot)) (unat (bi_size boot)) \<union>
     pages_touched (unat (bi_e820_entries_phys boot))
       (unat (bi_e820_entry_count boot) * unat (bi_e820_entry_size boot)) \<union>
     pages_touched (unat bitmap_phys) (unat bitmap_size) \<union>
     (if bi_flags boot AND NORTHSTAR_BOOT_F_INITRD \<noteq> 0
      then pages_touched (unat (bi_initrd_phys_base boot)) (unat (bi_initrd_size boot)) else {}) \<union>
     (if bi_flags boot AND NORTHSTAR_BOOT_F_FRAMEBUFFER \<noteq> 0
      then pages_touched (unat (bi_framebuffer_phys_base boot)) (unat (bi_framebuffer_size boot))
      else {})"

lemma expose_entries:
  assumes "pmm_core p" and "reserved_frames p = allocated_frames p" and "limit = managed_limit p"
  shows "\<exists>q. foldM (expose_entry boot entries limit) is p = Some q \<and>
           exposes ((\<Union>i \<in> set is. entry_usable (entry_at boot entries i)) \<inter>
                    {..<unat (frame_count p)}) p q"
  using assms
proof (induction "is" arbitrary: p)
  case Nil
  then show ?case by (simp add: exposes_none)
next
  case (Cons i "is")
  let ?U = "\<lambda>i. entry_usable (entry_at boot entries i)"
  obtain q where q: "expose_entry boot entries limit i p = Some q"
    "exposes (?U i \<inter> {..<unat (frame_count p)}) p q"
    using expose_entry_exposes [OF Cons.prems] by blast
  then have "pmm_core q" "reserved_frames q = allocated_frames q" "limit = managed_limit q"
    and fc: "frame_count q = frame_count p"
    using Cons.prems(3) by (auto simp: exposes_def same_header_def)
  then obtain r where r: "foldM (expose_entry boot entries limit) is q = Some r"
    "exposes ((\<Union>i \<in> set is. ?U i) \<inter> {..<unat (frame_count q)}) q r"
    using Cons.IH by blast
  have "?U i \<inter> {..<unat (frame_count p)} \<union> (\<Union>i \<in> set is. ?U i) \<inter> {..<unat (frame_count q)} =
      (\<Union>i \<in> set (i # is). ?U i) \<inter> {..<unat (frame_count p)}"
    unfolding fc by auto
  with q r exposes_trans [OF q(2) r(2)] show ?case by simp
qed

lemma reserve_entry_reserves:
  assumes "pmm_core p"
  shows "\<exists>q. reserve_entry boot entries i p = Some q \<and>
           reserves (entry_reserved (entry_at boot entries i) \<inter> {..<unat (frame_count p)}) p q"
proof (cases "\<not> entry_enabled (entry_at boot entries i) \<or>
              e_type (entry_at boot entries i) = NORTHSTAR_E820_USABLE")
  case True
  then have "entry_reserved (entry_at boot entries i) = {}" by (auto simp: entry_reserved_def)
  with True show ?thesis
    using reserves_none [OF assms] by (auto simp: reserve_entry_def Let_def)
next
  case False
  with reserve_range_unlocked_reserves [OF assms, of "e_base (entry_at boot entries i)"
      "e_length (entry_at boot entries i)"]
  show ?thesis by (simp add: reserve_entry_def entry_reserved_def Let_def)
qed

lemma reserve_entries:
  assumes "pmm_core p"
  shows "\<exists>q. foldM (reserve_entry boot entries) is p = Some q \<and>
           reserves ((\<Union>i \<in> set is. entry_reserved (entry_at boot entries i)) \<inter>
                     {..<unat (frame_count p)}) p q"
  using assms
proof (induction "is" arbitrary: p)
  case Nil
  then show ?case by (simp add: reserves_none)
next
  case (Cons i "is")
  let ?R = "\<lambda>i. entry_reserved (entry_at boot entries i)"
  obtain q where q: "reserve_entry boot entries i p = Some q"
    "reserves (?R i \<inter> {..<unat (frame_count p)}) p q"
    using reserve_entry_reserves [OF Cons.prems] by blast
  then have "pmm_core q" and fc: "frame_count q = frame_count p"
    by (auto simp: reserves_def same_header_def)
  then obtain r where r: "foldM (reserve_entry boot entries) is q = Some r"
    "reserves ((\<Union>i \<in> set is. ?R i) \<inter> {..<unat (frame_count q)}) q r"
    using Cons.IH by blast
  have "?R i \<inter> {..<unat (frame_count p)} \<union> (\<Union>i \<in> set is. ?R i) \<inter> {..<unat (frame_count q)} =
      (\<Union>i \<in> set (i # is). ?R i) \<inter> {..<unat (frame_count p)}"
    unfolding fc by auto
  with q r reserves_trans [OF q(2) r(2)] show ?case by simp
qed

text \<open>The boot regions as the list of calls the C function makes.\<close>

definition boot_regions :: "northstar_boot_info \<Rightarrow> u64 \<Rightarrow> u64 \<Rightarrow> (u64 \<times> u64) list" where
  "boot_regions boot bitmap_phys bitmap_size =
     [(0, NS_PMM_LOW_MEMORY_RESERVE), (bi_kernel_phys_base boot, bi_kernel_size boot),
      (bi_bootloader_phys_base boot, bi_bootloader_size boot),
      (bi_page_tables_phys_base boot, bi_page_tables_size boot),
      (bi_pml4_phys boot, NS_PAGE_SIZE), (bi_boot_info_phys boot, ucast (bi_size boot)),
      (bi_e820_entries_phys boot,
       ucast (bi_e820_entry_count boot) * ucast (bi_e820_entry_size boot)),
      (bitmap_phys, bitmap_size)] @
     (if bi_flags boot AND NORTHSTAR_BOOT_F_INITRD \<noteq> 0
      then [(bi_initrd_phys_base boot, bi_initrd_size boot)] else []) @
     (if bi_flags boot AND NORTHSTAR_BOOT_F_FRAMEBUFFER \<noteq> 0
      then [(bi_framebuffer_phys_base boot, bi_framebuffer_size boot)] else [])"

lemma reserve_boot_regions_foldM:
  "reserve_boot_regions boot bitmap_phys bitmap_size p =
     foldM (\<lambda>(b, l). reserve_range_unlocked b l) (boot_regions boot bitmap_phys bitmap_size) p"
  by (cases "bi_flags boot AND NORTHSTAR_BOOT_F_INITRD = 0";
      cases "bi_flags boot AND NORTHSTAR_BOOT_F_FRAMEBUFFER = 0")
     (simp_all add: reserve_boot_regions_def boot_regions_def foldM_fun cong del: bind_weak_cong)

lemma reserve_regions:
  assumes "pmm_core p"
  shows "\<exists>q. foldM (\<lambda>(b, l). reserve_range_unlocked b l) rs p = Some q \<and>
           reserves ((\<Union>(b, l) \<in> set rs. pages_touched (unat b) (unat l)) \<inter>
                     {..<unat (frame_count p)}) p q"
  using assms
proof (induction rs arbitrary: p)
  case Nil
  then show ?case by (simp add: reserves_none)
next
  case (Cons r rs)
  obtain b l where r: "r = (b, l)" by (cases r)
  let ?T = "\<Union>(b, l) \<in> set rs. pages_touched (unat b) (unat l)"
  obtain q where q: "reserve_range_unlocked b l p = Some q"
    "reserves (pages_touched (unat b) (unat l) \<inter> {..<unat (frame_count p)}) p q"
    using reserve_range_unlocked_reserves [OF Cons.prems] by blast
  then have "pmm_core q" and fc: "frame_count q = frame_count p"
    by (auto simp: reserves_def same_header_def)
  then obtain t where t: "foldM (\<lambda>(b, l). reserve_range_unlocked b l) rs q = Some t"
    "reserves (?T \<inter> {..<unat (frame_count q)}) q t"
    using Cons.IH by blast
  have "pages_touched (unat b) (unat l) \<inter> {..<unat (frame_count p)} \<union>
      ?T \<inter> {..<unat (frame_count q)} =
      (\<Union>(b, l) \<in> set (r # rs). pages_touched (unat b) (unat l)) \<inter> {..<unat (frame_count p)}"
    unfolding fc r by auto
  with q t reserves_trans [OF q(2) t(2)] show ?case by (simp add: r)
qed

lemma boot_regions_reserved:
  assumes "bi_e820_entry_count boot \<le> 4096" and "bi_e820_entry_size boot \<le> 64"
  shows "(\<Union>(b, l) \<in> set (boot_regions boot bp bs). pages_touched (unat b) (unat l)) =
           boot_reserved boot bp bs"
proof -
  have "unat (bi_e820_entry_count boot) \<le> 4096" "unat (bi_e820_entry_size boot) \<le> 64"
    using assms by (simp_all add: word_le_nat_alt)
  then have "unat (bi_e820_entry_count boot) * unat (bi_e820_entry_size boot) \<le> 4096 * 64"
    by (rule mult_le_mono)
  then have "unat (ucast (bi_e820_entry_count boot) * ucast (bi_e820_entry_size boot) :: u64) =
      unat (bi_e820_entry_count boot) * unat (bi_e820_entry_size boot)"
    by (simp add: unat_word_ariths unat_ucast_up)
  moreover have "unat (ucast (bi_size boot) :: u64) = unat (bi_size boot)"
    by (simp add: unat_ucast_up)
  ultimately show ?thesis
    by (simp add: boot_regions_def boot_reserved_def Un_assoc)
qed

section \<open>The runtime checker\<close>

lemma check_invariants_loop:
  assumes lay: "pmm_layout p" and "\<forall>f \<in> set fs. unat f < unat (frame_count p)"
  shows "loop_list (check_invariants_step p) fs c =
     Some (if \<exists>f \<in> set fs. unat f \<in> reserved_frames p - allocated_frames p then Inl ()
           else Inr (c + of_nat (length (filter (\<lambda>f. unat f \<notin> allocated_frames p) fs))))"
  using assms(2)
proof (induction fs arbitrary: c)
  case (Cons f fs)
  then have f: "unat f < unat (frame_count p)" by simp
  have step: "check_invariants_step p f c =
      Some (if unat f \<in> reserved_frames p - allocated_frames p then Inl ()
            else Inr (if unat f \<notin> allocated_frames p then c + 1 else c))"
    by (simp add: check_invariants_step_def get_allocated [OF lay f] get_reserved [OF lay f])
  show ?case
    using Cons by (auto simp: step algebra_simps)
qed simp

lemma length_filter_u64_upt:
  "length (filter (\<lambda>f. P (unat f)) (u64_upt 0 n)) = card {k. k < unat n \<and> P k}"
proof -
  have "length (filter (\<lambda>f. P (unat f)) (u64_upt 0 n)) = length (filter P [0..<unat n])"
    using map_unat_u64_upt [of n]
    by (metis (mono_tags, lifting) filter_map length_map comp_def filter_cong)
  also have "\<dots> = card (set (filter P [0..<unat n]))"
    by (rule distinct_card [symmetric]) simp
  also have "set (filter P [0..<unat n]) = {k. k < unat n \<and> P k}" by auto
  finally show ?thesis .
qed

lemma check_invariants_iff:
  assumes lay: "pmm_layout p" and "lock p = 0"
  shows "ns_pmm_check_invariants p =
           Some (if pmm_counts p then NS_PMM_OK else NS_PMM_ECORRUPT, p)"
proof -
  let ?q = "p\<lparr>lock := 1\<rparr>" and ?fs = "u64_upt 0 (frame_count p)"
  have layq: "pmm_layout ?q" using lay by (simp add: pmm_layout_def)
  have sets: "allocated_frames ?q = allocated_frames p" "reserved_frames ?q = reserved_frames p"
    by (simp_all add: allocated_frames_def reserved_frames_def)
  have "{k. k < unat (frame_count p) \<and> k \<notin> allocated_frames p} = free_set p"
    by (auto simp: free_set_def)
  then have count: "length (filter (\<lambda>f. unat f \<notin> allocated_frames p) ?fs) = card (free_set p)"
    using length_filter_u64_upt [of "\<lambda>k. k \<notin> allocated_frames p" "frame_count p"] by simp
  have loop: "for_u64 0 (frame_count p) 1 (check_invariants_step ?q) 0 =
      Some (if \<exists>f \<in> set ?fs. unat f \<in> reserved_frames p - allocated_frames p then Inl ()
            else Inr (of_nat (card (free_set p))))"
    unfolding for_u64_step1
    by (subst check_invariants_loop [OF layq])
      (simp_all add: sets in_u64_upt word_less_nat_alt count)
  have "(\<exists>f \<in> set ?fs. unat f \<in> reserved_frames p - allocated_frames p) \<longleftrightarrow>
      \<not> reserved_frames p \<subseteq> allocated_frames p"
  proof -
    have "(\<exists>f \<in> set ?fs. unat f \<in> reserved_frames p - allocated_frames p) \<longleftrightarrow>
        (reserved_frames p - allocated_frames p) \<inter> unat ` set ?fs \<noteq> {}" by blast
    also have "unat ` set ?fs = {0..<unat (frame_count p)}" by (simp add: unat_image_u64_upt)
    also have "(reserved_frames p - allocated_frames p) \<inter> {0..<unat (frame_count p)} =
        reserved_frames p - allocated_frames p"
      by (auto simp: frames_less(2))
    finally show ?thesis by blast
  qed
  moreover have "of_nat (card (free_set p)) = free_frames p \<longleftrightarrow> unat (free_frames p) = card (free_set p)"
  proof -
    have "card (free_set p) \<le> card {..<unat (frame_count p)}"
      by (rule card_mono) (auto simp: free_set_def)
    then have "card (free_set p) < 2 ^ 64" using frame_count_bound [OF lay] by simp
    then have "unat (of_nat (card (free_set p)) :: u64) = card (free_set p)"
      by (simp add: unat_of_nat take_bit_nat_eq_self)
    then show ?thesis by (simp add: word_unat_eq_iff eq_commute)
  qed
  moreover have "frame_count p \<noteq> 0" "bytes_per_bitmap p = drop_bit 3 (frame_count p + 7)"
    using lay by (simp_all add: pmm_layout_def)
  moreover have "p\<lparr>lock := 0\<rparr> = p" using assms(2) by simp
  ultimately show ?thesis
    by (simp add: ns_pmm_check_invariants_def pmm_lock_def assms(2) loop pmm_unlock_def pmm_counts_def)
qed

lemma discover_limit_pages:
  "unat (discover_limit boot entries) mod 4096 = 0"
  by (simp add: discover_limit_def Let_def unat_align_up)

lemma validate_bounds:
  assumes "ns_boot_info_validate boot = NS_PMM_OK"
  shows "bi_e820_entry_count boot \<le> 4096" and "bi_e820_entry_size boot \<le> 64"
  using assms by (auto simp: ns_boot_info_validate_def split: if_splits prod.splits)

lemma frame_bit_ones: "f div 8 < n \<Longrightarrow> frame_bit (replicate n 0xff) f"
proof -
  have "(0xff::u8) = mask 8" by (simp add: mask_eq_exp_minus_1)
  then have "bit (0xff::u8) (f mod 8)" by (simp only: bit_mask_iff) simp
  then show "f div 8 < n \<Longrightarrow> ?thesis" by (simp add: frame_bit_def)
qed

lemma init_layout:
  fixes limit :: u64
  defines "frames \<equiv> drop_bit NS_PAGE_SHIFT limit"
  defines "bytes \<equiv> drop_bit 3 (frames + 7)"
  assumes "unat limit mod 4096 = 0" and "frames \<noteq> 0"
    and p: "p = \<lparr>allocated_bitmap = replicate (unat bytes) 0xff,
                 reserved_bitmap = replicate (unat bytes) 0xff,
                 bytes_per_bitmap = bytes, frame_count = frames, usable_frames = 0,
                 free_frames = 0, next_hint = 0, managed_limit = limit, lock = 0,
                 initialized = 0\<rparr>"
  shows "pmm_core p" and "allocated_frames p = {..<unat frames}"
    and "reserved_frames p = {..<unat frames}"
proof -
  have "unat limit = unat frames * 4096"
    using assms(3) by (auto simp: frames_def unat_div_pow)
  then have lay: "pmm_layout p"
    using assms(4) by (simp add: p pmm_layout_def bytes_def)
  have fits: "f div 8 < unat bytes" if "f < unat frames" for f
    using layout_fits(1) [OF lay] that by (simp add: p)
  show al: "allocated_frames p = {..<unat frames}"
    using fits by (auto simp: allocated_frames_def bitmap_frames_def p frame_bit_ones)
  show re: "reserved_frames p = {..<unat frames}"
    using fits by (auto simp: reserved_frames_def bitmap_frames_def p frame_bit_ones)
  have "free_set p = {}" by (simp add: free_set_def al) (simp add: p)
  with lay al re show "pmm_core p"
    by (simp add: pmm_core_def pmm_counts_def) (simp add: p)
qed

lemma required_frames:
  "ns_pmm_storage_required boot entries \<noteq> 0 \<Longrightarrow>
   drop_bit NS_PAGE_SHIFT (discover_limit boot entries) \<noteq> 0"
  by (auto simp: ns_pmm_storage_required_def Let_def split: if_splits)

text \<open>The three passes over the fresh manager, and the frames they leave allocated.\<close>

lemma init_passes:
  assumes core: "pmm_core p" and al: "allocated_frames p = {..<unat (frame_count p)}"
    and agree: "reserved_frames p = allocated_frames p"
    and ok: "ns_boot_info_validate boot = NS_PMM_OK"
  defines "is \<equiv> [0..<unat (bi_e820_entry_count boot)]"
  shows "\<exists>q r t. foldM (expose_entry boot entries (managed_limit p)) is p = Some q \<and>
           foldM (reserve_entry boot entries) is q = Some r \<and>
           reserve_boot_regions boot bp bs r = Some t \<and>
           pmm_core t \<and> same_header p t \<and> reserved_frames t = allocated_frames t \<and>
           free_set t = (usable_pages boot entries - firmware_reserved boot entries -
             boot_reserved boot bp bs) \<inter> {..<unat (frame_count p)}"
proof -
  let ?F = "{..<unat (frame_count p)}"
  obtain q where q: "foldM (expose_entry boot entries (managed_limit p)) is p = Some q"
    "exposes (usable_pages boot entries \<inter> ?F) p q"
    using expose_entries [OF core agree refl, of boot entries "is"]
    by (auto simp: usable_pages_def atLeast0LessThan is_def)
  then have coreq: "pmm_core q" and fcq: "frame_count q = frame_count p"
    by (auto simp: exposes_def same_header_def)
  obtain r where r: "foldM (reserve_entry boot entries) is q = Some r"
    "reserves (firmware_reserved boot entries \<inter> ?F) q r"
    using reserve_entries [OF coreq, of boot entries "is"] fcq
    by (auto simp: firmware_reserved_def atLeast0LessThan is_def)
  then have corer: "pmm_core r" and fcr: "frame_count r = frame_count p"
    by (auto simp: reserves_def same_header_def fcq)
  obtain t where t: "reserve_boot_regions boot bp bs r = Some t"
    "reserves (boot_reserved boot bp bs \<inter> ?F) r t"
    using reserve_regions [OF corer, of "boot_regions boot bp bs"] fcr
    by (auto simp: reserve_boot_regions_foldM boot_regions_reserved [OF validate_bounds [OF ok]])
  have hdr: "same_header p t" "reserved_frames t = allocated_frames t" "pmm_core t"
    using q r t by (auto simp: exposes_def reserves_def same_header_def)
  have alt: "allocated_frames t = ?F - usable_pages boot entries \<inter> ?F \<union>
      firmware_reserved boot entries \<inter> ?F \<union> boot_reserved boot bp bs \<inter> ?F"
    using q(2) r(2) t(2) al by (auto simp: exposes_def reserves_def)
  have "free_set t = (usable_pages boot entries - firmware_reserved boot entries -
      boot_reserved boot bp bs) \<inter> ?F"
    using hdr(1) unfolding free_set_def alt by (auto simp: same_header_def)
  with q r t hdr show ?thesis by blast
qed

text \<open>
  \<open>ns_pmm_init\<close> always returns. Past its two guards it succeeds, establishes the invariant, and the
  frames it leaves free are those a usable firmware range covers entirely and no reserved
  firmware range and no boot region touches.
\<close>

lemma init_correct:
  assumes ok: "ns_boot_info_validate boot = NS_PMM_OK" and "page_offset bitmap_phys = 0"
    and req: "required = ns_pmm_storage_required boot entries"
    and "required \<noteq> 0" and "required \<le> bitmap_storage_size"
  shows "\<exists>q. ns_pmm_init p boot entries bitmap_phys bitmap_storage_size = Some (NS_PMM_OK, q) \<and>
           pmm_inv q \<and> reserved_frames q = allocated_frames q \<and>
           frame_count q = drop_bit NS_PAGE_SHIFT (discover_limit boot entries) \<and>
           free_set q = (usable_pages boot entries - firmware_reserved boot entries -
             boot_reserved boot bitmap_phys required) \<inter> {..<unat (frame_count q)}"
proof -
  define limit where "limit = discover_limit boot entries"
  define frames where "frames = drop_bit NS_PAGE_SHIFT limit"
  define bytes where "bytes = drop_bit 3 (frames + 7)"
  define p0 where "p0 = \<lparr>allocated_bitmap = replicate (unat bytes) 0xff,
                 reserved_bitmap = replicate (unat bytes) 0xff,
                 bytes_per_bitmap = bytes, frame_count = frames, usable_frames = 0,
                 free_frames = 0, next_hint = 0, managed_limit = limit, lock = 0,
                 initialized = 0\<rparr>"
  have nz: "frames \<noteq> 0" using required_frames assms(3,4) by (simp add: frames_def limit_def)
  have hdr0: "frame_count p0 = frames" "managed_limit p0 = limit" "lock p0 = 0"
    by (simp_all add: p0_def)
  have core0: "pmm_core p0" "allocated_frames p0 = {..<unat (frame_count p0)}"
    "reserved_frames p0 = allocated_frames p0"
    using init_layout [of limit p0] discover_limit_pages [of boot entries] nz
    by (auto simp: p0_def bytes_def frames_def limit_def)
  obtain p1 p2 t where passes: "foldM (expose_entry boot entries limit)
        [0..<unat (bi_e820_entry_count boot)] p0 = Some p1"
      "foldM (reserve_entry boot entries) [0..<unat (bi_e820_entry_count boot)] p1 = Some p2"
      "reserve_boot_regions boot bitmap_phys required p2 = Some t"
    and t: "pmm_core t" "same_header p0 t" "reserved_frames t = allocated_frames t"
      "free_set t = (usable_pages boot entries - firmware_reserved boot entries -
        boot_reserved boot bitmap_phys required) \<inter> {..<unat (frame_count p0)}"
    using init_passes [OF core0 ok] hdr0(2) by blast
  define q where "q = t\<lparr>next_hint := (if 256 \<ge> frames then 0 else 256), initialized := 1\<rparr>"
  have hdr: "frame_count t = frames" "lock t = 0" using t(2) hdr0 by (auto simp: same_header_def)
  have fcq: "frame_count q = frames" using hdr by (simp add: q_def)
  have sets: "allocated_frames q = allocated_frames t" "reserved_frames q = reserved_frames t"
    "free_set q = free_set t"
    by (simp_all add: q_def allocated_frames_def reserved_frames_def free_set_def)
  have coreq: "pmm_core q"
    using t(1) by (simp add: pmm_core_def pmm_layout_def pmm_counts_def sets) (simp add: q_def)
  have inv: "pmm_inv q"
    using coreq hdr nz by (simp add: pmm_inv_def) (simp add: q_def not_le word_greater_zero_iff)
  have "ns_pmm_check_invariants q = Some (NS_PMM_OK, q)"
    using check_invariants_iff [of q] coreq hdr by (simp add: pmm_core_def q_def)
  then have "ns_pmm_init p boot entries bitmap_phys bitmap_storage_size = Some (NS_PMM_OK, q)"
    using assms passes
    by (simp add: ns_pmm_init_def Let_def limit_def [symmetric] frames_def [symmetric]
        bytes_def [symmetric] p0_def [symmetric] hdr q_def not_le [symmetric])
  then show ?thesis
    using inv t hdr0 fcq by (intro exI [of _ q]) (simp add: sets frames_def limit_def)
qed

end
