(* ===== verification/Pmm_Alloc.thy ===== *)
theory Pmm_Alloc
  imports Pmm_Frames
begin

text \<open>
  The allocator proper of \<open>kernel/mm/pmm.c\<close>: the search for a run of free frames returns and finds
  the first aligned run of its window; allocation, freeing and reservation change the frame sets
  exactly as their contracts say and keep the invariant; any history of calls keeps the handed-out
  runs apart. The properties of the physical memory manager close the theory.
\<close>

section \<open>Searching for a run\<close>

definition is_run :: "ns_pmm \<Rightarrow> nat \<Rightarrow> nat \<Rightarrow> bool" where
  "is_run p f n \<longleftrightarrow> {f..<f + n} \<subseteq> free_set p"

definition pow2 :: "u64 \<Rightarrow> bool" where
  "pow2 a \<longleftrightarrow> a \<noteq> 0 \<and> a AND (a - 1) = 0"

lemma align_frame_props:
  assumes "pow2 a"
  shows "unat f \<le> unat (align_frame f a)"
    and "unat (align_frame f a) < 2 ^ 52 \<Longrightarrow> unat a dvd unat (align_frame f a)"
    and "unat f \<le> g \<Longrightarrow> unat a dvd g \<Longrightarrow> g < 2 ^ 52 \<Longrightarrow> unat (align_frame f a) \<le> g"
proof -
  obtain k where k: "unat a = 2 ^ k" "k < 64" "a - 1 = mask k"
    using assms word_pow2 [of a] by (auto simp: pow2_def)
  have mk: "unat (a - 1) = 2 ^ k - 1"
    using assms k(1) by (simp add: pow2_def unat_minus_one)
  have le: "(2::nat) ^ k \<le> 2 ^ 63" using k(2) by (intro power_increasing) auto
  have max: "unat (UINT64_MAX - (a - 1)) = 2 ^ 64 - 2 ^ k"
    by (subst unat_sub) (use mk le in \<open>simp_all add: word_le_nat_alt\<close>)
  show "unat f \<le> unat (align_frame f a)"
    and "unat (align_frame f a) < 2 ^ 52 \<Longrightarrow> unat a dvd unat (align_frame f a)"
    and "unat f \<le> g \<Longrightarrow> unat a dvd g \<Longrightarrow> g < 2 ^ 52 \<Longrightarrow> unat (align_frame f a) \<le> g"
  proof (atomize (full), cases "unat f > 2 ^ 64 - 2 ^ k")
    case True
    then have r: "align_frame f a = UINT64_MAX"
      using max by (simp add: align_frame_def word_less_nat_alt)
    have "\<not> unat f \<le> g" if d: "unat a dvd g" "g < 2 ^ 52"
    proof
      assume "unat f \<le> g"
      obtain m where m: "g = 2 ^ k * m" using d(1) k(1) by (auto elim: dvdE)
      have two: "(2::nat) ^ 64 = 2 ^ k * 2 ^ (64 - k)" using k(2) by (simp flip: power_add)
      have "2 ^ k * m < 2 ^ k * 2 ^ (64 - k)" using d(2) m by (simp flip: two)
      then have "m < 2 ^ (64 - k)" by simp
      then have "2 ^ k * Suc m \<le> 2 ^ k * 2 ^ (64 - k)" by (intro mult_le_mono) auto
      then have "g + 2 ^ k \<le> 2 ^ 64" using m two by simp
      with True \<open>unat f \<le> g\<close> show False by linarith
    qed
    then show "unat f \<le> unat (align_frame f a) \<and>
      (unat (align_frame f a) < 2 ^ 52 \<longrightarrow> unat a dvd unat (align_frame f a)) \<and>
      (unat f \<le> g \<longrightarrow> unat a dvd g \<longrightarrow> g < 2 ^ 52 \<longrightarrow> unat (align_frame f a) \<le> g)"
      using u64_less [of f] by (auto simp: r)
  next
    case False
    have "unat (f + (a - 1)) = unat f + (2 ^ k - 1)"
      using False le mk by (simp add: unat_word_ariths)
    then have r: "unat (align_frame f a) = (unat f + (2 ^ k - 1)) div 2 ^ k * 2 ^ k"
      using False max k(3) by (simp add: align_frame_def Let_def word_less_nat_alt unat_and_not_mask)
    have "unat f \<le> (unat f + (2 ^ k - 1)) div 2 ^ k * 2 ^ k"
    proof -
      have "unat f + (2 ^ k - 1) = (unat f + (2 ^ k - 1)) div 2 ^ k * 2 ^ k + (unat f + (2 ^ k - 1)) mod 2 ^ k"
        by (rule div_mult_mod_eq [symmetric])
      moreover have "(unat f + (2 ^ k - 1)) mod 2 ^ k \<le> 2 ^ k - (1::nat)"
        by (metis One_nat_def Suc_pred mod_less_divisor less_Suc_eq_le zero_less_numeral zero_less_power)
      ultimately show ?thesis by linarith
    qed
    moreover have "(unat f + (2 ^ k - 1)) div 2 ^ k * 2 ^ k \<le> g" if d: "unat f \<le> g" "2 ^ k dvd g"
    proof -
      obtain m where m: "g = 2 ^ k * m" using d(2) by (auto elim: dvdE)
      have "(unat f + (2 ^ k - 1)) div 2 ^ k \<le> (2 ^ k * m + (2 ^ k - 1)) div 2 ^ k"
        using d(1) m by (intro div_le_mono) simp
      also have "\<dots> = m" by (subst div_mult_self4) (simp_all add: div_eq_0_iff)
      finally show ?thesis by (simp add: m mult.commute)
    qed
    ultimately show "unat f \<le> unat (align_frame f a) \<and>
      (unat (align_frame f a) < 2 ^ 52 \<longrightarrow> unat a dvd unat (align_frame f a)) \<and>
      (unat f \<le> g \<longrightarrow> unat a dvd g \<longrightarrow> g < 2 ^ 52 \<longrightarrow> unat (align_frame f a) \<le> g)"
      by (simp add: r k(1))
  qed
qed

lemma span_is_free_eq:
  assumes lay: "pmm_layout p" and lim: "unat limit \<le> unat (frame_count p)"
  shows "span_is_free p first count limit =
    Some (unat first + unat count \<le> unat limit \<and> is_run p (unat first) (unat count))"
proof (cases "first > limit \<or> count > limit - first")
  case True
  then have "\<not> unat first + unat count \<le> unat limit"
    by (auto simp: word_less_nat_alt unat_sub not_less word_le_nat_alt)
  with True show ?thesis by (simp add: span_is_free_def)
next
  case False
  then have sum: "unat first + unat count \<le> unat limit"
    by (auto simp: word_less_nat_alt unat_sub not_less word_le_nat_alt)
  let ?body = "\<lambda>i s. do { a \<leftarrow> bitmap_get (allocated_bitmap p) (first + i);
                         Some (if a then Inl () else Inr s) }"
  let ?t = "\<lambda>i. if unat first + unat i \<in> allocated_frames p then Some () else None"
  let ?is = "u64_upt 0 count"
  have idx: "unat (first + i) = unat first + unat i" "unat first + unat i < unat (frame_count p)"
    if "i \<in> set ?is" for i
    using that sum lim u64_less [of limit]
    by (auto simp: in_u64_upt word_less_nat_alt unat_word_ariths)
  define found where "found = List.find (\<lambda>i. ?t i \<noteq> None) ?is"
  have "for_u64 0 count 1 ?body () =
      (case found of None \<Rightarrow> Some (Inr ()) | Some i \<Rightarrow> Some (Inl (the (?t i))))"
    unfolding for_u64_step1 found_def
    by (rule loop_list_test) (auto simp: idx get_allocated [OF lay])
  moreover have "found = None \<longleftrightarrow> is_run p (unat first) (unat count)"
  proof -
    have "is_run p (unat first) (unat count) \<longleftrightarrow>
        (\<forall>k \<in> {0..<unat count}. unat first + k \<notin> allocated_frames p)"
      using sum lim by (fastforce simp: is_run_def free_set_def subset_iff dest: le_Suc_ex)
    also have "\<dots> \<longleftrightarrow> (\<forall>i \<in> set ?is. unat first + unat i \<notin> allocated_frames p)"
      using unat_image_u64_upt [of 0 count] by (metis (no_types, lifting) image_iff unsigned_0)
    finally show ?thesis by (auto simp: found_def find_None_iff)
  qed
  ultimately show ?thesis
    using False sum by (cases found) (simp_all add: span_is_free_def)
qed

lemma occupied_skip_eq:
  assumes lay: "pmm_layout p" and sum: "unat frame + unat count \<le> unat (frame_count p)"
    and occ: "\<not> is_run p (unat frame) (unat count)"
  shows "\<exists>s. occupied_skip p frame count = Some s \<and> 1 \<le> unat s \<and> unat s \<le> unat count \<and>
           unat frame + unat s - 1 \<in> allocated_frames p"
proof -
  let ?body = "\<lambda>i s. do { a \<leftarrow> bitmap_get (allocated_bitmap p) (frame + i);
                         Some (if a then Inl (i + 1) else Inr s) }"
  let ?t = "\<lambda>i. if unat frame + unat i \<in> allocated_frames p then Some (i + 1) else None"
  let ?is = "u64_upt 0 count"
  have idx: "unat (frame + i) = unat frame + unat i" "unat frame + unat i < unat (frame_count p)"
    "unat (i + 1) = unat i + 1" "unat i < unat count"
    if "i \<in> set ?is" for i
    using that sum u64_less [of "frame_count p"] u64_less [of count]
    by (auto simp: in_u64_upt word_less_nat_alt unat_word_ariths)
  define found where "found = List.find (\<lambda>i. ?t i \<noteq> None) ?is"
  have loop: "for_u64 0 count 1 ?body () =
      (case found of None \<Rightarrow> Some (Inr ()) | Some i \<Rightarrow> Some (Inl (the (?t i))))"
    unfolding for_u64_step1 found_def
    by (rule loop_list_test) (auto simp: idx get_allocated [OF lay])
  obtain k where k: "k < unat count" "unat frame + k \<in> allocated_frames p"
    using occ sum by (fastforce simp: is_run_def free_set_def subset_iff dest: le_Suc_ex)
  then have "\<exists>i \<in> set ?is. unat frame + unat i \<in> allocated_frames p"
    using unat_image_u64_upt [of 0 count]
    by (metis (no_types, lifting) atLeastLessThan_iff image_iff unsigned_0 zero_le)
  then have "found \<noteq> None" by (auto simp: found_def find_None_iff)
  then obtain i where i: "found = Some i" by blast
  then have "i \<in> set ?is" "unat frame + unat i \<in> allocated_frames p"
    by (auto simp: found_def find_Some_iff in_set_conv_nth split: if_splits)
  with i idx [of i] show ?thesis by (simp add: occupied_skip_def loop Suc_le_eq)
qed

text \<open>
  The search from an aligned frame returns the first aligned free run at or after it, and
  reports failure only when there is none. In particular it always returns.
\<close>

lemma find_run_loop_correct:
  assumes lay: "pmm_layout p" and lim: "unat stop \<le> unat (frame_count p)"
    and a: "pow2 a" and pos: "0 < unat count"
  shows "(unat frame < 2 ^ 52 \<Longrightarrow> unat a dvd unat frame) \<Longrightarrow>
    \<exists>r. find_run_loop p frame stop count a = Some r \<and>
      (case r of
         Some f \<Rightarrow> unat frame \<le> unat f \<and> unat a dvd unat f \<and> unat f + unat count \<le> unat stop \<and>
           is_run p (unat f) (unat count)
       | None \<Rightarrow> \<forall>g. unat frame \<le> g \<longrightarrow> unat a dvd g \<longrightarrow> g + unat count \<le> unat stop \<longrightarrow>
           \<not> is_run p g (unat count))"
proof (induction "unat stop - unat frame" arbitrary: frame rule: less_induct)
  case less
  have fc: "unat (frame_count p) < 2 ^ 52" by (rule frame_count_bound [OF lay])
  show ?case
  proof (cases "frame < stop \<and> count \<le> stop - frame")
    case False
    then have "\<not> unat frame + unat count \<le> unat stop"
      using pos by (cases "frame < stop") (auto simp: word_less_nat_alt word_le_nat_alt unat_sub)
    with False show ?thesis by (subst find_run_loop.simps) auto
  next
    case True
    then have sum: "unat frame + unat count \<le> unat stop" and lt: "unat frame < unat stop"
      by (auto simp: word_less_nat_alt word_le_nat_alt unat_sub)
    have span: "span_is_free p frame count stop = Some (is_run p (unat frame) (unat count))"
      using span_is_free_eq [OF lay lim] sum by simp
    show ?thesis
    proof (cases "is_run p (unat frame) (unat count)")
      case free: True
      have "unat a dvd unat frame" using less.prems lt lim fc by simp
      with free True sum span show ?thesis by (subst find_run_loop.simps) simp
    next
      case occ: False
      obtain s where s: "occupied_skip p frame count = Some s" "1 \<le> unat s" "unat s \<le> unat count"
        "unat frame + unat s - 1 \<in> allocated_frames p"
        using occupied_skip_eq [OF lay _ occ] sum lim by auto
      define next_frame where "next_frame = align_frame (frame + s) a"
      have fs: "unat (frame + s) = unat frame + unat s"
        using s(3) sum lim fc by (simp add: unat_word_ariths)
      have adv: "unat frame + unat s \<le> unat next_frame"
        using align_frame_props(1) [OF a, of "frame + s"] fs by (simp add: next_frame_def)
      have unfold: "find_run_loop p frame stop count a = find_run_loop p next_frame stop count a"
        using True occ by (subst find_run_loop.simps) (simp add: span s next_frame_def)
      obtain r where r: "find_run_loop p next_frame stop count a = Some r"
        "case r of
           Some f \<Rightarrow> unat next_frame \<le> unat f \<and> unat a dvd unat f \<and>
             unat f + unat count \<le> unat stop \<and> is_run p (unat f) (unat count)
         | None \<Rightarrow> \<forall>g. unat next_frame \<le> g \<longrightarrow> unat a dvd g \<longrightarrow> g + unat count \<le> unat stop \<longrightarrow>
             \<not> is_run p g (unat count)"
        using adv s(2) lt align_frame_props(2) [OF a, of "frame + s"]
        by (atomize_elim, intro less.hyps) (auto simp: next_frame_def)
      have skip: "unat next_frame \<le> g"
        if "unat frame \<le> g" "unat a dvd g" "g + unat count \<le> unat stop" "is_run p g (unat count)" for g
      proof -
        have "\<not> (g \<le> unat frame + unat s - 1 \<and> unat frame + unat s - 1 < g + unat count)"
          using that(4) s(4) by (auto simp: is_run_def free_set_def)
        then have "unat (frame + s) \<le> g" using that(1) s(2,3) fs by linarith
        with that lim fc show ?thesis
          unfolding next_frame_def by (intro align_frame_props(3) [OF a]) auto
      qed
      show ?thesis
      proof (intro exI conjI)
        show "find_run_loop p frame stop count a = Some r" using r(1) unfold by simp
        show "case r of
         Some f \<Rightarrow> unat frame \<le> unat f \<and> unat a dvd unat f \<and> unat f + unat count \<le> unat stop \<and>
           is_run p (unat f) (unat count)
       | None \<Rightarrow> \<forall>g. unat frame \<le> g \<longrightarrow> unat a dvd g \<longrightarrow> g + unat count \<le> unat stop \<longrightarrow>
           \<not> is_run p g (unat count)"
          using r(2) skip adv by (cases r) auto
      qed
    qed
  qed
qed

lemma frames_update [simp]:
  "allocated_frames (p\<lparr>lock := x\<rparr>) = allocated_frames p"
  "reserved_frames (p\<lparr>lock := x\<rparr>) = reserved_frames p"
  "free_set (p\<lparr>lock := x\<rparr>) = free_set p"
  "pmm_layout (p\<lparr>lock := x\<rparr>) = pmm_layout p"
  "pmm_core (p\<lparr>lock := x\<rparr>) = pmm_core p"
  by (simp_all add: allocated_frames_def reserved_frames_def free_set_def pmm_layout_def
      pmm_core_def pmm_counts_def)

lemma relock: "lock p = 0 \<Longrightarrow> p\<lparr>lock := 0\<rparr> = p"
  by (cases p) simp

section \<open>Allocation\<close>

text \<open>
  The frames an allocation may use end at the caller's bound, and \<open>aligned_run\<close> says that
  \<open>n\<close> free frames start at the aligned frame \<open>f\<close> and end by \<open>limit\<close>.
\<close>

definition search_limit :: "ns_pmm \<Rightarrow> u64 \<Rightarrow> nat" where
  "search_limit p bound =
     (if bound = 0 then unat (frame_count p) else min (unat bound div 4096) (unat (frame_count p)))"

definition search_hint :: "ns_pmm \<Rightarrow> u64 \<Rightarrow> nat" where
  "search_hint p bound = (if unat (next_hint p) < search_limit p bound then unat (next_hint p) else 0)"

definition aligned_run :: "ns_pmm \<Rightarrow> nat \<Rightarrow> nat \<Rightarrow> nat \<Rightarrow> nat \<Rightarrow> bool" where
  "aligned_run p f n a limit \<longleftrightarrow> a dvd f \<and> f + n \<le> limit \<and> is_run p f n"

text \<open>The relation between the states around an allocation of \<open>n\<close> frames at \<open>f\<close>.\<close>

definition takes :: "nat set \<Rightarrow> ns_pmm \<Rightarrow> ns_pmm \<Rightarrow> bool" where
  "takes F p q \<longleftrightarrow>
     F \<subseteq> free_set p \<and> allocated_frames q = allocated_frames p \<union> F \<and>
     reserved_frames q = reserved_frames p \<and> frame_count q = frame_count p \<and>
     managed_limit q = managed_limit p"

lemma find_run_correct:
  assumes "pmm_layout p" and "unat stop \<le> unat (frame_count p)" and "pow2 a" and "0 < unat count"
  shows "\<exists>r. find_run p start stop count a = Some r \<and>
      (case r of
         Some f \<Rightarrow> unat start \<le> unat f \<and> aligned_run p (unat f) (unat count) (unat a) (unat stop)
       | None \<Rightarrow> \<forall>g \<ge> unat start. \<not> aligned_run p g (unat count) (unat a) (unat stop))"
proof -
  obtain r where r: "find_run_loop p (align_frame start a) stop count a = Some r"
    and spec: "case r of
         Some f \<Rightarrow> unat (align_frame start a) \<le> unat f \<and> unat a dvd unat f \<and>
           unat f + unat count \<le> unat stop \<and> is_run p (unat f) (unat count)
       | None \<Rightarrow> \<forall>g. unat (align_frame start a) \<le> g \<longrightarrow> unat a dvd g \<longrightarrow>
           g + unat count \<le> unat stop \<longrightarrow> \<not> is_run p g (unat count)"
    using find_run_loop_correct [OF assms align_frame_props(2) [OF assms(3)]] by blast
  have "unat (align_frame start a) \<le> g" if "unat start \<le> g" "unat a dvd g" "g + unat count \<le> unat stop" for g
    using that assms(2) frame_count_bound [OF assms(1)]
    by (intro align_frame_props(3) [OF assms(3)]) auto
  moreover have "unat start \<le> unat (align_frame start a)"
    by (rule align_frame_props(1) [OF assms(3)])
  ultimately show ?thesis
    using r spec by (cases r) (auto simp: find_run_def aligned_run_def)
qed

lemma run_card:
  assumes "is_run p f n"
  shows "n \<le> card (free_set p)"
  using card_mono [of "free_set p" "{f..<f + n}"] assms by (simp add: is_run_def)

lemma unat_limit:
  "unat (if bound \<noteq> 0 \<and> drop_bit NS_PAGE_SHIFT bound < frame_count p
         then drop_bit NS_PAGE_SHIFT bound else frame_count p) = search_limit p bound"
  by (simp add: search_limit_def word_less_nat_alt unat_div_pow min_def)

lemma take_frames:
  assumes inv: "pmm_inv p" and run: "is_run p (unat f) (unat count)"
    and sum: "unat f + unat count \<le> unat (frame_count p)"
  shows "\<exists>ab. run_u64 0 count 1 (\<lambda>i ab. bitmap_set ab (f + i)) (allocated_bitmap p) = Some ab \<and>
    (\<forall>h < frame_count p. 
      takes {unat f..<unat f + unat count} p
        (p\<lparr>allocated_bitmap := ab, free_frames := free_frames p - count, next_hint := h\<rparr>) \<and>
      pmm_inv (p\<lparr>allocated_bitmap := ab, free_frames := free_frames p - count, next_hint := h\<rparr>))"
proof -
  let ?F = "{unat f..<unat f + unat count}"
  have lay: "pmm_layout p" and cnt: "pmm_counts p" using inv by (simp_all add: pmm_inv_def pmm_core_def)
  obtain ab where ab: "run_u64 0 count 1 (\<lambda>i ab. bitmap_set ab (f + i)) (allocated_bitmap p) = Some ab"
    "length ab = length (allocated_bitmap p)"
    "bitmap_frames ab (unat (frame_count p)) = ?F \<union> allocated_frames p"
    using bset.upd_run [OF sum layout_fits(1) [OF lay]] u64_less [of "frame_count p"]
    by (auto simp: allocated_frames_def)
  have sub: "?F \<subseteq> free_set p" using run by (simp add: is_run_def)
  have "unat (free_frames p - count) = card (free_set p) - unat count"
    using run_card [OF run] cnt by (subst unat_sub) (simp_all add: pmm_counts_def word_le_nat_alt)
  also have "\<dots> = card (free_set p - ?F)"
    using sub by (simp add: card_Diff_subset)
  finally have card: "unat (free_frames p - count) = card (free_set p - ?F)" .
  have "takes ?F p q \<and> pmm_inv q"
    if q: "q = p\<lparr>allocated_bitmap := ab, free_frames := free_frames p - count, next_hint := h\<rparr>"
      and h: "h < frame_count p" for q h
  proof -
    have "allocated_frames q = ?F \<union> allocated_frames p" "reserved_frames q = reserved_frames p"
      using ab(3) by (simp_all add: q allocated_frames_def reserved_frames_def)
    moreover from this have "free_set q = free_set p - ?F" by (auto simp: free_set_def q)
    ultimately show ?thesis
      using sub inv h card ab(2)
      by (auto simp: takes_def pmm_inv_def pmm_core_def pmm_layout_def pmm_counts_def q)
  qed
  with ab(1) show ?thesis by blast
qed

lemma alloc_pages_spec:
  assumes inv: "pmm_inv p" and a: "pow2 a" and pos: "count \<noteq> 0"
  shows "(\<exists>f q. ns_pmm_alloc_pages p count a bound = Some (NS_PMM_OK, Some (push_bit NS_PAGE_SHIFT f), q) \<and>
            pmm_inv q \<and> takes {unat f..<unat f + unat count} p q \<and>
            aligned_run p (unat f) (unat count) (unat a) (search_limit p bound)) \<or>
         (ns_pmm_alloc_pages p count a bound = Some (NS_PMM_ENOSPC, Some NS_INVALID_PHYS, p) \<and>
           (\<forall>g. search_hint p bound \<le> g \<or> g + unat count \<le> search_hint p bound \<longrightarrow>
             \<not> aligned_run p g (unat count) (unat a) (search_limit p bound)))"
proof -
  define limit where "limit = (if bound \<noteq> 0 \<and> drop_bit NS_PAGE_SHIFT bound < frame_count p
                       then drop_bit NS_PAGE_SHIFT bound else frame_count p)"
  define hint where "hint = (if next_hint p < limit then next_hint p else 0)"
  have lim: "unat limit = search_limit p bound" by (simp add: limit_def unat_limit)
  have hnt: "unat hint = search_hint p bound"
    by (simp add: hint_def search_hint_def word_less_nat_alt lim)
  have lay: "pmm_layout p" and cnt: "pmm_counts p" and lk: "lock p = 0"
    using inv by (simp_all add: pmm_inv_def pmm_core_def)
  have le: "unat limit \<le> unat (frame_count p)" by (simp add: lim search_limit_def)
  have hl: "unat hint \<le> unat limit"
    by (simp add: hint_def word_less_nat_alt)
  have pos': "0 < unat count" using pos by (simp add: unat_gt_0)
  let ?p = "p\<lparr>lock := 1\<rparr>"
  have layq: "pmm_layout ?p" using lay by simp
  have runq: "is_run ?p g n = is_run p g n" "aligned_run ?p g n k l = aligned_run p g n k l" for g n k l
    by (simp_all add: is_run_def aligned_run_def)
  note find = find_run_correct [OF layq _ a pos', simplified runq]
  have enter: "ns_pmm_alloc_pages p count a bound =
      (if count > free_frames p then Some (NS_PMM_ENOSPC, Some NS_INVALID_PHYS, p)
       else do {
            found \<leftarrow> find_run ?p hint limit count a;
            found \<leftarrow> (if found = None \<and> hint \<noteq> 0 then find_run ?p 0 hint count a else Some found);
            case found of
              None \<Rightarrow> Some (NS_PMM_ENOSPC, Some NS_INVALID_PHYS, p)
            | Some candidate \<Rightarrow> do {
                ab \<leftarrow> run_u64 0 count 1 (\<lambda>i ab. bitmap_set ab (candidate + i)) (allocated_bitmap p);
                Some (NS_PMM_OK, Some (push_bit NS_PAGE_SHIFT candidate),
                  p\<lparr>allocated_bitmap := ab, free_frames := free_frames p - count,
                    next_hint := (if candidate + count \<ge> frame_count p then 0 else candidate + count)\<rparr>)
              }})"
    using inv a pos cnt
    by (simp add: lk relock ns_pmm_alloc_pages_def pmm_inv_def pow2_def pmm_lock_def pmm_unlock_def Let_def
        limit_def hint_def cong: if_cong cong del: bind_weak_cong)
  show ?thesis
  proof (cases "free_frames p < count")
    case True
    then have "\<not> is_run p g (unat count)" for g
      using run_card [of p g "unat count"] cnt by (auto simp: pmm_counts_def word_less_nat_alt)
    with True enter show ?thesis by (simp add: aligned_run_def)
  next
    case False
    obtain r1 where r1: "find_run ?p hint limit count a = Some r1" "case r1 of
         Some f \<Rightarrow> unat hint \<le> unat f \<and> aligned_run p (unat f) (unat count) (unat a) (unat limit)
       | None \<Rightarrow> \<forall>g \<ge> unat hint. \<not> aligned_run p g (unat count) (unat a) (unat limit)"
      using find [of limit hint] le by auto
    obtain r2 where r2: "find_run ?p 0 hint count a = Some r2" "case r2 of
         Some f \<Rightarrow> aligned_run p (unat f) (unat count) (unat a) (unat hint)
       | None \<Rightarrow> \<forall>g. \<not> aligned_run p g (unat count) (unat a) (unat hint)"
      using find [of hint 0] le hl by (fastforce split: option.splits)
    define r where "r = (if r1 = None \<and> hint \<noteq> 0 then r2 else r1)"
    have step: "(if r1 = None \<and> hint \<noteq> 0 then find_run ?p 0 hint count a else Some r1) = Some r"
      using r2 by (simp add: r_def)
    show ?thesis
    proof (cases r)
      case None
      have "\<forall>g. unat hint \<le> g \<or> g + unat count \<le> unat hint \<longrightarrow>
             \<not> aligned_run p g (unat count) (unat a) (unat limit)"
        using None r1(2) r2(2) pos' by (auto simp: r_def aligned_run_def split: if_splits)
      with None False enter step r1(1) show ?thesis by (simp add: lim hnt)
    next
      case (Some f)
      have run: "aligned_run p (unat f) (unat count) (unat a) (unat limit)"
        using Some r1(2) r2(2) hl by (auto simp: r_def aligned_run_def split: if_splits option.splits)
      then have sum: "unat f + unat count \<le> unat (frame_count p)" and isr: "is_run p (unat f) (unat count)"
        using le by (auto simp: aligned_run_def)
      obtain ab where ab: "run_u64 0 count 1 (\<lambda>i ab. bitmap_set ab (f + i)) (allocated_bitmap p) = Some ab"
        and all: "\<forall>h < frame_count p.
          takes {unat f..<unat f + unat count} p
            (p\<lparr>allocated_bitmap := ab, free_frames := free_frames p - count, next_hint := h\<rparr>) \<and>
          pmm_inv (p\<lparr>allocated_bitmap := ab, free_frames := free_frames p - count, next_hint := h\<rparr>)"
        using take_frames [OF inv isr sum] by blast
      let ?h = "if f + count \<ge> frame_count p then 0 else f + count"
      have "?h < frame_count p" using lay by (auto simp: pmm_layout_def word_gt_0)
      with all have fin: "takes {unat f..<unat f + unat count} p
            (p\<lparr>allocated_bitmap := ab, free_frames := free_frames p - count, next_hint := ?h\<rparr>)"
          "pmm_inv (p\<lparr>allocated_bitmap := ab, free_frames := free_frames p - count, next_hint := ?h\<rparr>)"
        by blast+
      have "ns_pmm_alloc_pages p count a bound =
          Some (NS_PMM_OK, Some (push_bit NS_PAGE_SHIFT f),
            p\<lparr>allocated_bitmap := ab, free_frames := free_frames p - count, next_hint := ?h\<rparr>)"
        using False by (simp add: enter r1(1) step Some ab)
      with fin run show ?thesis unfolding lim by blast
    qed
  qed
qed

section \<open>Freeing\<close>

lemma find_map_image: "List.find P (map g xs) = map_option g (List.find (\<lambda>x. P (g x)) xs)"
  by (induction xs) auto

text \<open>What freeing the frames \<open>F\<close> does, and how the offending frame decides the error.\<close>

definition gives_back :: "nat set \<Rightarrow> ns_pmm \<Rightarrow> ns_pmm \<Rightarrow> bool" where
  "gives_back F p q \<longleftrightarrow>
     F \<subseteq> allocated_frames p - reserved_frames p \<and> allocated_frames q = allocated_frames p - F \<and>
     reserved_frames q = reserved_frames p \<and> frame_count q = frame_count p \<and>
     managed_limit q = managed_limit p"

definition free_error :: "ns_pmm \<Rightarrow> nat \<Rightarrow> ns_pmm_error option" where
  "free_error p f =
     (if f \<in> reserved_frames p then Some NS_PMM_EPERM
      else if f \<notin> allocated_frames p then Some NS_PMM_EDOUBLEFREE else None)"

lemma free_check_loop:
  assumes lay: "pmm_layout p" and sum: "unat first + unat count \<le> unat (frame_count p)"
  shows "for_u64 0 count 1 (free_check_step p first) () =
    (case List.find (\<lambda>k. free_error p (unat first + k) \<noteq> None) [0..<unat count] of
       None \<Rightarrow> Some (Inr ()) | Some k \<Rightarrow> Some (Inl (the (free_error p (unat first + k)))))"
proof -
  let ?is = "u64_upt 0 count"
  have idx: "unat (first + i) = unat first + unat i" "unat first + unat i < unat (frame_count p)"
    if "i \<in> set ?is" for i
    using that sum u64_less [of "frame_count p"]
    by (auto simp: in_u64_upt word_less_nat_alt unat_word_ariths)
  have "for_u64 0 count 1 (free_check_step p first) () =
    (case List.find (\<lambda>i. free_error p (unat first + unat i) \<noteq> None) ?is of
       None \<Rightarrow> Some (Inr ()) | Some i \<Rightarrow> Some (Inl (the (free_error p (unat first + unat i)))))"
    unfolding for_u64_step1
    by (rule loop_list_test)
      (auto simp: idx get_allocated [OF lay] get_reserved [OF lay] free_check_step_def free_error_def)
  also have "\<dots> = (case List.find (\<lambda>k. free_error p (unat first + k) \<noteq> None) (map unat ?is) of
       None \<Rightarrow> Some (Inr ()) | Some k \<Rightarrow> Some (Inl (the (free_error p (unat first + k)))))"
    by (simp add: find_map_image split: option.split)
  also have "map unat ?is = [0..<unat count]" by (rule map_unat_u64_upt)
  finally show ?thesis .
qed

lemma give_frames:
  assumes inv: "pmm_inv p" and sub: "{unat f..<unat f + unat count} \<subseteq> allocated_frames p - reserved_frames p"
    and sum: "unat f + unat count \<le> unat (frame_count p)"
  shows "\<exists>ab. run_u64 0 count 1 (\<lambda>i ab. bitmap_clear ab (f + i)) (allocated_bitmap p) = Some ab \<and>
    (\<forall>h < frame_count p.
      gives_back {unat f..<unat f + unat count} p
        (p\<lparr>allocated_bitmap := ab, free_frames := free_frames p + count, next_hint := h\<rparr>) \<and>
      pmm_inv (p\<lparr>allocated_bitmap := ab, free_frames := free_frames p + count, next_hint := h\<rparr>))"
proof -
  let ?F = "{unat f..<unat f + unat count}"
  have lay: "pmm_layout p" and cnt: "pmm_counts p" using inv by (simp_all add: pmm_inv_def pmm_core_def)
  obtain ab where ab: "run_u64 0 count 1 (\<lambda>i ab. bitmap_clear ab (f + i)) (allocated_bitmap p) = Some ab"
    "length ab = length (allocated_bitmap p)"
    "bitmap_frames ab (unat (frame_count p)) = allocated_frames p - ?F"
    using bclear.upd_run [OF sum layout_fits(1) [OF lay]] u64_less [of "frame_count p"]
    by (auto simp: allocated_frames_def)
  have disj: "free_set p \<inter> ?F = {}" using sub by (auto simp: free_set_def)
  have "free_set p \<union> ?F \<subseteq> {..<unat (frame_count p)}" using sum by (auto simp: free_set_def)
  then have "card (free_set p \<union> ?F) \<le> unat (frame_count p)"
    using card_mono [of "{..<unat (frame_count p)}"] by simp
  moreover have un: "card (free_set p \<union> ?F) = card (free_set p) + unat count"
    using disj by (simp add: card_Un_disjoint)
  ultimately have card: "unat (free_frames p + count) = card (free_set p \<union> ?F)"
    using cnt frame_count_bound [OF lay] by (simp add: pmm_counts_def unat_word_ariths)
  have "gives_back ?F p q \<and> pmm_inv q"
    if q: "q = p\<lparr>allocated_bitmap := ab, free_frames := free_frames p + count, next_hint := h\<rparr>"
      and h: "h < frame_count p" for q h
  proof -
    have "allocated_frames q = allocated_frames p - ?F" "reserved_frames q = reserved_frames p"
      using ab(3) by (simp_all add: q allocated_frames_def reserved_frames_def)
    moreover from this have "free_set q = free_set p \<union> ?F" using sum by (auto simp: free_set_def q)
    ultimately show ?thesis
      using sub inv h card ab(2)
      by (auto simp: gives_back_def pmm_inv_def pmm_core_def pmm_layout_def pmm_counts_def q)
  qed
  with ab(1) show ?thesis by blast
qed

lemma page_frame: "page_offset phys = 0 \<Longrightarrow> unat phys = unat (drop_bit NS_PAGE_SHIFT phys) * 4096"
  by (auto simp: page_offset_zero unat_div_pow)

lemma free_pages_spec:
  assumes inv: "pmm_inv p" and page: "page_offset phys = 0" and pos: "count \<noteq> 0"
    and f: "f = drop_bit NS_PAGE_SHIFT phys" and sum: "unat f + unat count \<le> unat (frame_count p)"
  shows "case List.find (\<lambda>k. free_error p (unat f + k) \<noteq> None) [0..<unat count] of
      None \<Rightarrow> \<exists>q. ns_pmm_free_pages p phys count = Some (NS_PMM_OK, q) \<and> pmm_inv q \<and>
        gives_back {unat f..<unat f + unat count} p q
    | Some k \<Rightarrow> ns_pmm_free_pages p phys count = Some (the (free_error p (unat f + k)), p)"
proof -
  let ?p = "p\<lparr>lock := 1\<rparr>" and ?found = "List.find (\<lambda>k. free_error p (unat f + k) \<noteq> None) [0..<unat count]"
  have lay: "pmm_layout p" and lk: "lock p = 0" and hint: "next_hint p < frame_count p"
    using inv by (simp_all add: pmm_inv_def pmm_core_def)
  have err: "free_error ?p = free_error p" by (rule ext) (simp add: free_error_def)
  have "\<not> (f \<ge> frame_count p \<or> count > frame_count p - f)"
    using sum pos by (auto simp: word_le_nat_alt word_less_nat_alt unat_sub unat_gt_0 [symmetric])
  then have guards: "\<not> (initialized p = 0 \<or> count = 0 \<or> page_offset phys \<noteq> 0)"
    "\<not> (frame_count p \<le> f \<or> frame_count p - f < count)"
    using inv pos page by (simp_all add: pmm_inv_def)
  have loop: "for_u64 0 count 1 (free_check_step ?p f) () =
    (case ?found of None \<Rightarrow> Some (Inr ()) | Some k \<Rightarrow> Some (Inl (the (free_error p (unat f + k)))))"
    using free_check_loop [of ?p f count] lay sum unfolding err by simp
  show ?thesis
  proof (cases ?found)
    case (Some k)
    with guards loop show ?thesis
      by (simp add: ns_pmm_free_pages_def f [symmetric] pmm_lock_def pmm_unlock_def lk relock)
  next
    case None
    then have "\<forall>k < unat count. unat f + k \<in> allocated_frames p - reserved_frames p"
      by (auto simp: find_None_iff free_error_def split: if_splits)
    then have sub: "{unat f..<unat f + unat count} \<subseteq> allocated_frames p - reserved_frames p"
      by (auto dest!: le_Suc_ex)
    define h where "h = (if f < next_hint p then f else next_hint p)"
    have h: "h < frame_count p" using hint by (auto simp: h_def)
    obtain ab where ab: "run_u64 0 count 1 (\<lambda>i ab. bitmap_clear ab (f + i)) (allocated_bitmap p) = Some ab"
      and fin: "gives_back {unat f..<unat f + unat count} p
          (p\<lparr>allocated_bitmap := ab, free_frames := free_frames p + count, next_hint := h\<rparr>)"
        "pmm_inv (p\<lparr>allocated_bitmap := ab, free_frames := free_frames p + count, next_hint := h\<rparr>)"
      using give_frames [OF inv sub sum] h by blast
    have "ns_pmm_free_pages p phys count = Some (NS_PMM_OK,
        p\<lparr>allocated_bitmap := ab, free_frames := free_frames p + count, next_hint := h\<rparr>)"
      using guards loop None ab
      by (simp add: ns_pmm_free_pages_def f [symmetric] pmm_lock_def pmm_unlock_def lk relock h_def)
    with None fin show ?thesis by simp
  qed
qed

lemma inv_nonzero: "pmm_inv p \<Longrightarrow> initialized p \<noteq> 0"
  by (simp add: pmm_inv_def)

lemma alloc_pages_ok:
  assumes inv: "pmm_inv p" and ok: "ns_pmm_alloc_pages p count a bound = Some (NS_PMM_OK, Some phys, q)"
  obtains f :: u64 where "unat phys = unat f * 4096" "count \<noteq> 0" "pmm_inv q"
    "takes {unat f..<unat f + unat count} p q" "unat f + unat count \<le> unat (frame_count p)"
proof -
  have "count \<noteq> 0" "pow2 a"
    using ok inv_nonzero [OF inv] by (auto simp: ns_pmm_alloc_pages_def pow2_def split: if_splits)
  then obtain f where f: "phys = push_bit NS_PAGE_SHIFT f" "pmm_inv q"
    "takes {unat f..<unat f + unat count} p q" "unat f + unat count \<le> search_limit p bound"
    using alloc_pages_spec [OF inv, of a count bound] ok by (auto simp: aligned_run_def)
  have "unat f + unat count \<le> unat (frame_count p)"
    using f(4) by (auto simp: search_limit_def split: if_splits)
  moreover have "unat phys = unat f * 4096"
    using calculation frame_count_bound [of p] inv
    by (simp add: f(1) unat_push_bit pmm_inv_def pmm_core_def)
  ultimately show thesis using f \<open>count \<noteq> 0\<close> by (intro that [of f]) auto
qed

lemma alloc_pages_other:
  assumes inv: "pmm_inv p" and r: "ns_pmm_alloc_pages p count a bound = Some (st, out, q)"
    and st: "st \<noteq> NS_PMM_OK"
  shows "q = p"
proof (cases "count \<noteq> 0 \<and> pow2 a")
  case True
  then show ?thesis using alloc_pages_spec [OF inv, of a count bound] r st by auto
next
  case False
  then show ?thesis using r inv by (auto simp: ns_pmm_alloc_pages_def pow2_def)
qed

lemma free_pages_ok:
  assumes inv: "pmm_inv p" and ok: "ns_pmm_free_pages p phys count = Some (NS_PMM_OK, q)"
  shows "pmm_inv q" "gives_back {unat phys div 4096..<unat phys div 4096 + unat count} p q"
proof -
  define f where "f = drop_bit NS_PAGE_SHIFT phys"
  have uf: "unat f = unat phys div 4096" by (simp add: f_def unat_div_pow)
  have guards: "count \<noteq> 0" "page_offset phys = 0" "\<not> (frame_count p \<le> f \<or> frame_count p - f < count)"
    using ok by (auto simp: ns_pmm_free_pages_def Let_def f_def split: if_splits)
  then have sum: "unat f + unat count \<le> unat (frame_count p)"
    by (auto simp: word_le_nat_alt word_less_nat_alt unat_sub)
  have "free_error p g \<noteq> Some NS_PMM_OK" for g by (simp add: free_error_def)
  then have "(the (free_error p g) = NS_PMM_OK) = False" if "free_error p g \<noteq> None" for g
    using that by (metis option.collapse)
  then show "pmm_inv q" "gives_back {unat phys div 4096..<unat phys div 4096 + unat count} p q"
    using free_pages_spec [OF inv guards(2,1) f_def sum] ok uf
    by (auto split: option.splits simp: find_Some_iff)
qed

lemma free_pages_other:
  assumes inv: "pmm_inv p" and r: "ns_pmm_free_pages p phys count = Some (st, q)" and st: "st \<noteq> NS_PMM_OK"
  shows "q = p"
proof (cases "count = 0 \<or> page_offset phys \<noteq> 0 \<or>
    frame_count p \<le> drop_bit NS_PAGE_SHIFT phys \<or> frame_count p - drop_bit NS_PAGE_SHIFT phys < count")
  case True
  then show ?thesis using r by (auto simp: ns_pmm_free_pages_def Let_def split: if_splits)
next
  case False
  then have "unat (drop_bit NS_PAGE_SHIFT phys) + unat count \<le> unat (frame_count p)"
    by (auto simp: word_le_nat_alt word_less_nat_alt unat_sub)
  then show ?thesis
    using free_pages_spec [OF inv _ _ refl, of phys count] False r st by (auto split: option.splits)
qed

lemma reserve_range_spec:
  assumes inv: "pmm_inv p" and "len \<noteq> 0" and "base < managed_limit p"
  shows "\<exists>q. ns_pmm_reserve_range p base len = Some (NS_PMM_OK, q) \<and> pmm_inv q \<and>
           reserves (pages_touched (unat base) (unat len) \<inter> {..<unat (frame_count p)}) p q"
proof -
  have core: "pmm_core (p\<lparr>lock := 1\<rparr>)" and lk: "lock p = 0" and nz: "initialized p \<noteq> 0"
    using inv by (simp_all add: pmm_inv_def)
  obtain q where q: "reserve_range_unlocked base len (p\<lparr>lock := 1\<rparr>) = Some q"
    "reserves (pages_touched (unat base) (unat len) \<inter> {..<unat (frame_count p)}) (p\<lparr>lock := 1\<rparr>) q"
    using reserve_range_unlocked_reserves [OF core] by auto
  have "ns_pmm_reserve_range p base len = Some (NS_PMM_OK, q\<lparr>lock := 0\<rparr>)"
    using assms q(1) lk nz by (simp add: ns_pmm_reserve_range_def pmm_lock_def pmm_unlock_def not_le)
  moreover have "reserves (pages_touched (unat base) (unat len) \<inter> {..<unat (frame_count p)}) p (q\<lparr>lock := 0\<rparr>)"
    using q(2) lk by (auto simp: reserves_def same_header_def)
  moreover have "pmm_inv (q\<lparr>lock := 0\<rparr>)"
    using q(2) inv by (auto simp: reserves_def same_header_def pmm_inv_def)
  ultimately show ?thesis by blast
qed

lemma reserve_range_any:
  assumes inv: "pmm_inv p" and r: "ns_pmm_reserve_range p base len = Some (st, q)"
  shows "pmm_inv q \<and> (\<exists>F. reserves F p q)"
proof (cases "len \<noteq> 0 \<and> base < managed_limit p")
  case True
  then show ?thesis using reserve_range_spec [OF inv, of len base] r by auto
next
  case False
  then have "q = p" using r by (auto simp: ns_pmm_reserve_range_def not_less split: if_splits)
  then show ?thesis using inv reserves_none [of p] by (auto simp: pmm_inv_def)
qed

section \<open>Histories of calls\<close>

text \<open>
  The state after a history of calls, with the list of the runs (first frame, number of frames)
  that were handed out and not returned yet. A caller returns a run as a whole; calls that fail
  and reservations may come anywhere in between.
\<close>

inductive pmm_history :: "ns_pmm \<Rightarrow> ns_pmm \<Rightarrow> (nat \<times> nat) list \<Rightarrow> bool" for p0 where
  Start: "pmm_history p0 p0 []"
| Alloc: "pmm_history p0 p runs \<Longrightarrow>
    ns_pmm_alloc_pages p count a bound = Some (NS_PMM_OK, Some phys, q) \<Longrightarrow>
    pmm_history p0 q ((unat phys div 4096, unat count) # runs)"
| Alloc_fails: "pmm_history p0 p runs \<Longrightarrow>
    ns_pmm_alloc_pages p count a bound = Some (st, out, q) \<Longrightarrow> st \<noteq> NS_PMM_OK \<Longrightarrow>
    pmm_history p0 q runs"
| Free: "pmm_history p0 p runs \<Longrightarrow> (unat phys div 4096, unat count) \<in> set runs \<Longrightarrow>
    ns_pmm_free_pages p phys count = Some (NS_PMM_OK, q) \<Longrightarrow>
    pmm_history p0 q (remove1 (unat phys div 4096, unat count) runs)"
| Free_fails: "pmm_history p0 p runs \<Longrightarrow>
    ns_pmm_free_pages p phys count = Some (st, q) \<Longrightarrow> st \<noteq> NS_PMM_OK \<Longrightarrow>
    pmm_history p0 q runs"
| Reserve: "pmm_history p0 p runs \<Longrightarrow>
    ns_pmm_reserve_range p base len = Some (st, q) \<Longrightarrow> pmm_history p0 q runs"

definition run_frames :: "nat \<times> nat \<Rightarrow> nat set" where
  "run_frames r = {fst r..<fst r + snd r}"

fun disjoint_runs :: "(nat \<times> nat) list \<Rightarrow> bool" where
  "disjoint_runs [] = True"
| "disjoint_runs (r # rs) \<longleftrightarrow> (\<forall>s \<in> set rs. run_frames r \<inter> run_frames s = {}) \<and> disjoint_runs rs"

lemma disjoint_runs_remove1:
  "disjoint_runs rs \<Longrightarrow> disjoint_runs (remove1 r rs)"
  by (induction rs) (auto dest: notin_set_remove1)

lemma disjoint_runs_remaining:
  "disjoint_runs rs \<Longrightarrow> r \<in> set rs \<Longrightarrow> s \<in> set (remove1 r rs) \<Longrightarrow> run_frames r \<inter> run_frames s = {}"
  by (induction rs) (auto split: if_splits)

lemma run_frames_remove1:
  "r \<in> set rs \<Longrightarrow> (\<Union>s \<in> set rs. run_frames s) = run_frames r \<union> (\<Union>s \<in> set (remove1 r rs). run_frames s)"
  by (induction rs) auto

lemma history_inv:
  assumes "pmm_history p0 p runs" and "pmm_inv p0" and "reserved_frames p0 = allocated_frames p0"
  shows "pmm_inv p \<and> disjoint_runs runs \<and> frame_count p = frame_count p0 \<and>
    reserved_frames p0 \<subseteq> reserved_frames p \<and> (\<Union>r \<in> set runs. run_frames r) \<inter> reserved_frames p0 = {} \<and>
    allocated_frames p = reserved_frames p \<union> (\<Union>r \<in> set runs. run_frames r)"
  using assms
proof (induction rule: pmm_history.induct)
  case (Alloc p runs count a bound phys q)
  then have inv: "pmm_inv p" by simp
  obtain f :: u64 where f: "unat phys = unat f * 4096" "pmm_inv q" "takes {unat f..<unat f + unat count} p q"
    using alloc_pages_ok [OF inv Alloc.hyps(2)] by metis
  then have "run_frames (unat phys div 4096, unat count) \<subseteq> free_set p"
    by (simp add: run_frames_def takes_def)
  moreover have "free_set p \<inter> allocated_frames p = {}" by (auto simp: free_set_def)
  ultimately have dis: "run_frames (unat phys div 4096, unat count) \<inter> allocated_frames p = {}" by blast
  have eq: "allocated_frames q = allocated_frames p \<union> run_frames (unat phys div 4096, unat count)"
    "reserved_frames q = reserved_frames p" "frame_count q = frame_count p"
    using f by (simp_all add: takes_def run_frames_def)
  show ?case using Alloc.IH Alloc.prems f(2) dis eq by auto
next
  case (Alloc_fails p runs count a bound st out q)
  then have "pmm_inv p" by blast
  from alloc_pages_other [OF this Alloc_fails.hyps(2,3)] show ?case using Alloc_fails.IH Alloc_fails.prems by blast
next
  case (Free p runs phys count q)
  let ?r = "(unat phys div 4096, unat count)"
  have inv: "pmm_inv p" and dr: "disjoint_runs runs" using Free.IH Free.prems by blast+
  have q: "pmm_inv q" "gives_back (run_frames ?r) p q"
    using free_pages_ok [OF inv Free.hyps(3)] by (simp_all add: run_frames_def)
  have dis: "run_frames ?r \<inter> (\<Union>s \<in> set (remove1 ?r runs). run_frames s) = {}"
    using disjoint_runs_remaining [OF dr Free.hyps(2)] by blast
  have sub: "(\<Union>s \<in> set (remove1 ?r runs). run_frames s) \<subseteq> (\<Union>s \<in> set runs. run_frames s)"
    by (intro UN_mono set_remove1_subset) auto
  show ?case
    using Free.IH Free.prems q dis sub run_frames_remove1 [OF Free.hyps(2)]
      disjoint_runs_remove1 [OF dr]
    unfolding gives_back_def by (intro conjI) (simp_all only:, blast+)
next
  case (Free_fails p runs phys count st q)
  then have "pmm_inv p" by blast
  from free_pages_other [OF this Free_fails.hyps(2,3)] show ?case using Free_fails.IH Free_fails.prems by blast
next
  case (Reserve p runs base len st q)
  then have inv: "pmm_inv p" by blast
  obtain F where "pmm_inv q" "reserves F p q" using reserve_range_any [OF inv Reserve.hyps(2)] by blast
  then show ?case using Reserve.IH Reserve.prems by (auto simp: reserves_def same_header_def)
qed auto

declare for_u64.simps [code] find_run_loop.simps [code]

lemma pmm_inv_checked:
  assumes "pmm_layout p" and "ns_pmm_check_invariants p = Some (NS_PMM_OK, p)"
    and "next_hint p < frame_count p" and "lock p = 0" and "initialized p \<noteq> 0"
  shows "pmm_inv p"
  using assms check_invariants_iff [of p] by (auto simp: pmm_inv_def pmm_core_def split: if_splits)

lemma bitmap_frames_code [code]: "bitmap_frames bm n = set (filter (frame_bit bm) [0..<n])"
  by (auto simp: bitmap_frames_def)

lemma takes_then_free:
  assumes inv: "pmm_inv q" and take: "takes F p q" and core: "pmm_inv p"
    and F: "F = {unat f..<unat f + unat count}" and phys: "unat phys = unat f * 4096" and pos: "count \<noteq> 0"
    and sum: "unat f + unat count \<le> unat (frame_count p)"
  shows "\<exists>r. ns_pmm_free_pages q phys count = Some (NS_PMM_OK, r) \<and> pmm_inv r \<and>
           allocated_frames r = allocated_frames p \<and> reserved_frames r = reserved_frames p \<and>
           frame_count r = frame_count p"
proof -
  have res: "reserved_frames p \<subseteq> allocated_frames p"
    using core by (simp add: pmm_inv_def pmm_core_def pmm_counts_def)
  have dis: "F \<inter> allocated_frames p = {}" using take by (auto simp: takes_def free_set_def)
  have page: "page_offset phys = 0" by (simp add: page_offset_zero phys)
  have uf: "unat (drop_bit NS_PAGE_SHIFT phys) = unat f" by (simp add: unat_div_pow phys)
  have sumq: "unat (drop_bit NS_PAGE_SHIFT phys) + unat count \<le> unat (frame_count q)"
    using sum take by (simp add: takes_def uf)
  have "free_error q (unat f + k) = None" if "k < unat count" for k
  proof -
    have "unat f + k \<in> F" using that by (simp add: F)
    then show ?thesis using take res dis unfolding free_error_def takes_def by auto
  qed
  then have "List.find (\<lambda>k. free_error q (unat f + k) \<noteq> None) [0..<unat count] = None"
    by (auto simp: find_None_iff)
  then obtain r where r: "ns_pmm_free_pages q phys count = Some (NS_PMM_OK, r)" "pmm_inv r"
    "gives_back F q r"
    using free_pages_spec [OF inv page pos refl sumq] by (auto simp: uf F)
  moreover have "allocated_frames r = allocated_frames p"
    using r(3) take dis by (auto simp: gives_back_def takes_def)
  ultimately show ?thesis using take by (auto simp: gives_back_def takes_def)
qed

lemma counts_free_frames:
  "pmm_inv p \<Longrightarrow> unat (free_frames p) = card (free_set p)"
  by (simp add: pmm_inv_def pmm_core_def pmm_counts_def)

lemma free_set_run: "x \<in> free_set p \<longleftrightarrow> aligned_run p x (Suc 0) (Suc 0) (unat (frame_count p))"
  by (auto simp: aligned_run_def is_run_def free_set_def)

section \<open>Example states\<close>

text \<open>
  Sixteen frames with given bitmaps, free count and hint; and a checksummed boot record with one
  usable entry of 8 MiB from address zero, for the witnesses of the hypotheses below.
\<close>

definition example_pmm :: "u8 list \<Rightarrow> u8 list \<Rightarrow> u64 \<Rightarrow> u64 \<Rightarrow> ns_pmm" where
  "example_pmm ab rb free hint =
     \<lparr>allocated_bitmap = ab, reserved_bitmap = rb, bytes_per_bitmap = 2, frame_count = 16,
      usable_frames = 12, free_frames = free, next_hint = hint, managed_limit = 65536, lock = 0,
      initialized = 1\<rparr>"

definition example_boot :: northstar_boot_info where
  "example_boot =
     \<lparr>bi_magic = NORTHSTAR_BOOT_MAGIC, bi_version = 1, bi_size = 192, bi_checksum = 0x99175c06,
      bi_flags = NORTHSTAR_BOOT_F_E820 OR NORTHSTAR_BOOT_F_CHECKSUM, bi_boot_drive = 0x80,
      bi_reserved0 = [0, 0, 0, 0, 0, 0, 0], bi_e820_entries_phys = 0x5000,
      bi_e820_entry_count = 1, bi_e820_entry_size = 24, bi_kernel_phys_base = 0x200000,
      bi_kernel_virt_base = 0xffffffff80200000, bi_kernel_size = 0x40000,
      bi_pml4_phys = 0x1000, bi_initrd_phys_base = 0, bi_initrd_size = 0,
      bi_direct_map_base = 0xffff800000000000, bi_bootloader_phys_base = 0x7c00,
      bi_bootloader_size = 0x400, bi_page_tables_phys_base = 0x1000,
      bi_page_tables_size = 0x3000, bi_boot_info_phys = 0x6000, bi_framebuffer_phys_base = 0,
      bi_framebuffer_size = 0, bi_rsdp_phys = 0, bi_direct_map_size = 0x40000000,
      bi_filesystem_lba = 0, bi_filesystem_sectors = 0\<rparr>"

definition example_entries :: memory where
  "example_entries a = (if a = 10 then 0x80 else if a = 16 then 1 else 0)"

lemma example_layout:
  "length ab = 2 \<Longrightarrow> length rb = 2 \<Longrightarrow> pmm_layout (example_pmm ab rb free hint)"
  by (simp add: pmm_layout_def example_pmm_def)

lemma example_inv:
  "pmm_inv (example_pmm [1, 0] [1, 0] 15 1)"
  "pmm_inv (example_pmm [0x81, 0xff] [0x81, 0xff] 6 0)"
  by (rule pmm_inv_checked; (rule example_layout; simp | code_simp))+

section \<open>Properties\<close>



text \<open>
  C2. \<open>ns_pmm_alloc_pages\<close> always returns when the lock is free. On success the run it hands out
  starts at a multiple of the alignment, ends below the caller's bound, consisted of free frames
  only, and is added to the allocated frames while the reservations stay as they were; the
  invariant (and with it the released lock and the exact free count) holds again. It fails with
  \<open>NS_PMM_ENOSPC\<close>, leaving the manager as it was, only when no suitable run starts at or after
  the search hint and none ends at or before it.
\<close>

theorem alloc_pages_correct:
  assumes "pmm_inv p" and "pow2 a" and "count \<noteq> 0"
  shows "(\<exists>f q. ns_pmm_alloc_pages p count a bound = Some (NS_PMM_OK, Some (push_bit NS_PAGE_SHIFT f), q) \<and>
            pmm_inv q \<and> takes {unat f..<unat f + unat count} p q \<and>
            aligned_run p (unat f) (unat count) (unat a) (search_limit p bound)) \<or>
         (ns_pmm_alloc_pages p count a bound = Some (NS_PMM_ENOSPC, Some NS_INVALID_PHYS, p) \<and>
           (\<forall>g. search_hint p bound \<le> g \<or> g + unat count \<le> search_hint p bound \<longrightarrow>
             \<not> aligned_run p g (unat count) (unat a) (search_limit p bound)))"
  by (rule alloc_pages_spec [OF assms])

theorem alloc_pages_correct_witness:
  "(\<exists>f q. ns_pmm_alloc_pages (example_pmm [1, 0] [1, 0] 15 1) 3 4 0 =
       Some (NS_PMM_OK, Some (push_bit NS_PAGE_SHIFT f), q) \<and> pmm_inv q \<and> 4 dvd unat f)"
proof -
  have "map_option fst (ns_pmm_alloc_pages (example_pmm [1, 0] [1, 0] 15 1) 3 4 0) = Some NS_PMM_OK"
    by code_simp
  moreover have "pow2 4" by code_simp
  ultimately show ?thesis
    using alloc_pages_correct [OF example_inv(1), of 4 3 0] by (auto simp: aligned_run_def)
qed

text \<open>
  C6. Single pages are never refused wrongly: \<open>ns_pmm_alloc_page\<close> succeeds exactly when some
  frame is free, and the frame it returns was one of them.
\<close>

theorem alloc_page_complete:
  assumes inv: "pmm_inv p"
  shows "if free_set p = {} then ns_pmm_alloc_page p = Some (NS_PMM_ENOSPC, Some NS_INVALID_PHYS, p)
         else (\<exists>f q. ns_pmm_alloc_page p = Some (NS_PMM_OK, Some (push_bit NS_PAGE_SHIFT f), q) \<and>
                 unat f \<in> free_set p \<and> pmm_inv q \<and> takes {unat f} p q)"
proof -
  have one: "pow2 1" by (simp add: pow2_def)
  have lim: "search_limit p 0 = unat (frame_count p)" by (simp add: search_limit_def)
  have "\<not> (\<forall>g. search_hint p 0 \<le> g \<or> g + 1 \<le> search_hint p 0 \<longrightarrow>
             \<not> aligned_run p g 1 1 (search_limit p 0)) \<longleftrightarrow> free_set p \<noteq> {}"
    using free_set_run [of _ p] by (auto simp: lim not_le Suc_le_eq)
  then consider (ok) f q where "ns_pmm_alloc_page p = Some (NS_PMM_OK, Some (push_bit NS_PAGE_SHIFT f), q)"
      "pmm_inv q" "takes {unat f} p q"
    | (full) "ns_pmm_alloc_page p = Some (NS_PMM_ENOSPC, Some NS_INVALID_PHYS, p)" "free_set p = {}"
    using alloc_pages_spec [OF inv one, of 1 0] by (auto simp: ns_pmm_alloc_page_def)
  then show ?thesis
  proof cases
    case ok
    then have "unat f \<in> free_set p" by (simp add: takes_def)
    with ok show ?thesis by auto
  qed simp
qed

theorem alloc_page_complete_witness:
  "\<exists>f q. ns_pmm_alloc_page (example_pmm [1, 0] [1, 0] 15 1) =
     Some (NS_PMM_OK, Some (push_bit NS_PAGE_SHIFT f), q) \<and> pmm_inv q"
proof -
  have "free_set (example_pmm [1, 0] [1, 0] 15 1) = {1..<16}" by code_simp
  then have "free_set (example_pmm [1, 0] [1, 0] 15 1) \<noteq> {}" by simp
  then show ?thesis using alloc_page_complete [OF example_inv(1)] by auto
qed

text \<open>
  C4. \<open>ns_pmm_free_pages\<close> on a page-aligned range inside the managed memory frees either the
  whole range or nothing. It frees the range when every frame is allocated and none is
  permanently reserved; otherwise the first offending frame decides the error, \<open>NS_PMM_EPERM\<close>
  for a reserved frame and \<open>NS_PMM_EDOUBLEFREE\<close> for a free one, and the manager is unchanged.
\<close>

theorem free_pages_correct:
  assumes inv: "pmm_inv p" and page: "page_offset phys = 0" and pos: "count \<noteq> 0"
    and f: "f = unat phys div 4096" and sum: "f + unat count \<le> unat (frame_count p)"
  shows "(\<exists>q. ns_pmm_free_pages p phys count = Some (NS_PMM_OK, q) \<and> pmm_inv q \<and>
             gives_back {f..<f + unat count} p q) \<or>
         (\<exists>k e. k < unat count \<and> free_error p (f + k) = Some e \<and> (\<forall>j < k. free_error p (f + j) = None) \<and>
            ns_pmm_free_pages p phys count = Some (e, p))"
proof -
  have uf: "unat (drop_bit NS_PAGE_SHIFT phys) = f" by (simp add: unat_div_pow f)
  show ?thesis
  proof (cases "List.find (\<lambda>k. free_error p (f + k) \<noteq> None) [0..<unat count]")
    case None
    then show ?thesis using free_pages_spec [OF inv page pos refl, unfolded uf, OF sum] by simp
  next
    case (Some k)
    then have "k < unat count" "free_error p (f + k) \<noteq> None" "\<forall>j < k. free_error p (f + j) = None"
      by (auto simp: find_Some_iff)
    then show ?thesis using Some free_pages_spec [OF inv page pos refl, unfolded uf, OF sum] by auto
  qed
qed

theorem free_pages_correct_witness:
  "ns_pmm_free_pages (example_pmm [1, 0] [1, 0] 15 1) 0x2000 1 =
     Some (NS_PMM_EDOUBLEFREE, example_pmm [1, 0] [1, 0] 15 1)"
proof -
  let ?p = "example_pmm [1, 0] [1, 0] 15 1"
  have "page_offset 0x2000 = 0" "2 + unat (1::u64) \<le> unat (frame_count ?p)" by code_simp+
  moreover have "free_error ?p (Suc (Suc 0)) = Some NS_PMM_EDOUBLEFREE" by code_simp
  moreover have "2 \<notin> allocated_frames ?p" by code_simp
  ultimately show ?thesis
    using free_pages_correct [OF example_inv(1), of "0x2000" 1 2] by (auto simp: gives_back_def subset_iff)
qed

text \<open>
  C3. After any history of allocations, frees of handed-out runs, reservations and failed calls,
  started from a manager in which only the permanent reservations are allocated, the invariant
  holds, the outstanding runs are pairwise disjoint and avoid the initial reservations, and every
  allocated frame is either reserved or part of an outstanding run: no frame is shared or leaked.
\<close>

theorem pmm_history_safe:
  assumes "pmm_history p0 p runs" and "pmm_inv p0" and "reserved_frames p0 = allocated_frames p0"
  shows "pmm_inv p \<and> disjoint_runs runs \<and> (\<Union>r \<in> set runs. run_frames r) \<inter> reserved_frames p0 = {} \<and>
    allocated_frames p = reserved_frames p \<union> (\<Union>r \<in> set runs. run_frames r)"
  using history_inv [OF assms] by blast

theorem pmm_history_safe_witness:
  "\<exists>p f. pmm_history (example_pmm [1, 0] [1, 0] 15 1) p [(f, 3)] \<and> pmm_inv p \<and>
     allocated_frames p = reserved_frames p \<union> {f..<f + 3}"
proof -
  let ?p = "example_pmm [1, 0] [1, 0] 15 1"
  have "\<exists>phys q. ns_pmm_alloc_pages ?p 3 4 0 = Some (NS_PMM_OK, Some phys, q)"
  proof -
    have "map_option (\<lambda>(st, out, q). (st, out)) (ns_pmm_alloc_pages ?p 3 4 0) = Some (NS_PMM_OK, Some 0x4000)"
      by code_simp
    then show ?thesis by auto
  qed
  then obtain phys q where "ns_pmm_alloc_pages ?p 3 4 0 = Some (NS_PMM_OK, Some phys, q)" by blast
  then have hist: "pmm_history ?p q [(unat phys div 4096, unat (3::u64))]"
    by (rule pmm_history.Alloc [OF pmm_history.Start])
  have "reserved_frames ?p = allocated_frames ?p" by code_simp
  from pmm_history_safe [OF hist example_inv(1) this] show ?thesis
    using hist by (auto simp: run_frames_def)
qed

text \<open>
  C5. Freeing what was just allocated succeeds and restores the allocated frames and the free
  count, and freeing the same address once more is reported as a double free.
\<close>

theorem alloc_free_roundtrip:
  assumes inv: "pmm_inv p" and ok: "ns_pmm_alloc_pages p count a bound = Some (NS_PMM_OK, Some phys, q)"
  shows "\<exists>r. ns_pmm_free_pages q phys count = Some (NS_PMM_OK, r) \<and> pmm_inv r \<and>
           allocated_frames r = allocated_frames p \<and> free_frames r = free_frames p \<and>
           ns_pmm_free_pages r phys count = Some (NS_PMM_EDOUBLEFREE, r)"
proof -
  obtain f :: u64 where f: "unat phys = unat f * 4096" "count \<noteq> 0" "pmm_inv q"
    "takes {unat f..<unat f + unat count} p q" "unat f + unat count \<le> unat (frame_count p)"
    using alloc_pages_ok [OF assms] by metis
  obtain r where r: "ns_pmm_free_pages q phys count = Some (NS_PMM_OK, r)" "pmm_inv r"
    "allocated_frames r = allocated_frames p" "reserved_frames r = reserved_frames p"
    "frame_count r = frame_count p"
    using takes_then_free [OF f(3,4) inv refl f(1,2,5)] by blast
  have page: "page_offset phys = 0" by (simp add: page_offset_zero f(1))
  have uf: "unat (drop_bit NS_PAGE_SHIFT phys) = unat f" by (simp add: unat_div_pow f(1))
  have pos: "0 < unat count" using f(2) by (simp add: unat_gt_0)
  have sum: "unat (drop_bit NS_PAGE_SHIFT phys) + unat count \<le> unat (frame_count r)"
    using f(5) r(5) by (simp add: uf)
  have "unat f \<in> free_set p" using f(4) pos by (auto simp: takes_def)
  then have "free_error r (unat f + 0) = Some NS_PMM_EDOUBLEFREE"
    using inv r(3,4)
    by (auto simp: free_error_def free_set_def pmm_inv_def pmm_core_def pmm_counts_def)
  then have "List.find (\<lambda>k. free_error r (unat f + k) \<noteq> None) [0..<unat count] = Some 0"
    using pos by (simp add: upt_conv_Cons)
  then have again: "ns_pmm_free_pages r phys count = Some (NS_PMM_EDOUBLEFREE, r)"
    using free_pages_spec [OF r(2) page f(2) refl sum] \<open>free_error r (unat f + 0) = _\<close> by (simp add: uf)
  have "free_set r = free_set p" using r(3,5) by (simp add: free_set_def)
  then have "free_frames r = free_frames p"
    using counts_free_frames [OF r(2)] counts_free_frames [OF inv] by (simp add: word_unat_eq_iff)
  with r again show ?thesis by blast
qed

theorem alloc_free_roundtrip_witness:
  "\<exists>phys q r. ns_pmm_alloc_pages (example_pmm [1, 0] [1, 0] 15 1) 3 4 0 = Some (NS_PMM_OK, Some phys, q) \<and>
     ns_pmm_free_pages q phys 3 = Some (NS_PMM_OK, r) \<and> free_frames r = 15"
proof -
  let ?p = "example_pmm [1, 0] [1, 0] 15 1"
  have "map_option (\<lambda>(st, out, q). (st, out)) (ns_pmm_alloc_pages ?p 3 4 0) = Some (NS_PMM_OK, Some 0x4000)"
    by code_simp
  then obtain q where q: "ns_pmm_alloc_pages ?p 3 4 0 = Some (NS_PMM_OK, Some 0x4000, q)" by auto
  moreover have "free_frames ?p = 15" by code_simp
  ultimately show ?thesis using alloc_free_roundtrip [OF example_inv(1) q] by auto
qed

text \<open>
  C7. \<open>ns_pmm_reserve_range\<close> on a non-empty range that starts in managed memory makes permanent
  exactly the managed pages the range touches (whether they were free or handed out), clipping
  a range that runs past the managed memory or wraps around, and keeps the invariant.
\<close>

theorem reserve_range_correct:
  assumes "pmm_inv p" and "len \<noteq> 0" and "base < managed_limit p"
  shows "\<exists>q. ns_pmm_reserve_range p base len = Some (NS_PMM_OK, q) \<and> pmm_inv q \<and>
           reserves (pages_touched (unat base) (unat len) \<inter> {..<unat (frame_count p)}) p q"
  by (rule reserve_range_spec [OF assms])

theorem reserve_range_correct_witness:
  "\<exists>q. ns_pmm_reserve_range (example_pmm [1, 0] [1, 0] 15 1) 0x2fff 0xffffffffffffffff = Some (NS_PMM_OK, q) \<and>
     pmm_inv q"
proof -
  have "(0x2fff::u64) < managed_limit (example_pmm [1, 0] [1, 0] 15 1)" by code_simp
  then show ?thesis using reserve_range_correct [OF example_inv(1), of "0xffffffffffffffff" "0x2fff"] by auto
qed

text \<open>
  C8. \<open>ns_pmm_check_invariants\<close> is an exact test: on a manager with a well-formed layout it
  reports \<open>NS_PMM_OK\<close> if and only if every reserved frame is allocated and the free count is the
  number of free frames, and it changes nothing.
\<close>

theorem check_invariants_exact:
  assumes "pmm_layout p" and "lock p = 0"
  shows "ns_pmm_check_invariants p = Some (if pmm_counts p then NS_PMM_OK else NS_PMM_ECORRUPT, p)"
  by (rule check_invariants_iff [OF assms])

theorem check_invariants_exact_witness:
  "ns_pmm_check_invariants (example_pmm [1, 0] [1, 2] 15 1) =
     Some (NS_PMM_ECORRUPT, example_pmm [1, 0] [1, 2] 15 1)"
proof -
  have "pmm_layout (example_pmm [1, 0] [1, 2] 15 1)" by (rule example_layout) simp_all
  moreover have "lock (example_pmm [1, 0] [1, 2] 15 1) = 0" by code_simp
  moreover have "\<not> reserved_frames (example_pmm [1, 0] [1, 2] 15 1) \<subseteq>
      allocated_frames (example_pmm [1, 0] [1, 2] 15 1)" by code_simp
  ultimately show ?thesis
    using check_invariants_exact [of "example_pmm [1, 0] [1, 2] 15 1"] by (simp add: pmm_counts_def)
qed


end
