(* ===== verification/Errno.thy ===== *)
theory Errno
  imports Main
begin

text \<open>
  The error codes of \<open>include/northstar/errno.h\<close>. A kernel function that returns zero or a
  non-negative value on success and \<open>-NS_E*\<close> on failure has a value of type \<open>ns_result\<close> here.
\<close>

datatype ns_errno =
    NS_EPERM | NS_ENOENT | NS_ESRCH | NS_EINTR | NS_EIO | NS_ENXIO | NS_E2BIG | NS_ENOEXEC
  | NS_EBADF | NS_ECHILD | NS_EAGAIN | NS_ENOMEM | NS_EACCES | NS_EFAULT | NS_EBUSY | NS_EEXIST
  | NS_EXDEV | NS_ENODEV | NS_ENOTDIR | NS_EISDIR | NS_EINVAL | NS_ENFILE | NS_EMFILE | NS_ENOSPC
  | NS_ESPIPE | NS_EROFS | NS_EPIPE | NS_ERANGE | NS_ENAMETOOLONG | NS_ENOSYS | NS_ENOTEMPTY
  | NS_ELOOP | NS_EPROTO | NS_EOVERFLOW | NS_ENOTSOCK | NS_EDESTADDRREQ | NS_EMSGSIZE
  | NS_EPROTOTYPE | NS_ENOPROTOOPT | NS_EPROTONOSUPPORT | NS_EAFNOSUPPORT | NS_EADDRINUSE
  | NS_EADDRNOTAVAIL | NS_ENETDOWN | NS_ENETUNREACH | NS_ECONNABORTED | NS_ECONNRESET
  | NS_ENOBUFS | NS_EISCONN | NS_ENOTCONN | NS_ETIMEDOUT | NS_ECONNREFUSED | NS_EHOSTUNREACH

datatype 'a ns_result = Ok 'a | Fail ns_errno

text \<open>Where results of drivers are passed on, they are the integers themselves.\<close>

fun ns_errno_value :: "ns_errno \<Rightarrow> int" where
  "ns_errno_value NS_EPERM = 1"
| "ns_errno_value NS_ENOENT = 2"
| "ns_errno_value NS_ESRCH = 3"
| "ns_errno_value NS_EINTR = 4"
| "ns_errno_value NS_EIO = 5"
| "ns_errno_value NS_ENXIO = 6"
| "ns_errno_value NS_E2BIG = 7"
| "ns_errno_value NS_ENOEXEC = 8"
| "ns_errno_value NS_EBADF = 9"
| "ns_errno_value NS_ECHILD = 10"
| "ns_errno_value NS_EAGAIN = 11"
| "ns_errno_value NS_ENOMEM = 12"
| "ns_errno_value NS_EACCES = 13"
| "ns_errno_value NS_EFAULT = 14"
| "ns_errno_value NS_EBUSY = 16"
| "ns_errno_value NS_EEXIST = 17"
| "ns_errno_value NS_EXDEV = 18"
| "ns_errno_value NS_ENODEV = 19"
| "ns_errno_value NS_ENOTDIR = 20"
| "ns_errno_value NS_EISDIR = 21"
| "ns_errno_value NS_EINVAL = 22"
| "ns_errno_value NS_ENFILE = 23"
| "ns_errno_value NS_EMFILE = 24"
| "ns_errno_value NS_ENOSPC = 28"
| "ns_errno_value NS_ESPIPE = 29"
| "ns_errno_value NS_EROFS = 30"
| "ns_errno_value NS_EPIPE = 32"
| "ns_errno_value NS_ERANGE = 34"
| "ns_errno_value NS_ENAMETOOLONG = 36"
| "ns_errno_value NS_ENOSYS = 38"
| "ns_errno_value NS_ENOTEMPTY = 39"
| "ns_errno_value NS_ELOOP = 40"
| "ns_errno_value NS_EPROTO = 71"
| "ns_errno_value NS_EOVERFLOW = 75"
| "ns_errno_value NS_ENOTSOCK = 88"
| "ns_errno_value NS_EDESTADDRREQ = 89"
| "ns_errno_value NS_EMSGSIZE = 90"
| "ns_errno_value NS_EPROTOTYPE = 91"
| "ns_errno_value NS_ENOPROTOOPT = 92"
| "ns_errno_value NS_EPROTONOSUPPORT = 93"
| "ns_errno_value NS_EAFNOSUPPORT = 97"
| "ns_errno_value NS_EADDRINUSE = 98"
| "ns_errno_value NS_EADDRNOTAVAIL = 99"
| "ns_errno_value NS_ENETDOWN = 100"
| "ns_errno_value NS_ENETUNREACH = 101"
| "ns_errno_value NS_ECONNABORTED = 103"
| "ns_errno_value NS_ECONNRESET = 104"
| "ns_errno_value NS_ENOBUFS = 105"
| "ns_errno_value NS_EISCONN = 106"
| "ns_errno_value NS_ENOTCONN = 107"
| "ns_errno_value NS_ETIMEDOUT = 110"
| "ns_errno_value NS_ECONNREFUSED = 111"
| "ns_errno_value NS_EHOSTUNREACH = 113"

lemma ns_errno_value_pos: "0 < ns_errno_value e"
  by (cases e) simp_all

end
