(* ===== verification/Pointer_Lists.thy ===== *)
theory Pointer_Lists
  imports Main
begin

text \<open>
  Lists threaded through pointer fields, as predicates on the fields: null-terminated singly
  linked lists (\<open>path\<close>) and circular doubly linked ones (\<open>cycle\<close>). A pointer is an option, \<open>None\<close>
  is the null pointer. The locale at the end is the interface of a singly linked list whose
  elements are removed through a cursor that walks from the head.
\<close>

section \<open>Null-terminated lists\<close>

fun path :: "('a \<Rightarrow> 'a option) \<Rightarrow> 'a option \<Rightarrow> 'a list \<Rightarrow> bool" where
  "path n h [] \<longleftrightarrow> h = None"
| "path n h (x # xs) \<longleftrightarrow> h = Some x \<and> path n (n x) xs"

lemma path_None [simp]: "path n None xs \<longleftrightarrow> xs = []"
  by (cases xs) auto

lemma path_cong:
  "(\<And>x. x \<in> set xs \<Longrightarrow> n x = m x) \<Longrightarrow> h = k \<Longrightarrow> xs = ys \<Longrightarrow> path n h xs = path m k ys"
  by (induction xs arbitrary: h k ys) auto

lemma path_unique: "path n h xs \<Longrightarrow> path n h ys \<Longrightarrow> xs = ys"
proof (induction xs arbitrary: h ys)
  case (Cons x xs)
  then show ?case by (cases ys) auto
qed simp

lemma path_suffix: "path n h (xs @ x # ys) \<Longrightarrow> path n (n x) ys"
  by (induction xs arbitrary: h) auto

lemma path_distinct: "path n h xs \<Longrightarrow> distinct xs"
proof (induction xs arbitrary: h)
  case (Cons x xs)
  have "x \<notin> set xs"
  proof
    assume "x \<in> set xs"
    then obtain ys zs where xs: "xs = ys @ x # zs" by (auto simp: in_set_conv_decomp)
    with Cons.prems have "path n (n x) xs" "path n (n x) zs" by (auto dest: path_suffix)
    with xs show False by (auto dest: path_unique)
  qed
  with Cons show ?case by auto
qed simp

section \<open>Circular doubly linked lists\<close>

fun links :: "('a \<Rightarrow> 'a option) \<Rightarrow> ('a \<Rightarrow> 'a option) \<Rightarrow> 'a list \<Rightarrow> bool" where
  "links n p (x # y # xs) \<longleftrightarrow> n x = Some y \<and> p y = Some x \<and> links n p (y # xs)"
| "links n p _ \<longleftrightarrow> True"

lemma links_append:
  "links n p (xs @ y # ys) \<longleftrightarrow> links n p (xs @ [y]) \<and> links n p (y # ys)"
  by (induction n p xs rule: links.induct) simp_all

lemma links_snoc [simp]:
  "links n p (xs @ [y, z]) \<longleftrightarrow> links n p (xs @ [y]) \<and> n y = Some z \<and> p z = Some y"
  using links_append [of n p xs y "[z]"] by simp

lemma links_snoc2 [simp]:
  "links n p (xs @ [y, z, w]) \<longleftrightarrow>
     links n p (xs @ [y]) \<and> n y = Some z \<and> p z = Some y \<and> n z = Some w \<and> p w = Some z"
  using links_append [of n p xs y "[z, w]"] by simp

lemma links_cong:
  "(\<And>x. x \<in> set (butlast xs) \<Longrightarrow> n x = m x) \<Longrightarrow> (\<And>x. x \<in> set (tl xs) \<Longrightarrow> p x = q x) \<Longrightarrow>
   links n p xs = links m q xs"
  by (induction n p xs rule: links.induct) (auto split: if_splits)

definition cycle :: "('a \<Rightarrow> 'a option) \<Rightarrow> ('a \<Rightarrow> 'a option) \<Rightarrow> 'a list \<Rightarrow> bool" where
  "cycle n p xs \<longleftrightarrow> xs = [] \<or> links n p (xs @ [hd xs])"

lemma cycle_Nil [simp]: "cycle n p []"
  by (simp add: cycle_def)

lemma cycle_rotate: "cycle n p (xs @ ys) \<longleftrightarrow> cycle n p (ys @ xs)"
proof (cases "xs = [] \<or> ys = []")
  case False
  then obtain x xs' y ys' where eq: "xs = x # xs'" "ys = y # ys'" by (auto simp: neq_Nil_conv)
  have "cycle n p (xs @ ys) \<longleftrightarrow> links n p ((x # xs') @ y # (ys' @ [x]))"
    by (simp add: cycle_def eq)
  also have "\<dots> \<longleftrightarrow> links n p (x # xs' @ [y]) \<and> links n p (y # ys' @ [x])"
    by (subst links_append) simp
  also have "\<dots> \<longleftrightarrow> links n p ((y # ys') @ x # (xs' @ [y]))"
    by (subst links_append [of n p "y # ys'"]) auto
  finally show ?thesis by (simp add: cycle_def eq)
qed auto

lemma cycle_cong:
  "(\<And>x. x \<in> set xs \<Longrightarrow> n x = m x) \<Longrightarrow> (\<And>x. x \<in> set xs \<Longrightarrow> p x = q x) \<Longrightarrow>
   cycle n p xs = cycle m q xs"
  unfolding cycle_def using links_cong [of "xs @ [hd xs]" n m p q]
  by (cases xs) (auto simp: butlast_append)

text \<open>The neighbours of an element, and the fields after an insertion at the end or a removal.\<close>

lemma cycle_single [simp]: "cycle n p [x] \<longleftrightarrow> n x = Some x \<and> p x = Some x"
  by (simp add: cycle_def)

lemma cycle_last: "cycle n p (x # xs) \<Longrightarrow> p x = Some (last (x # xs))"
proof -
  assume "cycle n p (x # xs)"
  moreover have "(x # xs) @ [x] = butlast (x # xs) @ [last (x # xs), x]" by simp
  ultimately show ?thesis by (simp only: cycle_def list.sel links_snoc) simp
qed

lemma cycle_snoc:
  assumes cyc: "cycle n p (x # xs)" and dist: "distinct (x # xs)" and new: "t \<notin> set (x # xs)"
    and n: "m = n(last (x # xs) := Some t, t := Some x)"
    and p: "q = p(t := Some (last (x # xs)), x := Some t)"
  shows "cycle m q ((x # xs) @ [t])"
proof -
  define ys where "ys = butlast (x # xs)"
  define l where "l = last (x # xs)"
  have eq: "x # xs = ys @ [l]" by (simp add: ys_def l_def)
  have dl: "l \<notin> set ys" "distinct ys" using dist unfolding eq by auto
  have neq: "t \<noteq> x" "t \<noteq> l" using new last_in_set [of "x # xs"] unfolding l_def by auto
  have "(x # xs) @ [x] = ys @ [l, x]" using eq by simp
  then have old: "links n p (ys @ [l])" using cyc by (simp only: cycle_def list.sel links_snoc) simp
  have "links m q (ys @ [l])"
  proof (rule links_cong [THEN iffD1, OF _ _ old])
    fix z assume "z \<in> set (butlast (ys @ [l]))"
    then have "z \<in> set ys" by simp
    then show "n z = m z" using dl new unfolding n l_def [symmetric] eq by auto
  next
    fix z assume z: "z \<in> set (tl (ys @ [l]))"
    then have "z \<in> set xs" by (metis eq list.sel(3))
    then show "p z = q z" using dist new unfolding p by auto
  qed
  moreover have "m l = Some t" "q t = Some l" "m t = Some x" "q x = Some t"
    using neq unfolding n p l_def [symmetric] by auto
  moreover have "((x # xs) @ [t]) @ [hd ((x # xs) @ [t])] = ys @ [l, t, x]" unfolding append_Cons list.sel using eq by simp
  ultimately show ?thesis
    unfolding cycle_def by (simp only: links_snoc2) simp
qed

lemma cycle_tl:
  assumes cyc: "cycle n p (t # y # ys)" and dist: "distinct (t # y # ys)"
    and n: "\<And>z. z \<noteq> last (y # ys) \<Longrightarrow> z \<noteq> t \<Longrightarrow> m z = n z" "m (last (y # ys)) = Some y"
    and p: "\<And>z. z \<noteq> y \<Longrightarrow> z \<noteq> t \<Longrightarrow> q z = p z" "q y = Some (last (y # ys))"
  shows "cycle m q (y # ys)"
proof -
  define zs where "zs = butlast (y # ys)"
  define l where "l = last (y # ys)"
  have eq: "y # ys = zs @ [l]" by (simp add: zs_def l_def)
  have dl: "l \<notin> set zs" "t \<notin> set zs" using dist unfolding eq by auto
  have "(t # y # ys) @ [t] = (t # zs) @ [l, t]" using eq by simp
  then have "links n p ((t # zs) @ [l])" using cyc by (simp only: cycle_def list.sel links_snoc) simp
  then have old: "links n p (zs @ [l])"
    unfolding append_Cons eq [symmetric] by simp
  have "links m q (zs @ [l])"
  proof (rule links_cong [THEN iffD1, OF _ _ old])
    fix z assume "z \<in> set (butlast (zs @ [l]))"
    then show "n z = m z" using dl n(1) [folded l_def, of z] by (metis butlast_snoc)
  next
    fix z assume "z \<in> set (tl (zs @ [l]))"
    then have "z \<in> set ys" by (metis eq list.sel(3))
    then have "z \<noteq> y" "z \<noteq> t" using dist by auto
    then show "p z = q z" using p(1) by simp
  qed
  moreover have "m l = Some y" "q y = Some l" using n(2) p(2) by (simp_all add: l_def)
  moreover have "(y # ys) @ [hd (y # ys)] = zs @ [l, y]" unfolding list.sel using eq by simp
  ultimately show ?thesis unfolding cycle_def by (simp only: links_snoc) simp
qed

section \<open>Removal through a cursor\<close>

text \<open>
  The cursor is the address of the pointer under inspection: \<open>None\<close> is the head of the list,
  \<open>Some t\<close> the link field of \<open>t\<close>. \<open>links_of\<close> are the link fields of a state; \<open>get\<close> and \<open>put\<close>
  read and write through a cursor.
\<close>

locale cursor_list =
  fixes get :: "'s \<Rightarrow> 'a option \<Rightarrow> 'a option"
    and put :: "'a option \<Rightarrow> 'a option \<Rightarrow> 's \<Rightarrow> 's"
    and remove_loop :: "'s \<Rightarrow> 'a \<Rightarrow> 'a option \<Rightarrow> 's option"
  assumes get_put: "get (put c v s) d = (if c = d then v else get s d)"
    and remove_loop_eq: "remove_loop s t c =
      (case get s c of
         None \<Rightarrow> Some s
       | Some x \<Rightarrow> if x = t then Some (put (Some t) None (put c (get s (Some t)) s))
                  else remove_loop s t (Some x))"
begin

lemma path_put:
  "c \<notin> Some ` set xs \<Longrightarrow> path (\<lambda>x. get (put c v s) (Some x)) h xs = path (\<lambda>x. get s (Some x)) h xs"
  by (intro path_cong) (auto simp: get_put)

lemma remove_from:
  assumes "path (\<lambda>x. get s (Some x)) (get s c) xs" and "c \<notin> Some ` set xs"
  shows "\<exists>s'. remove_loop s t c = Some s' \<and>
           path (\<lambda>x. get s' (Some x)) (get s' c) (remove1 t xs) \<and>
           (s' = s \<or> (\<exists>d v. s' = put (Some t) None (put d v s) \<and> d \<in> insert c (Some ` set xs))) \<and>
           (t \<notin> set xs \<longrightarrow> s' = s)"
  using assms
proof (induction xs arbitrary: c)
  case Nil
  then show ?case by (simp add: remove_loop_eq)
next
  case (Cons x xs)
  have dist: "distinct (x # xs)" using path_distinct [OF Cons.prems(1)] .
  show ?case
  proof (cases "x = t")
    case True
    let ?s = "put (Some t) None (put c (get s (Some t)) s)"
    have "remove_loop s t c = Some ?s"
      using Cons.prems True by (subst remove_loop_eq) simp
    moreover have "path (\<lambda>x. get ?s (Some x)) (get ?s c) xs"
    proof -
      have "path (\<lambda>x. get ?s (Some x)) (get s (Some t)) xs \<longleftrightarrow> path (\<lambda>x. get s (Some x)) (get s (Some t)) xs"
        using Cons.prems True dist by (intro path_cong) (auto simp: get_put)
      moreover have "get ?s c = get s (Some t)" using Cons.prems True by (auto simp: get_put)
      ultimately show ?thesis using Cons.prems True by simp
    qed
    ultimately show ?thesis using True by auto
  next
    case False
    have sub: "path (\<lambda>x. get s (Some x)) (get s (Some x)) xs" and "Some x \<notin> Some ` set xs"
      using Cons.prems dist by auto
    from Cons.IH [OF this] obtain s' where s': "remove_loop s t (Some x) = Some s'"
      "path (\<lambda>x. get s' (Some x)) (get s' (Some x)) (remove1 t xs)"
      "s' = s \<or> (\<exists>d v. s' = put (Some t) None (put d v s) \<and> d \<in> insert (Some x) (Some ` set xs))"
      "t \<notin> set xs \<longrightarrow> s' = s"
      by blast
    have "get s' c = Some x"
    proof (cases "s' = s")
      case False
      then obtain d v where "s' = put (Some t) None (put d v s)" "d \<in> insert (Some x) (Some ` set xs)"
        "t \<in> set xs"
        using s' by blast
      then show ?thesis using Cons.prems by (auto simp: get_put)
    qed (use Cons.prems in auto)
    moreover have "remove_loop s t c = Some s'"
      using Cons.prems False s'(1) by (subst remove_loop_eq) simp
    ultimately show ?thesis using False s' by auto
  qed
qed

end

end
