(* ===== verification/Scheduler.thy ===== *)
theory Scheduler
  imports Prelude Errno Pointer_Lists
begin

text \<open>
  The round-robin scheduler, \<open>kernel/proc/scheduler.c\<close>, over an explicit store of threads: the
  ready queue is a circular doubly linked list through \<open>run_prev\<close>/\<open>run_next\<close>, blocked and sleeping
  threads are singly linked through \<open>wait_next\<close> and \<open>sleep_next\<close>.

  A thread pointer is an option, and reading through \<open>None\<close> makes an operation \<open>None\<close>: that is a
  null-pointer dereference (or a walk along a cyclic list that never ends). The calls into the
  platform (\<open>critical_enter\<close>, \<open>critical_leave\<close>, \<open>switch_context\<close>) are recorded in \<open>calls\<close>, in the
  order they are made; a scheduler argument is never null.
\<close>

section \<open>Data\<close>

type_synonym tref = nat

datatype ns_thread_state =
    NS_THREAD_EMBRYO | NS_THREAD_READY | NS_THREAD_RUNNING | NS_THREAD_BLOCKED
  | NS_THREAD_SLEEPING | NS_THREAD_ZOMBIE

datatype ns_wait_kind =
    NS_WAIT_NONE | NS_WAIT_CHILD | NS_WAIT_PIPE_READ | NS_WAIT_PIPE_WRITE | NS_WAIT_IO

abbreviation (input) NS_THREAD_KERNEL :: u32 where "NS_THREAD_KERNEL \<equiv> 1"
abbreviation (input) NS_THREAD_IDLE :: u32 where "NS_THREAD_IDLE \<equiv> 2"

text \<open>
  The fields of \<open>struct ns_thread\<close> the scheduler uses: first the attributes, then the links.
  \<open>process_space\<close> is \<open>process->address_space\<close>, \<open>None\<close> when the thread has no process.
\<close>

record thread_attr =
  t_state :: ns_thread_state
  t_flags :: u32
  quantum_left :: u32
  switches :: u64
  runtime_ticks :: u64
  wake_deadline_ns :: u64
  wait_kind :: ns_wait_kind
  wait_key :: u64
  process_space :: "u64 option"

record ns_thread = thread_attr +
  run_prev :: "tref option"
  run_next :: "tref option"
  wait_next :: "tref option"
  sleep_next :: "tref option"
  on_run_queue :: bool

record ns_scheduler_ops =
  has_critical_enter :: bool
  has_critical_leave :: bool
  has_switch_context :: bool

datatype platform_call =
    Critical_Enter
  | Critical_Leave
  | Switch_Context "tref option" tref "u64 option"

record sched_common =
  ops :: ns_scheduler_ops
  current :: "tref option"
  idle :: "tref option"
  quantum_ticks :: u32
  preempt_disable_depth :: u32
  reschedule_pending :: bool
  ticks :: u64
  context_switches :: u64
  idle_ticks :: u64
  wakeups :: u64
  calls :: "platform_call list"

record ns_scheduler = sched_common +
  ready_head :: "tref option"
  blocked_head :: "tref option"
  sleep_head :: "tref option"
  thr :: "tref \<Rightarrow> ns_thread"

definition upd :: "tref \<Rightarrow> (ns_thread \<Rightarrow> ns_thread) \<Rightarrow> ns_scheduler \<Rightarrow> ns_scheduler" where
  "upd t f s = s\<lparr>thr := (thr s)(t := f (thr s t))\<rparr>"

section \<open>The critical section and the ready queue\<close>

definition enter_critical :: "'a sched_common_scheme \<Rightarrow> 'a sched_common_scheme" where
  "enter_critical s =
     (if has_critical_enter (ops s) then s\<lparr>calls := calls s @ [Critical_Enter]\<rparr> else s)"

definition leave_critical :: "'a sched_common_scheme \<Rightarrow> 'a sched_common_scheme" where
  "leave_critical s =
     (if has_critical_leave (ops s) then s\<lparr>calls := calls s @ [Critical_Leave]\<rparr> else s)"

definition ready_insert_tail :: "tref \<Rightarrow> ns_scheduler \<Rightarrow> ns_scheduler option" where
  "ready_insert_tail thread s = do {
     s \<leftarrow> (case ready_head s of
            None \<Rightarrow>
              Some ((upd thread (run_next_update (\<lambda>_. Some thread))
                (upd thread (run_prev_update (\<lambda>_. Some thread)) s))\<lparr>ready_head := Some thread\<rparr>)
          | Some head \<Rightarrow> do {
              tail \<leftarrow> run_prev (thr s head);
              let s = upd tail (run_next_update (\<lambda>_. Some thread)) s;
              let s = upd thread (run_prev_update (\<lambda>_. Some tail)) s;
              let s = upd thread (run_next_update (\<lambda>_. Some head)) s;
              Some (upd head (run_prev_update (\<lambda>_. Some thread)) s)
            });
     Some (upd thread (on_run_queue_update (\<lambda>_. True)) s)
   }"

definition ready_remove :: "tref \<Rightarrow> ns_scheduler \<Rightarrow> ns_scheduler option" where
  "ready_remove thread s =
     (if \<not> on_run_queue (thr s thread) then Some s
      else do {
        s \<leftarrow> (if run_next (thr s thread) = Some thread then Some (s\<lparr>ready_head := None\<rparr>)
              else do {
                prev \<leftarrow> run_prev (thr s thread);
                let s = upd prev (run_next_update (\<lambda>_. run_next (thr s thread))) s;
                nxt \<leftarrow> run_next (thr s thread);
                let s = upd nxt (run_prev_update (\<lambda>_. run_prev (thr s thread))) s;
                Some (if ready_head s = Some thread
                      then s\<lparr>ready_head := run_next (thr s thread)\<rparr> else s)
              });
        let s = upd thread (run_prev_update (\<lambda>_. None)) s;
        let s = upd thread (run_next_update (\<lambda>_. None)) s;
        Some (upd thread (on_run_queue_update (\<lambda>_. False)) s)
      })"

definition ready_pop :: "ns_scheduler \<Rightarrow> (tref option \<times> ns_scheduler) option" where
  "ready_pop s =
     (case ready_head s of
        None \<Rightarrow> Some (None, s)
      | Some thread \<Rightarrow> do { s \<leftarrow> ready_remove thread s; Some (Some thread, s) })"

section \<open>The blocked and the sleep list\<close>

text \<open>
  The cursor \<open>struct ns_thread **cursor\<close> is \<open>None\<close> for the address of the list head and \<open>Some t\<close>
  for the address of the link field of \<open>t\<close>.
\<close>

definition get_blocked :: "ns_scheduler \<Rightarrow> tref option \<Rightarrow> tref option" where
  "get_blocked s cursor =
     (case cursor of None \<Rightarrow> blocked_head s | Some t \<Rightarrow> wait_next (thr s t))"

definition put_blocked :: "tref option \<Rightarrow> tref option \<Rightarrow> ns_scheduler \<Rightarrow> ns_scheduler" where
  "put_blocked cursor v s =
     (case cursor of
        None \<Rightarrow> s\<lparr>blocked_head := v\<rparr>
      | Some t \<Rightarrow> upd t (wait_next_update (\<lambda>_. v)) s)"

definition get_sleep :: "ns_scheduler \<Rightarrow> tref option \<Rightarrow> tref option" where
  "get_sleep s cursor =
     (case cursor of None \<Rightarrow> sleep_head s | Some t \<Rightarrow> sleep_next (thr s t))"

definition put_sleep :: "tref option \<Rightarrow> tref option \<Rightarrow> ns_scheduler \<Rightarrow> ns_scheduler" where
  "put_sleep cursor v s =
     (case cursor of
        None \<Rightarrow> s\<lparr>sleep_head := v\<rparr>
      | Some t \<Rightarrow> upd t (sleep_next_update (\<lambda>_. v)) s)"

partial_function (option) blocked_remove_loop ::
  "ns_scheduler \<Rightarrow> tref \<Rightarrow> tref option \<Rightarrow> ns_scheduler option" where
  "blocked_remove_loop s target cursor =
     (case get_blocked s cursor of
        None \<Rightarrow> Some s
      | Some t \<Rightarrow>
          if t = target
          then Some (put_blocked (Some target) None (put_blocked cursor (get_blocked s (Some target)) s))
          else blocked_remove_loop s target (Some t))"

definition blocked_remove :: "tref \<Rightarrow> ns_scheduler \<Rightarrow> ns_scheduler option" where
  "blocked_remove target s = blocked_remove_loop s target None"

partial_function (option) sleep_remove_loop ::
  "ns_scheduler \<Rightarrow> tref \<Rightarrow> tref option \<Rightarrow> ns_scheduler option" where
  "sleep_remove_loop s target cursor =
     (case get_sleep s cursor of
        None \<Rightarrow> Some s
      | Some t \<Rightarrow>
          if t = target
          then Some (put_sleep (Some target) None (put_sleep cursor (get_sleep s (Some target)) s))
          else sleep_remove_loop s target (Some t))"

definition sleep_remove :: "tref \<Rightarrow> ns_scheduler \<Rightarrow> ns_scheduler option" where
  "sleep_remove target s = sleep_remove_loop s target None"

section \<open>Switching\<close>

definition switch_to :: "tref option \<Rightarrow> ns_scheduler \<Rightarrow> ns_scheduler" where
  "switch_to next_thread s =
     (let previous = current s in
      case (case next_thread of None \<Rightarrow> idle s | Some t \<Rightarrow> Some t) of
        None \<Rightarrow> s
      | Some t \<Rightarrow>
          if previous = Some t
          then upd t (quantum_left_update (\<lambda>_. quantum_ticks s))
                 (upd t (t_state_update (\<lambda>_. NS_THREAD_RUNNING)) s)
          else
            let space = process_space (thr s t);
                s = upd t (t_state_update (\<lambda>_. NS_THREAD_RUNNING)) s;
                s = upd t (quantum_left_update (\<lambda>_. quantum_ticks s)) s;
                s = upd t (switches_update (\<lambda>n. n + 1)) s;
                s = s\<lparr>current := Some t, context_switches := context_switches s + 1\<rparr> in
            if has_switch_context (ops s)
            then s\<lparr>calls := calls s @ [Switch_Context previous t space]\<rparr> else s)"

definition ns_sched_reschedule :: "ns_scheduler \<Rightarrow> ns_scheduler option" where
  "ns_sched_reschedule s =
     (let s = enter_critical s in
      if preempt_disable_depth s \<noteq> 0
      then Some (leave_critical (s\<lparr>reschedule_pending := True\<rparr>))
      else
        let previous = current s in
        do {
          s \<leftarrow> (if previous \<noteq> None \<and> previous \<noteq> idle s \<and>
                  t_state (thr s (the previous)) = NS_THREAD_RUNNING
               then ready_insert_tail (the previous)
                      (upd (the previous) (t_state_update (\<lambda>_. NS_THREAD_READY)) s)
               else if previous = idle s
               then do { t \<leftarrow> previous; Some (upd t (t_state_update (\<lambda>_. NS_THREAD_READY)) s) }
               else Some s);
          (next_thread, s) \<leftarrow> ready_pop s;
          let next_thread = (case next_thread of None \<Rightarrow> idle s | Some t \<Rightarrow> Some t);
          let s = s\<lparr>reschedule_pending := False\<rparr>;
          Some (leave_critical (switch_to next_thread s))
        })"

section \<open>The interface\<close>

definition ns_sched_init :: "ns_scheduler \<Rightarrow> ns_scheduler_ops \<Rightarrow> u32 \<Rightarrow> unit ns_result \<times> ns_scheduler" where
  "ns_sched_init s new_ops quantum =
     (if quantum = 0 then (Fail NS_EINVAL, s)
      else (Ok (), s\<lparr>ops := new_ops, current := None, idle := None, ready_head := None,
              blocked_head := None, sleep_head := None, quantum_ticks := quantum,
              preempt_disable_depth := 0, reschedule_pending := False, ticks := 0,
              context_switches := 0, idle_ticks := 0, wakeups := 0\<rparr>))"

definition ns_sched_set_idle :: "tref \<Rightarrow> ns_scheduler \<Rightarrow> unit ns_result \<times> ns_scheduler" where
  "ns_sched_set_idle thread s =
     (let s = enter_critical s in
      if idle s \<noteq> None \<or> on_run_queue (thr s thread) then (Fail NS_EBUSY, leave_critical s)
      else
        let s = upd thread (t_flags_update (\<lambda>f. f OR (NS_THREAD_IDLE OR NS_THREAD_KERNEL))) s;
            s = upd thread (t_state_update (\<lambda>_. NS_THREAD_READY)) s;
            s = upd thread (quantum_left_update (\<lambda>_. quantum_ticks s)) s in
        (Ok (), leave_critical (s\<lparr>idle := Some thread\<rparr>)))"

definition ns_sched_add :: "tref \<Rightarrow> ns_scheduler \<Rightarrow> (unit ns_result \<times> ns_scheduler) option" where
  "ns_sched_add thread s =
     (let s = enter_critical s in
      if on_run_queue (thr s thread) \<or> t_state (thr s thread) = NS_THREAD_RUNNING \<or>
         t_state (thr s thread) = NS_THREAD_ZOMBIE \<or> t_flags (thr s thread) AND NS_THREAD_IDLE \<noteq> 0
      then Some (Fail NS_EINVAL, leave_critical s)
      else do {
        s \<leftarrow> blocked_remove thread s;
        s \<leftarrow> sleep_remove thread s;
        let s = upd thread (wait_kind_update (\<lambda>_. NS_WAIT_NONE)) s;
        let s = upd thread (wait_key_update (\<lambda>_. 0)) s;
        let s = upd thread (t_state_update (\<lambda>_. NS_THREAD_READY)) s;
        s \<leftarrow> ready_insert_tail thread s;
        Some (Ok (), leave_critical s)
      })"

definition ns_sched_remove :: "tref \<Rightarrow> ns_scheduler \<Rightarrow> (unit ns_result \<times> ns_scheduler) option" where
  "ns_sched_remove thread s = do {
     let s = enter_critical s;
     s \<leftarrow> ready_remove thread s;
     s \<leftarrow> blocked_remove thread s;
     s \<leftarrow> sleep_remove thread s;
     let s = (if current s = Some thread then s\<lparr>reschedule_pending := True\<rparr> else s);
     Some (Ok (), leave_critical s)
   }"

partial_function (option) tick_wake_loop :: "u64 \<Rightarrow> ns_scheduler \<Rightarrow> ns_scheduler option" where
  "tick_wake_loop now_ns s =
     (case sleep_head s of
        None \<Rightarrow> Some s
      | Some thread \<Rightarrow>
          if wake_deadline_ns (thr s thread) \<le> now_ns
          then do {
            let s = s\<lparr>sleep_head := sleep_next (thr s thread)\<rparr>;
            let s = upd thread (sleep_next_update (\<lambda>_. None)) s;
            let s = upd thread (wake_deadline_ns_update (\<lambda>_. 0)) s;
            let s = upd thread (t_state_update (\<lambda>_. NS_THREAD_READY)) s;
            s \<leftarrow> ready_insert_tail thread s;
            tick_wake_loop now_ns (s\<lparr>wakeups := wakeups s + 1\<rparr>)
          }
          else Some s)"

definition tick_account :: "ns_scheduler \<Rightarrow> ns_scheduler" where
  "tick_account s =
     (let s = (if current s = idle s \<and> ready_head s \<noteq> None then s\<lparr>reschedule_pending := True\<rparr> else s) in
      if current s = idle s then s\<lparr>idle_ticks := idle_ticks s + 1\<rparr>
      else case current s of
        None \<Rightarrow> s
      | Some t \<Rightarrow>
          let s = upd t (runtime_ticks_update (\<lambda>n. n + 1)) s;
              s = (if quantum_left (thr s t) \<noteq> 0
                   then upd t (quantum_left_update (\<lambda>n. n - 1)) s else s) in
          if quantum_left (thr s t) = 0 then s\<lparr>reschedule_pending := True\<rparr> else s)"

definition ns_sched_tick :: "u64 \<Rightarrow> ns_scheduler \<Rightarrow> ns_scheduler option" where
  "ns_sched_tick now_ns s = do {
     let s = enter_critical s;
     s \<leftarrow> tick_wake_loop now_ns (s\<lparr>ticks := ticks s + 1\<rparr>);
     let s = leave_critical (tick_account s);
     if reschedule_pending s \<and> preempt_disable_depth s = 0 then ns_sched_reschedule s else Some s
   }"

definition ns_sched_yield :: "ns_scheduler \<Rightarrow> ns_scheduler option" where
  "ns_sched_yield s =
     (let s = s\<lparr>reschedule_pending := True\<rparr> in
      if preempt_disable_depth s = 0 then ns_sched_reschedule s else Some s)"

definition ns_sched_prepare_block :: "ns_wait_kind \<Rightarrow> u64 \<Rightarrow> ns_scheduler \<Rightarrow> ns_scheduler" where
  "ns_sched_prepare_block kind key s =
     (case current s of
        None \<Rightarrow> s
      | Some thread \<Rightarrow>
          if kind = NS_WAIT_NONE then s
          else
            let s = enter_critical s in
            if Some thread = idle s then leave_critical s
            else
              let s = upd thread (t_state_update (\<lambda>_. NS_THREAD_BLOCKED)) s;
                  s = upd thread (wait_kind_update (\<lambda>_. kind)) s;
                  s = upd thread (wait_key_update (\<lambda>_. key)) s;
                  s = upd thread (wait_next_update (\<lambda>_. blocked_head s)) s in
              leave_critical (s\<lparr>blocked_head := Some thread\<rparr>))"

definition ns_sched_commit_block :: "ns_scheduler \<Rightarrow> ns_scheduler option" where
  "ns_sched_commit_block s =
     (case current s of
        None \<Rightarrow> Some s
      | Some thread \<Rightarrow> do {
          let s = enter_critical s;
          (switch_required, s) \<leftarrow>
            (if t_state (thr s thread) = NS_THREAD_BLOCKED
             then Some (preempt_disable_depth s = 0, s\<lparr>reschedule_pending := True\<rparr>)
             else if t_state (thr s thread) = NS_THREAD_READY \<and> on_run_queue (thr s thread)
             then do {
               s \<leftarrow> ready_remove thread s;
               Some (False, upd thread (t_state_update (\<lambda>_. NS_THREAD_RUNNING)) s)
             }
             else Some (False, s));
          let s = leave_critical s;
          if switch_required then ns_sched_reschedule s else Some s
        })"

definition ns_sched_block :: "ns_wait_kind \<Rightarrow> u64 \<Rightarrow> ns_scheduler \<Rightarrow> ns_scheduler option" where
  "ns_sched_block kind key s = ns_sched_commit_block (ns_sched_prepare_block kind key s)"

partial_function (option) sleep_position ::
  "u64 \<Rightarrow> ns_scheduler \<Rightarrow> tref option \<Rightarrow> tref option option" where
  "sleep_position deadline_ns s cursor =
     (case get_sleep s cursor of
        None \<Rightarrow> Some cursor
      | Some t \<Rightarrow>
          if wake_deadline_ns (thr s t) \<le> deadline_ns then sleep_position deadline_ns s (Some t)
          else Some cursor)"

definition ns_sched_sleep_until :: "u64 \<Rightarrow> ns_scheduler \<Rightarrow> ns_scheduler option" where
  "ns_sched_sleep_until deadline_ns s =
     (case current s of
        None \<Rightarrow> Some s
      | Some thread \<Rightarrow>
          let s = enter_critical s in
          if Some thread = idle s then Some (leave_critical s)
          else do {
            let s = upd thread (t_state_update (\<lambda>_. NS_THREAD_SLEEPING)) s;
            let s = upd thread (wake_deadline_ns_update (\<lambda>_. deadline_ns)) s;
            cursor \<leftarrow> sleep_position deadline_ns s None;
            let s = upd thread (sleep_next_update (\<lambda>_. get_sleep s cursor)) s;
            let s = put_sleep cursor (Some thread) s;
            let s = leave_critical (s\<lparr>reschedule_pending := True\<rparr>);
            if preempt_disable_depth s = 0 then ns_sched_reschedule s else Some s
          })"

partial_function (option) wake_loop ::
  "ns_wait_kind \<Rightarrow> u64 \<Rightarrow> u64 \<Rightarrow> u64 \<Rightarrow> tref option \<Rightarrow> ns_scheduler \<Rightarrow> (u64 \<times> ns_scheduler) option" where
  "wake_loop kind key maximum count cursor s =
     (case get_blocked s cursor of
        None \<Rightarrow> Some (count, s)
      | Some thread \<Rightarrow>
          if count < maximum
          then
            if wait_kind (thr s thread) = kind \<and> wait_key (thr s thread) = key
            then do {
              let s = put_blocked cursor (wait_next (thr s thread)) s;
              let s = upd thread (wait_next_update (\<lambda>_. None)) s;
              let s = upd thread (wait_kind_update (\<lambda>_. NS_WAIT_NONE)) s;
              let s = upd thread (wait_key_update (\<lambda>_. 0)) s;
              let s = upd thread (t_state_update (\<lambda>_. NS_THREAD_READY)) s;
              s \<leftarrow> ready_insert_tail thread s;
              wake_loop kind key maximum (count + 1) cursor (s\<lparr>wakeups := wakeups s + 1\<rparr>)
            }
            else wake_loop kind key maximum count (Some thread) s
          else Some (count, s))"

definition ns_sched_wake ::
  "ns_wait_kind \<Rightarrow> u64 \<Rightarrow> u64 \<Rightarrow> ns_scheduler \<Rightarrow> (u64 \<times> ns_scheduler) option" where
  "ns_sched_wake kind key maximum s =
     (if kind = NS_WAIT_NONE \<or> maximum = 0 then Some (0, s)
      else do {
        (count, s) \<leftarrow> wake_loop kind key maximum 0 None (enter_critical s);
        Some (count, leave_critical s)
      })"

definition ns_sched_wake_thread :: "tref \<Rightarrow> ns_scheduler \<Rightarrow> (unit ns_result \<times> ns_scheduler) option" where
  "ns_sched_wake_thread thread s =
     (let s = enter_critical s in
      if t_state (thr s thread) \<noteq> NS_THREAD_BLOCKED \<and> t_state (thr s thread) \<noteq> NS_THREAD_SLEEPING
      then Some (Fail NS_EINVAL, leave_critical s)
      else do {
        s \<leftarrow> blocked_remove thread s;
        s \<leftarrow> sleep_remove thread s;
        let s = upd thread (wait_kind_update (\<lambda>_. NS_WAIT_NONE)) s;
        let s = upd thread (wait_key_update (\<lambda>_. 0)) s;
        let s = upd thread (wake_deadline_ns_update (\<lambda>_. 0)) s;
        let s = upd thread (t_state_update (\<lambda>_. NS_THREAD_READY)) s;
        s \<leftarrow> ready_insert_tail thread s;
        Some (Ok (), leave_critical (s\<lparr>wakeups := wakeups s + 1\<rparr>))
      })"

definition ns_sched_terminate_current :: "ns_scheduler \<Rightarrow> ns_scheduler option" where
  "ns_sched_terminate_current s =
     (case current s of
        None \<Rightarrow> Some s
      | Some thread \<Rightarrow>
          if Some thread = idle s then Some s
          else
            let s = enter_critical s;
                s = upd thread (t_state_update (\<lambda>_. NS_THREAD_ZOMBIE)) s;
                s = leave_critical (s\<lparr>reschedule_pending := True\<rparr>) in
            if preempt_disable_depth s = 0 then ns_sched_reschedule s else Some s)"

definition ns_sched_preempt_disable :: "ns_scheduler \<Rightarrow> ns_scheduler" where
  "ns_sched_preempt_disable s =
     (let s = enter_critical s in
      leave_critical (s\<lparr>preempt_disable_depth := preempt_disable_depth s + 1\<rparr>))"

definition ns_sched_preempt_enable :: "ns_scheduler \<Rightarrow> ns_scheduler option" where
  "ns_sched_preempt_enable s =
     (let s = enter_critical s;
          s = (if preempt_disable_depth s \<noteq> 0
               then s\<lparr>preempt_disable_depth := preempt_disable_depth s - 1\<rparr> else s);
          should_reschedule = (preempt_disable_depth s = 0 \<and> reschedule_pending s);
          s = leave_critical s in
      if should_reschedule then ns_sched_reschedule s else Some s)"

end
