(* ===== verification/Scheduler_Spec.thy ===== *)
theory Scheduler_Spec
  imports Scheduler
begin

text \<open>
  The scheduler of \<open>kernel/proc/scheduler.c\<close> with its three linked lists as plain lists, and the
  proof that the pointer version implements it: every operation called within its contract
  returns, and commutes with the abstraction.
\<close>

section \<open>The specification\<close>

record sched_spec = sched_common +
  q_ready :: "tref list"
  q_blocked :: "tref list"
  q_sleep :: "tref list"
  q_thr :: "tref \<Rightarrow> thread_attr"

definition aupd :: "tref \<Rightarrow> (thread_attr \<Rightarrow> thread_attr) \<Rightarrow> sched_spec \<Rightarrow> sched_spec" where
  "aupd t f a = a\<lparr>q_thr := (q_thr a)(t := f (q_thr a t))\<rparr>"

definition spec_switch :: "tref option \<Rightarrow> sched_spec \<Rightarrow> sched_spec" where
  "spec_switch n a =
     (case (case n of None \<Rightarrow> idle a | Some t \<Rightarrow> Some t) of
        None \<Rightarrow> a
      | Some t \<Rightarrow>
          if current a = Some t
          then aupd t (quantum_left_update (\<lambda>_. quantum_ticks a))
                 (aupd t (t_state_update (\<lambda>_. NS_THREAD_RUNNING)) a)
          else
            let previous = current a; space = process_space (q_thr a t);
                a = aupd t (t_state_update (\<lambda>_. NS_THREAD_RUNNING)) a;
                a = aupd t (quantum_left_update (\<lambda>_. quantum_ticks a)) a;
                a = aupd t (switches_update (\<lambda>n. n + 1)) a;
                a = a\<lparr>current := Some t, context_switches := context_switches a + 1\<rparr> in
            if has_switch_context (ops a)
            then a\<lparr>calls := calls a @ [Switch_Context previous t space]\<rparr> else a)"

definition spec_requeue :: "sched_spec \<Rightarrow> sched_spec" where
  "spec_requeue a =
     (case current a of
        None \<Rightarrow> a
      | Some t \<Rightarrow>
          if Some t = idle a then aupd t (t_state_update (\<lambda>_. NS_THREAD_READY)) a
          else if t_state (q_thr a t) = NS_THREAD_RUNNING
          then (aupd t (t_state_update (\<lambda>_. NS_THREAD_READY)) a)\<lparr>q_ready := q_ready a @ [t]\<rparr>
          else a)"

definition spec_dispatch :: "sched_spec \<Rightarrow> sched_spec" where
  "spec_dispatch a =
     (case q_ready a of
        [] \<Rightarrow> spec_switch (idle a) (a\<lparr>reschedule_pending := False\<rparr>)
      | t # ts \<Rightarrow> spec_switch (Some t) (a\<lparr>q_ready := ts, reschedule_pending := False\<rparr>))"

definition spec_reschedule :: "sched_spec \<Rightarrow> sched_spec" where
  "spec_reschedule a =
     (let a = enter_critical a in
      if preempt_disable_depth a \<noteq> 0 then leave_critical (a\<lparr>reschedule_pending := True\<rparr>)
      else leave_critical (spec_dispatch (spec_requeue a)))"

definition spec_make_ready :: "tref \<Rightarrow> sched_spec \<Rightarrow> sched_spec" where
  "spec_make_ready t a =
     (aupd t (t_state_update (\<lambda>_. NS_THREAD_READY)) a)\<lparr>q_ready := q_ready a @ [t]\<rparr>"

definition spec_unwait :: "tref \<Rightarrow> sched_spec \<Rightarrow> sched_spec" where
  "spec_unwait t a =
     aupd t (wait_key_update (\<lambda>_. 0)) (aupd t (wait_kind_update (\<lambda>_. NS_WAIT_NONE))
       (a\<lparr>q_blocked := remove1 t (q_blocked a), q_sleep := remove1 t (q_sleep a)\<rparr>))"

definition spec_set_idle :: "tref \<Rightarrow> sched_spec \<Rightarrow> sched_spec" where
  "spec_set_idle t a =
     (let a = enter_critical a in
      if idle a \<noteq> None \<or> t \<in> set (q_ready a) then leave_critical a
      else
        let a = aupd t (t_flags_update (\<lambda>f. f OR (NS_THREAD_IDLE OR NS_THREAD_KERNEL))) a;
            a = aupd t (t_state_update (\<lambda>_. NS_THREAD_READY)) a;
            a = aupd t (quantum_left_update (\<lambda>_. quantum_ticks a)) a in
        leave_critical (a\<lparr>idle := Some t\<rparr>))"

definition spec_add :: "tref \<Rightarrow> sched_spec \<Rightarrow> sched_spec" where
  "spec_add t a =
     (let a = enter_critical a in
      if t \<in> set (q_ready a) \<or> t_state (q_thr a t) = NS_THREAD_RUNNING \<or>
         t_state (q_thr a t) = NS_THREAD_ZOMBIE \<or> t_flags (q_thr a t) AND NS_THREAD_IDLE \<noteq> 0
      then leave_critical a
      else leave_critical (spec_make_ready t (spec_unwait t a)))"

definition spec_remove :: "tref \<Rightarrow> sched_spec \<Rightarrow> sched_spec" where
  "spec_remove t a =
     (let a = enter_critical a;
          a = a\<lparr>q_ready := remove1 t (q_ready a), q_blocked := remove1 t (q_blocked a),
               q_sleep := remove1 t (q_sleep a)\<rparr> in
      leave_critical (if current a = Some t then a\<lparr>reschedule_pending := True\<rparr> else a))"

fun spec_wake_due :: "tref list \<Rightarrow> u64 \<Rightarrow> sched_spec \<Rightarrow> sched_spec" where
  "spec_wake_due [] now a = a"
| "spec_wake_due (t # ts) now a =
     (if wake_deadline_ns (q_thr a t) \<le> now
      then spec_wake_due ts now
             ((spec_make_ready t (aupd t (wake_deadline_ns_update (\<lambda>_. 0)) (a\<lparr>q_sleep := ts\<rparr>)))
               \<lparr>wakeups := wakeups a + 1\<rparr>)
      else a)"

definition spec_account :: "sched_spec \<Rightarrow> sched_spec" where
  "spec_account a =
     (let a = (if current a = idle a \<and> q_ready a \<noteq> [] then a\<lparr>reschedule_pending := True\<rparr> else a) in
      if current a = idle a then a\<lparr>idle_ticks := idle_ticks a + 1\<rparr>
      else case current a of
        None \<Rightarrow> a
      | Some t \<Rightarrow>
          let a = aupd t (runtime_ticks_update (\<lambda>n. n + 1)) a;
              a = (if quantum_left (q_thr a t) \<noteq> 0
                   then aupd t (quantum_left_update (\<lambda>n. n - 1)) a else a) in
          if quantum_left (q_thr a t) = 0 then a\<lparr>reschedule_pending := True\<rparr> else a)"

definition spec_tick :: "u64 \<Rightarrow> sched_spec \<Rightarrow> sched_spec" where
  "spec_tick now a =
     (let a = enter_critical a;
          a = spec_wake_due (q_sleep a) now (a\<lparr>ticks := ticks a + 1\<rparr>);
          a = leave_critical (spec_account a) in
      if reschedule_pending a \<and> preempt_disable_depth a = 0 then spec_reschedule a else a)"

definition spec_yield :: "sched_spec \<Rightarrow> sched_spec" where
  "spec_yield a =
     (let a = a\<lparr>reschedule_pending := True\<rparr> in
      if preempt_disable_depth a = 0 then spec_reschedule a else a)"

definition spec_prepare_block :: "ns_wait_kind \<Rightarrow> u64 \<Rightarrow> sched_spec \<Rightarrow> sched_spec" where
  "spec_prepare_block kind key a =
     (case current a of
        None \<Rightarrow> a
      | Some t \<Rightarrow>
          if kind = NS_WAIT_NONE then a
          else let a = enter_critical a in
            if Some t = idle a then leave_critical a
            else
              let a = aupd t (t_state_update (\<lambda>_. NS_THREAD_BLOCKED)) a;
                  a = aupd t (wait_kind_update (\<lambda>_. kind)) a;
                  a = aupd t (wait_key_update (\<lambda>_. key)) a in
              leave_critical (a\<lparr>q_blocked := t # q_blocked a\<rparr>))"

definition spec_commit_block :: "sched_spec \<Rightarrow> sched_spec" where
  "spec_commit_block a =
     (case current a of
        None \<Rightarrow> a
      | Some t \<Rightarrow>
          let a = enter_critical a in
          if t_state (q_thr a t) = NS_THREAD_BLOCKED
          then let a = leave_critical (a\<lparr>reschedule_pending := True\<rparr>) in
            if preempt_disable_depth a = 0 then spec_reschedule a else a
          else if t_state (q_thr a t) = NS_THREAD_READY \<and> t \<in> set (q_ready a)
          then leave_critical (aupd t (t_state_update (\<lambda>_. NS_THREAD_RUNNING))
                 (a\<lparr>q_ready := remove1 t (q_ready a)\<rparr>))
          else leave_critical a)"

fun insert_sleeper :: "(tref \<Rightarrow> thread_attr) \<Rightarrow> u64 \<Rightarrow> tref \<Rightarrow> tref list \<Rightarrow> tref list" where
  "insert_sleeper q d t [] = [t]"
| "insert_sleeper q d t (x # xs) =
     (if wake_deadline_ns (q x) \<le> d then x # insert_sleeper q d t xs else t # x # xs)"

definition spec_sleep_until :: "u64 \<Rightarrow> sched_spec \<Rightarrow> sched_spec" where
  "spec_sleep_until d a =
     (case current a of
        None \<Rightarrow> a
      | Some t \<Rightarrow>
          let a = enter_critical a in
          if Some t = idle a then leave_critical a
          else
            let a = aupd t (t_state_update (\<lambda>_. NS_THREAD_SLEEPING)) a;
                a = aupd t (wake_deadline_ns_update (\<lambda>_. d)) a;
                a = a\<lparr>q_sleep := insert_sleeper (q_thr a) d t (q_sleep a)\<rparr>;
                a = leave_critical (a\<lparr>reschedule_pending := True\<rparr>) in
            if preempt_disable_depth a = 0 then spec_reschedule a else a)"

fun spec_wake_list ::
  "ns_wait_kind \<Rightarrow> u64 \<Rightarrow> u64 \<Rightarrow> u64 \<Rightarrow> tref list \<Rightarrow> tref list \<Rightarrow> sched_spec \<Rightarrow> u64 \<times> sched_spec" where
  "spec_wake_list kind key maximum count kept [] a = (count, a)"
| "spec_wake_list kind key maximum count kept (t # ts) a =
     (if count < maximum
      then
        if wait_kind (q_thr a t) = kind \<and> wait_key (q_thr a t) = key
        then
          let a = aupd t (wait_kind_update (\<lambda>_. NS_WAIT_NONE)) (a\<lparr>q_blocked := kept @ ts\<rparr>);
              a = aupd t (wait_key_update (\<lambda>_. 0)) a;
              a = spec_make_ready t a in
          spec_wake_list kind key maximum (count + 1) kept ts (a\<lparr>wakeups := wakeups a + 1\<rparr>)
        else spec_wake_list kind key maximum count (kept @ [t]) ts a
      else (count, a))"

definition spec_wake :: "ns_wait_kind \<Rightarrow> u64 \<Rightarrow> u64 \<Rightarrow> sched_spec \<Rightarrow> u64 \<times> sched_spec" where
  "spec_wake kind key maximum a =
     (if kind = NS_WAIT_NONE \<or> maximum = 0 then (0, a)
      else let (count, a) = spec_wake_list kind key maximum 0 [] (q_blocked a) (enter_critical a) in
        (count, leave_critical a))"

definition spec_wake_thread :: "tref \<Rightarrow> sched_spec \<Rightarrow> sched_spec" where
  "spec_wake_thread t a =
     (let a = enter_critical a in
      if t_state (q_thr a t) \<noteq> NS_THREAD_BLOCKED \<and> t_state (q_thr a t) \<noteq> NS_THREAD_SLEEPING
      then leave_critical a
      else
        let a = aupd t (wake_deadline_ns_update (\<lambda>_. 0)) (spec_unwait t a);
            a = spec_make_ready t a in
        leave_critical (a\<lparr>wakeups := wakeups a + 1\<rparr>))"

definition spec_terminate :: "sched_spec \<Rightarrow> sched_spec" where
  "spec_terminate a =
     (case current a of
        None \<Rightarrow> a
      | Some t \<Rightarrow>
          if Some t = idle a then a
          else
            let a = enter_critical a;
                a = aupd t (t_state_update (\<lambda>_. NS_THREAD_ZOMBIE)) a;
                a = leave_critical (a\<lparr>reschedule_pending := True\<rparr>) in
            if preempt_disable_depth a = 0 then spec_reschedule a else a)"

definition spec_preempt_enable :: "sched_spec \<Rightarrow> sched_spec" where
  "spec_preempt_enable a =
     (let a = enter_critical a;
          a = (if preempt_disable_depth a \<noteq> 0
               then a\<lparr>preempt_disable_depth := preempt_disable_depth a - 1\<rparr> else a);
          now = (preempt_disable_depth a = 0 \<and> reschedule_pending a);
          a = leave_critical a in
      if now then spec_reschedule a else a)"

definition spec_preempt_disable :: "sched_spec \<Rightarrow> sched_spec" where
  "spec_preempt_disable a =
     (let a = enter_critical a in
      leave_critical (a\<lparr>preempt_disable_depth := preempt_disable_depth a + 1\<rparr>))"

section \<open>The abstraction relation\<close>

definition attr :: "ns_thread \<Rightarrow> thread_attr" where
  "attr t = thread_attr.truncate t"

definition same_common :: "ns_scheduler \<Rightarrow> sched_spec \<Rightarrow> bool" where
  "same_common s a \<longleftrightarrow>
     ops s = ops a \<and> current s = current a \<and> idle s = idle a \<and> quantum_ticks s = quantum_ticks a \<and>
     preempt_disable_depth s = preempt_disable_depth a \<and>
     reschedule_pending s = reschedule_pending a \<and> ticks s = ticks a \<and>
     context_switches s = context_switches a \<and> idle_ticks s = idle_ticks a \<and>
     wakeups s = wakeups a \<and> calls s = calls a"

definition head_of :: "'a list \<Rightarrow> 'a option" where
  "head_of xs = (case xs of [] \<Rightarrow> None | x # _ \<Rightarrow> Some x)"

definition ready_ok :: "ns_scheduler \<Rightarrow> tref list \<Rightarrow> bool" where
  "ready_ok s rs \<longleftrightarrow>
     ready_head s = head_of rs \<and> distinct rs \<and>
     cycle (\<lambda>t. run_next (thr s t)) (\<lambda>t. run_prev (thr s t)) rs \<and>
     (\<forall>t. on_run_queue (thr s t) \<longleftrightarrow> t \<in> set rs)"

definition blocked_ok :: "ns_scheduler \<Rightarrow> tref list \<Rightarrow> bool" where
  "blocked_ok s bs \<longleftrightarrow> path (\<lambda>t. get_blocked s (Some t)) (get_blocked s None) bs"

definition sleep_ok :: "ns_scheduler \<Rightarrow> tref list \<Rightarrow> bool" where
  "sleep_ok s ss \<longleftrightarrow> path (\<lambda>t. get_sleep s (Some t)) (get_sleep s None) ss"

definition refines :: "ns_scheduler \<Rightarrow> sched_spec \<Rightarrow> bool" where
  "refines s a \<longleftrightarrow>
     same_common s a \<and> (\<forall>t. attr (thr s t) = q_thr a t) \<and>
     ready_ok s (q_ready a) \<and> blocked_ok s (q_blocked a) \<and> sleep_ok s (q_sleep a)"

text \<open>A run of the pointer version that ends in a state abstracting to a given one.\<close>

definition corres :: "ns_scheduler option \<Rightarrow> sched_spec \<Rightarrow> bool" where
  "corres m a \<longleftrightarrow> (\<exists>s. m = Some s \<and> refines s a)"

lemma corresI [intro]: "refines s a \<Longrightarrow> corres (Some s) a"
  by (simp add: corres_def)

lemma corres_bind:
  "corres m a \<Longrightarrow> (\<And>s. refines s a \<Longrightarrow> corres (f s) b) \<Longrightarrow> corres (m \<bind> f) b"
  by (auto simp: corres_def)

lemmas ok_defs = ready_ok_def blocked_ok_def sleep_ok_def get_blocked_def get_sleep_def

section \<open>Steps that leave the lists alone\<close>

lemma refines_attr:
  assumes "refines s a" and "\<And>x. attr (f x) = g (attr x)"
    and "\<And>x. run_next (f x) = run_next x" "\<And>x. run_prev (f x) = run_prev x"
    and "\<And>x. wait_next (f x) = wait_next x" "\<And>x. sleep_next (f x) = sleep_next x"
    and "\<And>x. on_run_queue (f x) = on_run_queue x"
  shows "refines (upd t f s) (aupd t g a)"
proof -
  have keep: "(\<lambda>x. run_next (thr (upd t f s) x)) = (\<lambda>x. run_next (thr s x))"
    "(\<lambda>x. run_prev (thr (upd t f s) x)) = (\<lambda>x. run_prev (thr s x))"
    "(\<lambda>x. wait_next (thr (upd t f s) x)) = (\<lambda>x. wait_next (thr s x))"
    "(\<lambda>x. sleep_next (thr (upd t f s) x)) = (\<lambda>x. sleep_next (thr s x))"
    "(\<lambda>x. on_run_queue (thr (upd t f s) x)) = (\<lambda>x. on_run_queue (thr s x))"
    using assms by (auto simp: upd_def fun_eq_iff)
  have heads: "ready_head (upd t f s) = ready_head s" "blocked_head (upd t f s) = blocked_head s"
    "sleep_head (upd t f s) = sleep_head s"
    by (simp_all add: upd_def)
  have lists: "q_ready (aupd t g a) = q_ready a" "q_blocked (aupd t g a) = q_blocked a"
    "q_sleep (aupd t g a) = q_sleep a"
    by (simp_all add: aupd_def)
  have "same_common (upd t f s) (aupd t g a)"
    using assms(1) by (simp add: refines_def same_common_def upd_def aupd_def)
  moreover have "\<forall>x. attr (thr (upd t f s) x) = q_thr (aupd t g a) x"
    using assms(1,2) by (simp add: refines_def upd_def aupd_def)
  ultimately show ?thesis
    using assms(1) by (simp add: refines_def ok_defs lists heads keep fun_cong [OF keep(5)])
qed

lemma refines_attrs [intro]:
  assumes "refines s a"
  shows "refines (upd t (t_state_update h1) s) (aupd t (t_state_update h1) a)"
    and "refines (upd t (t_flags_update h2) s) (aupd t (t_flags_update h2) a)"
    and "refines (upd t (quantum_left_update h2) s) (aupd t (quantum_left_update h2) a)"
    and "refines (upd t (switches_update h3) s) (aupd t (switches_update h3) a)"
    and "refines (upd t (runtime_ticks_update h3) s) (aupd t (runtime_ticks_update h3) a)"
    and "refines (upd t (wake_deadline_ns_update h3) s) (aupd t (wake_deadline_ns_update h3) a)"
    and "refines (upd t (wait_kind_update h4) s) (aupd t (wait_kind_update h4) a)"
    and "refines (upd t (wait_key_update h3) s) (aupd t (wait_key_update h3) a)"
  by (rule refines_attr [OF assms]; simp add: attr_def thread_attr.truncate_def)+

lemma refines_fields [intro]:
  assumes "refines s a"
  shows "refines (s\<lparr>current := v1\<rparr>) (a\<lparr>current := v1\<rparr>)"
    and "refines (s\<lparr>idle := v1\<rparr>) (a\<lparr>idle := v1\<rparr>)"
    and "refines (s\<lparr>preempt_disable_depth := v2\<rparr>) (a\<lparr>preempt_disable_depth := v2\<rparr>)"
    and "refines (s\<lparr>reschedule_pending := v3\<rparr>) (a\<lparr>reschedule_pending := v3\<rparr>)"
    and "refines (s\<lparr>ticks := v4\<rparr>) (a\<lparr>ticks := v4\<rparr>)"
    and "refines (s\<lparr>context_switches := v4\<rparr>) (a\<lparr>context_switches := v4\<rparr>)"
    and "refines (s\<lparr>idle_ticks := v4\<rparr>) (a\<lparr>idle_ticks := v4\<rparr>)"
    and "refines (s\<lparr>wakeups := v4\<rparr>) (a\<lparr>wakeups := v4\<rparr>)"
    and "refines (s\<lparr>calls := v5\<rparr>) (a\<lparr>calls := v5\<rparr>)"
  using assms by (simp_all add: refines_def same_common_def ok_defs)

lemma refines_same:
  assumes "refines s a"
  shows "ops s = ops a" "current s = current a" "idle s = idle a" "quantum_ticks s = quantum_ticks a"
    "preempt_disable_depth s = preempt_disable_depth a"
    "reschedule_pending s = reschedule_pending a" "ticks s = ticks a"
    "context_switches s = context_switches a" "idle_ticks s = idle_ticks a"
    "wakeups s = wakeups a" "calls s = calls a"
  using assms by (simp_all add: refines_def same_common_def)

lemma refines_thr:
  assumes "refines s a"
  shows "t_state (thr s t) = t_state (q_thr a t)" "t_flags (thr s t) = t_flags (q_thr a t)"
    "quantum_left (thr s t) = quantum_left (q_thr a t)"
    "wake_deadline_ns (thr s t) = wake_deadline_ns (q_thr a t)"
    "wait_kind (thr s t) = wait_kind (q_thr a t)" "wait_key (thr s t) = wait_key (q_thr a t)"
    "process_space (thr s t) = process_space (q_thr a t)"
    "on_run_queue (thr s t) \<longleftrightarrow> t \<in> set (q_ready a)"
    "ready_head s = head_of (q_ready a)"
proof -
  have "attr (thr s t) = q_thr a t" using assms by (simp add: refines_def)
  then show "t_state (thr s t) = t_state (q_thr a t)" "t_flags (thr s t) = t_flags (q_thr a t)"
    "quantum_left (thr s t) = quantum_left (q_thr a t)"
    "wake_deadline_ns (thr s t) = wake_deadline_ns (q_thr a t)"
    "wait_kind (thr s t) = wait_kind (q_thr a t)" "wait_key (thr s t) = wait_key (q_thr a t)"
    "process_space (thr s t) = process_space (q_thr a t)"
    by (auto simp: attr_def thread_attr.truncate_def dest!: sym [of _ "q_thr a t"])
  show "on_run_queue (thr s t) \<longleftrightarrow> t \<in> set (q_ready a)" "ready_head s = head_of (q_ready a)"
    using assms by (simp_all add: refines_def ready_ok_def)
qed

lemma refines_enter [intro]: "refines s a \<Longrightarrow> refines (enter_critical s) (enter_critical a)"
  using refines_fields(9) [of s a] refines_same [of s a] by (simp add: enter_critical_def)

lemma refines_leave [intro]: "refines s a \<Longrightarrow> refines (leave_critical s) (leave_critical a)"
  using refines_fields(9) [of s a] refines_same [of s a] by (simp add: leave_critical_def)

section \<open>The ready queue\<close>

lemma attr_links [simp]:
  "attr (x\<lparr>run_prev := v\<rparr>) = attr x" "attr (x\<lparr>run_next := v\<rparr>) = attr x"
  "attr (x\<lparr>wait_next := v\<rparr>) = attr x" "attr (x\<lparr>sleep_next := v\<rparr>) = attr x"
  "attr (x\<lparr>on_run_queue := b\<rparr>) = attr x"
  by (simp_all add: attr_def thread_attr.truncate_def)

text \<open>A state that differs only in the ready queue.\<close>

definition same_but_ready :: "ns_scheduler \<Rightarrow> ns_scheduler \<Rightarrow> bool" where
  "same_but_ready s s' \<longleftrightarrow>
     sched_common.truncate s' = sched_common.truncate s \<and>
     blocked_head s' = blocked_head s \<and> sleep_head s' = sleep_head s \<and>
     (\<forall>u. attr (thr s' u) = attr (thr s u) \<and> wait_next (thr s' u) = wait_next (thr s u) \<and>
          sleep_next (thr s' u) = sleep_next (thr s u))"

lemma same_but_ready_upd:
  "same_but_ready s (upd t (run_prev_update f) s)" "same_but_ready s (upd t (run_next_update f) s)"
  "same_but_ready s (upd t (on_run_queue_update g) s)" "same_but_ready s (s\<lparr>ready_head := h\<rparr>)"
  "same_but_ready s s"
  by (simp_all add: same_but_ready_def upd_def attr_def thread_attr.truncate_def sched_common.truncate_def)

lemma same_but_ready_trans:
  "same_but_ready s s' \<Longrightarrow> same_but_ready s' s'' \<Longrightarrow> same_but_ready s s''"
  by (simp add: same_but_ready_def)

lemmas same_but_ready_steps = same_but_ready_upd(1-4) [THEN [2] same_but_ready_trans]

lemma refines_ready:
  assumes ref: "refines s a" and same: "same_but_ready s s'" and ok: "ready_ok s' rs"
  shows "refines s' (a\<lparr>q_ready := rs\<rparr>)"
proof -
  have "same_common s' a"
    using ref same
    by (simp add: refines_def same_common_def same_but_ready_def sched_common.truncate_def)
  moreover have "blocked_ok s' (q_blocked a)" "sleep_ok s' (q_sleep a)"
    using ref same by (simp_all add: refines_def same_but_ready_def ok_defs)
  ultimately show ?thesis
    using ref same ok by (simp add: refines_def same_but_ready_def same_common_def)
qed

lemma corres_insert_tail:
  assumes ref: "refines s a" and new: "t \<notin> set (q_ready a)"
  shows "corres (ready_insert_tail t s) (a\<lparr>q_ready := q_ready a @ [t]\<rparr>)"
proof (cases "q_ready a")
  case Nil
  define s' where "s' = upd t (on_run_queue_update (\<lambda>_. True)) ((upd t (run_next_update (\<lambda>_. Some t))
                (upd t (run_prev_update (\<lambda>_. Some t)) s))\<lparr>ready_head := Some t\<rparr>)"
  have ok: "ready_ok s []" using ref Nil by (simp add: refines_def)
  then have run: "ready_insert_tail t s = Some s'"
    by (simp add: ready_insert_tail_def s'_def ready_ok_def head_of_def)
  have "same_but_ready s s'" unfolding s'_def by (intro same_but_ready_steps same_but_ready_upd(5))
  moreover have "ready_ok s' [t]" using ok by (simp add: ready_ok_def s'_def upd_def head_of_def)
  ultimately show ?thesis using refines_ready [OF ref] run Nil by (simp add: corres_def)
next
  case (Cons x xs)
  let ?l = "last (x # xs)"
  have ok: "ready_ok s (x # xs)" using ref Cons by (simp add: refines_def)
  have cyc: "cycle (\<lambda>t. run_next (thr s t)) (\<lambda>t. run_prev (thr s t)) (x # xs)" and dist: "distinct (x # xs)"
    and head: "ready_head s = Some x" and new': "t \<notin> set (x # xs)"
    using ok new Cons by (simp_all add: ready_ok_def head_of_def)
  have tail: "run_prev (thr s x) = Some ?l" using cycle_last [OF cyc] .
  define s' where "s' = upd t (on_run_queue_update (\<lambda>_. True)) (upd x (run_prev_update (\<lambda>_. Some t))
    (upd t (run_next_update (\<lambda>_. Some x)) (upd t (run_prev_update (\<lambda>_. Some ?l))
      (upd ?l (run_next_update (\<lambda>_. Some t)) s))))"
  have run: "ready_insert_tail t s = Some s'"
    using head tail by (simp add: ready_insert_tail_def s'_def Let_def)
  have nl: "t \<noteq> x" "t \<noteq> ?l" using new' last_in_set [of "x # xs"] by auto
  have nx: "(\<lambda>t. run_next (thr s' t)) = (\<lambda>t. run_next (thr s t))(?l := Some t, t := Some x)"
    and pv: "(\<lambda>t. run_prev (thr s' t)) = (\<lambda>t. run_prev (thr s t))(t := Some ?l, x := Some t)"
    using nl by (auto simp: s'_def upd_def fun_eq_iff)
  have "cycle (\<lambda>t. run_next (thr s' t)) (\<lambda>t. run_prev (thr s' t)) ((x # xs) @ [t])"
    by (rule cycle_snoc [OF cyc dist new' nx pv])
  moreover have "\<forall>u. on_run_queue (thr s' u) \<longleftrightarrow> u = t \<or> u \<in> set (x # xs)"
    using ok by (auto simp: s'_def upd_def ready_ok_def)
  moreover have "ready_head s' = Some x" using head by (simp add: s'_def upd_def)
  ultimately have "ready_ok s' ((x # xs) @ [t])"
    using dist new' by (auto simp: ready_ok_def head_of_def)
  moreover have "same_but_ready s s'" unfolding s'_def by (intro same_but_ready_steps same_but_ready_upd(5))
  ultimately show ?thesis using refines_ready [OF ref] run Cons by (simp add: corres_def)
qed

lemma ready_remove_ok:
  assumes ok: "ready_ok s rs" and t: "t \<in> set rs"
  shows "\<exists>s'. ready_remove t s = Some s' \<and> same_but_ready s s' \<and> ready_ok s' (remove1 t rs)"
proof -
  let ?n = "\<lambda>t. run_next (thr s t)" and ?p = "\<lambda>t. run_prev (thr s t)"
  obtain ys zs where rs: "rs = ys @ t # zs" "t \<notin> set ys" using split_list_first [OF t] by blast
  have dist: "distinct rs" and cyc: "cycle ?n ?p rs" and head: "ready_head s = head_of rs"
    and on: "\<forall>u. on_run_queue (thr s u) \<longleftrightarrow> u \<in> set rs"
    using ok by (simp_all add: ready_ok_def)
  have rem: "remove1 t rs = ys @ zs" using rs by (simp add: remove1_append)
  have rot: "cycle ?n ?p (t # zs @ ys)" using cyc cycle_rotate [of ?n ?p ys "t # zs"] rs by simp
  have drot: "distinct (t # zs @ ys)" using dist rs by auto
  show ?thesis
  proof (cases "zs @ ys")
    case Nil
    define s' where "s' = upd t (on_run_queue_update (\<lambda>_. False)) (upd t (run_next_update (\<lambda>_. None))
      (upd t (run_prev_update (\<lambda>_. None)) (s\<lparr>ready_head := None\<rparr>)))"
    have "?n t = Some t" using rot Nil by simp
    then have "ready_remove t s = Some s'" using on t by (simp add: ready_remove_def s'_def)
    moreover have "ready_ok s' []" using on rs Nil by (auto simp: ready_ok_def s'_def upd_def head_of_def)
    moreover have "same_but_ready s s'" unfolding s'_def by (intro same_but_ready_steps same_but_ready_upd(5))
    ultimately show ?thesis using Nil by (simp add: rem)
  next
    case (Cons y ws)
    define l where "l = last (y # ws)"
    have cyc': "cycle ?n ?p (t # y # ws)" and dist': "distinct (t # y # ws)" using rot drot Cons by simp_all
    have n: "?n t = Some y" using cyc' by (simp add: cycle_def)
    have p: "?p t = Some l" using cycle_last [OF cyc'] by (simp add: l_def)
    have neq: "l \<noteq> t" "y \<noteq> t" using dist' last_in_set [of "y # ws"] unfolding l_def by auto
    define s1 where "s1 = upd y (run_prev_update (\<lambda>_. Some l)) (upd l (run_next_update (\<lambda>_. Some y)) s)"
    define s2 where "s2 = (if ready_head s = Some t then s1\<lparr>ready_head := Some y\<rparr> else s1)"
    define s' where "s' = upd t (on_run_queue_update (\<lambda>_. False)) (upd t (run_next_update (\<lambda>_. None))
      (upd t (run_prev_update (\<lambda>_. None)) s2))"
    have run: "ready_remove t s = Some s'"
      using n p neq on t by (simp add: ready_remove_def s'_def s2_def s1_def Let_def) (simp add: upd_def)
    have "same_but_ready s s1" unfolding s1_def by (intro same_but_ready_steps same_but_ready_upd(5))
    then have "same_but_ready s s2" by (auto simp: s2_def intro: same_but_ready_steps)
    then have same: "same_but_ready s s'" unfolding s'_def by (intro same_but_ready_steps)
    have "cycle (\<lambda>t. run_next (thr s' t)) (\<lambda>t. run_prev (thr s' t)) (y # ws)"
      by (rule cycle_tl [OF cyc' dist', folded l_def]) (use neq in \<open>auto simp: s'_def s2_def s1_def upd_def\<close>)
    then have "cycle (\<lambda>t. run_next (thr s' t)) (\<lambda>t. run_prev (thr s' t)) (ys @ zs)"
      using Cons cycle_rotate by metis
    moreover have "\<forall>u. on_run_queue (thr s' u) \<longleftrightarrow> u \<in> set (ys @ zs)"
      using on rs dist by (auto simp: s'_def s2_def s1_def upd_def)
    moreover have "ready_head s' = head_of (ys @ zs)"
      using head rs Cons by (cases ys) (auto simp: s'_def s2_def s1_def upd_def head_of_def)
    ultimately have "ready_ok s' (ys @ zs)" using dist rs by (auto simp: ready_ok_def)
    then show ?thesis using run same by (simp add: rem)
  qed
qed

lemma corres_ready_remove:
  assumes ref: "refines s a"
  shows "corres (ready_remove t s) (a\<lparr>q_ready := remove1 t (q_ready a)\<rparr>)"
proof (cases "t \<in> set (q_ready a)")
  case True
  then show ?thesis
    using ready_remove_ok [of s "q_ready a" t] refines_ready [OF ref] ref
    by (auto simp: corres_def refines_def)
next
  case False
  then show ?thesis
    using refines_thr(8) [OF ref] ref by (auto simp: ready_remove_def corres_def remove1_idem)
qed

lemma corres_ready_pop:
  assumes ref: "refines s a"
  shows "\<exists>s'. ready_pop s = Some (head_of (q_ready a), s') \<and> refines s' (a\<lparr>q_ready := tl (q_ready a)\<rparr>)"
proof (cases "q_ready a")
  case Nil
  have same: "a\<lparr>q_ready := []\<rparr> = a" using Nil by (cases a) simp
  show ?thesis using refines_thr(9) [OF ref] ref Nil by (simp add: ready_pop_def head_of_def same)
next
  case (Cons t ts)
  obtain s' where "ready_remove t s = Some s'" "refines s' (a\<lparr>q_ready := remove1 t (q_ready a)\<rparr>)"
    using corres_ready_remove [OF ref] by (auto simp: corres_def)
  then show ?thesis using refines_thr(9) [OF ref] Cons by (simp add: ready_pop_def head_of_def)
qed

section \<open>The blocked and the sleep list\<close>

interpretation blocked: cursor_list get_blocked put_blocked blocked_remove_loop
proof
  show "get_blocked (put_blocked c v s) d = (if c = d then v else get_blocked s d)" for c v s d
    by (auto simp: get_blocked_def put_blocked_def upd_def split: option.splits)
qed (rule blocked_remove_loop.simps)

interpretation sleeping: cursor_list get_sleep put_sleep sleep_remove_loop
proof
  show "get_sleep (put_sleep c v s) d = (if c = d then v else get_sleep s d)" for c v s d
    by (auto simp: get_sleep_def put_sleep_def upd_def split: option.splits)
qed (rule sleep_remove_loop.simps)

text \<open>Writing the links of one list keeps the others.\<close>

lemma put_blocked_fields [simp]:
  "run_next (thr (put_blocked c v s) t) = run_next (thr s t)" "run_prev (thr (put_blocked c v s) t) = run_prev (thr s t)"
  "on_run_queue (thr (put_blocked c v s) t) = on_run_queue (thr s t)" "sleep_next (thr (put_blocked c v s) t) = sleep_next (thr s t)"
  "attr (thr (put_blocked c v s) t) = attr (thr s t)"
  "ready_head (put_blocked c v s) = ready_head s" "sleep_head (put_blocked c v s) = sleep_head s"
  "same_common (put_blocked c v s) a = same_common s a"
  by (cases c; simp add: put_blocked_def upd_def same_common_def)+

lemma put_blocked_keeps [simp]:
  "ready_ok (put_blocked c v s) rs = ready_ok s rs" "sleep_ok (put_blocked c v s) xs = sleep_ok s xs"
  by (simp_all add: ok_defs)

lemma put_sleep_fields [simp]:
  "run_next (thr (put_sleep c v s) t) = run_next (thr s t)" "run_prev (thr (put_sleep c v s) t) = run_prev (thr s t)"
  "on_run_queue (thr (put_sleep c v s) t) = on_run_queue (thr s t)" "wait_next (thr (put_sleep c v s) t) = wait_next (thr s t)"
  "attr (thr (put_sleep c v s) t) = attr (thr s t)"
  "ready_head (put_sleep c v s) = ready_head s" "blocked_head (put_sleep c v s) = blocked_head s"
  "same_common (put_sleep c v s) a = same_common s a"
  by (cases c; simp add: put_sleep_def upd_def same_common_def)+

lemma put_sleep_keeps [simp]:
  "ready_ok (put_sleep c v s) rs = ready_ok s rs" "blocked_ok (put_sleep c v s) xs = blocked_ok s xs"
  by (simp_all add: ok_defs)

lemma same_common_lists [simp]:
  "same_common s (a\<lparr>q_ready := rs\<rparr>) = same_common s a"
  "same_common s (a\<lparr>q_blocked := rs\<rparr>) = same_common s a"
  "same_common s (a\<lparr>q_sleep := rs\<rparr>) = same_common s a"
  by (simp_all add: same_common_def)

lemma corres_blocked_remove:
  assumes ref: "refines s a"
  shows "corres (blocked_remove t s) (a\<lparr>q_blocked := remove1 t (q_blocked a)\<rparr>)"
proof -
  obtain s' where s': "blocked_remove_loop s t None = Some s'" "blocked_ok s' (remove1 t (q_blocked a))"
    "s' = s \<or> (\<exists>d v. s' = put_blocked (Some t) None (put_blocked d v s))"
    using blocked.remove_from [of s None "q_blocked a" t] ref by (auto simp: refines_def blocked_ok_def)
  then have "refines s' (a\<lparr>q_blocked := remove1 t (q_blocked a)\<rparr>)"
    using ref by (auto simp: refines_def)
  then show ?thesis using s'(1) by (simp add: corres_def blocked_remove_def)
qed

lemma corres_sleep_remove:
  assumes ref: "refines s a"
  shows "corres (sleep_remove t s) (a\<lparr>q_sleep := remove1 t (q_sleep a)\<rparr>)"
proof -
  obtain s' where s': "sleep_remove_loop s t None = Some s'" "sleep_ok s' (remove1 t (q_sleep a))"
    "s' = s \<or> (\<exists>d v. s' = put_sleep (Some t) None (put_sleep d v s))"
    using sleeping.remove_from [of s None "q_sleep a" t] ref by (auto simp: refines_def sleep_ok_def)
  then have "refines s' (a\<lparr>q_sleep := remove1 t (q_sleep a)\<rparr>)"
    using ref by (auto simp: refines_def)
  then show ?thesis using s'(1) by (simp add: corres_def sleep_remove_def)
qed

section \<open>Switching and rescheduling\<close>

lemma refines_switch:
  assumes "refines s a"
  shows "refines (switch_to n s) (spec_switch n a)"
proof -
  note same = refines_same [OF assms] refines_thr [OF assms]
  show ?thesis
  proof (cases "case n of None \<Rightarrow> idle a | Some t \<Rightarrow> Some t")
    case None
    then show ?thesis using assms by (cases n) (simp_all add: switch_to_def spec_switch_def same)
  next
    case (Some t)
    show ?thesis
    proof (cases "current a = Some t")
      case True
      then show ?thesis
        using Some assms by (cases n) (auto simp: switch_to_def spec_switch_def same)
    next
      case False
      have "refines (upd t (switches_update (\<lambda>n. n + 1)) (upd t (quantum_left_update (\<lambda>_. quantum_ticks a))
          (upd t (t_state_update (\<lambda>_. NS_THREAD_RUNNING)) s)))
        (aupd t (switches_update (\<lambda>n. n + 1)) (aupd t (quantum_left_update (\<lambda>_. quantum_ticks a))
          (aupd t (t_state_update (\<lambda>_. NS_THREAD_RUNNING)) a)))" (is "refines ?s ?a")
        using assms by (intro refines_attrs)
      then have "refines (?s\<lparr>current := Some t, context_switches := context_switches a + 1\<rparr>)
          (?a\<lparr>current := Some t, context_switches := context_switches a + 1\<rparr>)"
        by (intro refines_fields)
      note this refines_fields(9) [OF this]
      moreover have "ops ?s = ops a" "ops ?a = ops a" "calls ?s = calls a" "calls ?a = calls a"
        "context_switches ?s = context_switches a" "context_switches ?a = context_switches a"
        "quantum_ticks (upd t (t_state_update (\<lambda>_. NS_THREAD_RUNNING)) s) = quantum_ticks a"
        "quantum_ticks (aupd t (t_state_update (\<lambda>_. NS_THREAD_RUNNING)) a) = quantum_ticks a"
        by (simp_all add: upd_def aupd_def same)
      ultimately show ?thesis
        using Some False by (cases n) (simp_all add: switch_to_def spec_switch_def Let_def same)
    qed
  qed
qed

definition spec_wf :: "sched_spec \<Rightarrow> bool" where
  "spec_wf a \<longleftrightarrow>
     distinct (q_ready a) \<and> distinct (q_blocked a) \<and> distinct (q_sleep a) \<and>
     (\<forall>t \<in> set (q_ready a). t_state (q_thr a t) = NS_THREAD_READY) \<and>
     (\<forall>t \<in> set (q_blocked a). t_state (q_thr a t) = NS_THREAD_BLOCKED) \<and>
     (\<forall>t \<in> set (q_sleep a). t_state (q_thr a t) = NS_THREAD_SLEEPING) \<and>
     sorted (map (\<lambda>t. wake_deadline_ns (q_thr a t)) (q_sleep a)) \<and>
     (\<forall>i. idle a = Some i \<longrightarrow> i \<notin> set (q_ready a) \<and> t_flags (q_thr a i) AND NS_THREAD_IDLE \<noteq> 0 \<and>
        t_state (q_thr a i) \<in> {NS_THREAD_READY, NS_THREAD_RUNNING})"

lemma corres_requeue:
  assumes ref: "refines s a" and wf: "spec_wf a" and someone: "current a \<noteq> None \<or> idle a \<noteq> None"
  shows "corres (if current s \<noteq> None \<and> current s \<noteq> idle s \<and>
                    t_state (thr s (the (current s))) = NS_THREAD_RUNNING
                 then ready_insert_tail (the (current s))
                        (upd (the (current s)) (t_state_update (\<lambda>_. NS_THREAD_READY)) s)
                 else if current s = idle s
                 then do { t \<leftarrow> current s; Some (upd t (t_state_update (\<lambda>_. NS_THREAD_READY)) s) }
                 else Some s) (spec_requeue a)"
proof (cases "current a")
  case None
  then show ?thesis using someone ref by (auto simp: spec_requeue_def refines_same [OF ref] corres_def)
next
  case (Some t)
  have up: "refines (upd t (t_state_update (\<lambda>_. NS_THREAD_READY)) s)
      (aupd t (t_state_update (\<lambda>_. NS_THREAD_READY)) a)"
    using ref by (rule refines_attrs)
  show ?thesis
  proof (cases "Some t \<noteq> idle a \<and> t_state (q_thr a t) = NS_THREAD_RUNNING")
    case True
    then have "t \<notin> set (q_ready (aupd t (t_state_update (\<lambda>_. NS_THREAD_READY)) a))"
      using wf by (auto simp: spec_wf_def aupd_def)
    from corres_insert_tail [OF up this] show ?thesis
      using Some True by (simp add: spec_requeue_def refines_same [OF ref] refines_thr [OF ref] aupd_def)
  next
    case False
    then show ?thesis
      using Some up ref
      by (cases "idle a = Some t")
        (auto simp: spec_requeue_def refines_same [OF ref] refines_thr [OF ref] intro!: corresI)
  qed
qed

lemma spec_requeue_keeps [simp]:
  "idle (spec_requeue a) = idle a" "current (spec_requeue a) = current a"
  "preempt_disable_depth (spec_requeue a) = preempt_disable_depth a"
  by (auto simp: spec_requeue_def aupd_def split: option.splits)

lemma critical_keeps [simp]:
  "current (enter_critical a) = current a" "idle (enter_critical a) = idle a"
  "preempt_disable_depth (enter_critical a) = preempt_disable_depth a"
  "reschedule_pending (enter_critical a) = reschedule_pending a"
  "quantum_ticks (enter_critical a) = quantum_ticks a" "wakeups (enter_critical a) = wakeups a"
  "ticks (enter_critical a) = ticks a" "ops (enter_critical a) = ops a"
  "current (leave_critical a) = current a" "idle (leave_critical a) = idle a"
  "preempt_disable_depth (leave_critical a) = preempt_disable_depth a"
  "reschedule_pending (leave_critical a) = reschedule_pending a"
  "wakeups (leave_critical a) = wakeups a" "ops (leave_critical a) = ops a"
  by (simp_all add: enter_critical_def leave_critical_def)

lemma critical_lists [simp]:
  "q_ready (enter_critical a) = q_ready a" "q_blocked (enter_critical a) = q_blocked a"
  "q_sleep (enter_critical a) = q_sleep a" "q_thr (enter_critical a) = q_thr a"
  "q_ready (leave_critical a) = q_ready a" "q_blocked (leave_critical a) = q_blocked a"
  "q_sleep (leave_critical a) = q_sleep a" "q_thr (leave_critical a) = q_thr a"
  by (simp_all add: enter_critical_def leave_critical_def)

lemma spec_wf_critical [simp]:
  "spec_wf (enter_critical a) = spec_wf a" "spec_wf (leave_critical a) = spec_wf a"
  by (simp_all add: spec_wf_def)

theorem corres_reschedule:
  assumes ref: "refines s a" and wf: "spec_wf a" and someone: "current a \<noteq> None \<or> idle a \<noteq> None"
  shows "corres (ns_sched_reschedule s) (spec_reschedule a)"
proof -
  let ?s = "enter_critical s" and ?a = "enter_critical a"
  have ref1: "refines ?s ?a" using ref by (rule refines_enter)
  show ?thesis
  proof (cases "preempt_disable_depth a = 0")
    case False
    then show ?thesis
      using refines_leave [OF refines_fields(4) [OF ref1, of True]]
      by (simp add: ns_sched_reschedule_def spec_reschedule_def Let_def refines_same [OF ref] corres_def)
  next
    case True
    obtain s2 where s2: "refines s2 (spec_requeue ?a)" and run2: "
        (if current ?s \<noteq> None \<and> current ?s \<noteq> idle ?s \<and> t_state (thr ?s (the (current ?s))) = NS_THREAD_RUNNING
         then ready_insert_tail (the (current ?s)) (upd (the (current ?s)) (t_state_update (\<lambda>_. NS_THREAD_READY)) ?s)
         else if current ?s = idle ?s
         then do { t \<leftarrow> current ?s; Some (upd t (t_state_update (\<lambda>_. NS_THREAD_READY)) ?s) }
         else Some ?s) = Some s2"
      using corres_requeue [OF ref1] wf someone unfolding corres_def by auto
    let ?b = "spec_requeue ?a"
    obtain s3 where s3: "ready_pop s2 = Some (head_of (q_ready ?b), s3)"
      "refines s3 (?b\<lparr>q_ready := tl (q_ready ?b)\<rparr>)"
      using corres_ready_pop [OF s2] by blast
    have idle3: "idle s3 = idle ?b" using refines_same(3) [OF s3(2)] by simp
    have "refines (leave_critical (switch_to n (s3\<lparr>reschedule_pending := False\<rparr>)))
        (leave_critical (spec_switch n (?b\<lparr>q_ready := tl (q_ready ?b), reschedule_pending := False\<rparr>)))" for n
      by (intro refines_leave refines_switch refines_fields s3)
    moreover have "ns_sched_reschedule s = Some (leave_critical (switch_to
        (case head_of (q_ready ?b) of None \<Rightarrow> idle ?b | Some t \<Rightarrow> Some t) (s3\<lparr>reschedule_pending := False\<rparr>)))"
      using True unfolding ns_sched_reschedule_def Let_def run2 idle3 [symmetric]
      by (simp add: s3(1) refines_same [OF ref])
    moreover have "spec_dispatch ?b = spec_switch (case head_of (q_ready ?b) of None \<Rightarrow> idle ?b | Some t \<Rightarrow> Some t)
        (?b\<lparr>q_ready := tl (q_ready ?b), reschedule_pending := False\<rparr>)"
    proof (cases "q_ready ?b")
      case Nil
      moreover have e: "?b\<lparr>q_ready := [], reschedule_pending := False\<rparr> = ?b\<lparr>reschedule_pending := False\<rparr>"
        using Nil by (cases ?b) simp
      ultimately show ?thesis by (simp add: spec_dispatch_def head_of_def e)
    qed (simp add: spec_dispatch_def head_of_def)
    ultimately show ?thesis
      using True by (simp add: spec_reschedule_def Let_def corres_def)
  qed
qed

section \<open>The other operations\<close>

lemma aupd_keeps [simp]:
  "q_ready (aupd t f a) = q_ready a" "q_blocked (aupd t f a) = q_blocked a"
  "q_sleep (aupd t f a) = q_sleep a" "current (aupd t f a) = current a" "idle (aupd t f a) = idle a"
  "preempt_disable_depth (aupd t f a) = preempt_disable_depth a"
  "reschedule_pending (aupd t f a) = reschedule_pending a" "wakeups (aupd t f a) = wakeups a"
  "quantum_ticks (aupd t f a) = quantum_ticks a" "idle_ticks (aupd t f a) = idle_ticks a"
  "q_thr (aupd t f a) u = (if u = t then f (q_thr a t) else q_thr a u)"
  by (simp_all add: aupd_def)

lemma corres_make_ready:
  assumes ref: "refines s a" and new: "t \<notin> set (q_ready a)"
  shows "corres (ready_insert_tail t (upd t (t_state_update (\<lambda>_. NS_THREAD_READY)) s)) (spec_make_ready t a)"
  using corres_insert_tail [OF refines_attrs(1) [OF ref, of t "\<lambda>_. NS_THREAD_READY"], of t] new
  by (simp add: spec_make_ready_def)

lemma corres_unwait:
  assumes ref: "refines s a"
  shows "corres (do { s \<leftarrow> blocked_remove t s; s \<leftarrow> sleep_remove t s;
            Some (upd t (wait_key_update (\<lambda>_. 0)) (upd t (wait_kind_update (\<lambda>_. NS_WAIT_NONE)) s)) })
          (spec_unwait t a)"
proof -
  obtain s1 where s1: "blocked_remove t s = Some s1" "refines s1 (a\<lparr>q_blocked := remove1 t (q_blocked a)\<rparr>)"
    using corres_blocked_remove [OF ref] by (auto simp: corres_def)
  then obtain s2 where s2: "sleep_remove t s1 = Some s2"
    "refines s2 (a\<lparr>q_blocked := remove1 t (q_blocked a), q_sleep := remove1 t (q_sleep a)\<rparr>)"
    using corres_sleep_remove [OF s1(2), of t] by (auto simp: corres_def)
  then show ?thesis using s1(1) by (auto simp: corres_def spec_unwait_def)
qed

lemma corres_add:
  assumes ref: "refines s a"
  shows "\<exists>r s'. ns_sched_add t s = Some (r, s') \<and> refines s' (spec_add t a)"
proof -
  let ?s = "enter_critical s" and ?a = "enter_critical a"
  have ref1: "refines ?s ?a" using ref by (rule refines_enter)
  note eqs = refines_thr [OF ref1]
  show ?thesis
  proof (cases "t \<in> set (q_ready a) \<or> t_state (q_thr a t) = NS_THREAD_RUNNING \<or>
         t_state (q_thr a t) = NS_THREAD_ZOMBIE \<or> t_flags (q_thr a t) AND NS_THREAD_IDLE \<noteq> 0")
    case True
    then show ?thesis
      using refines_leave [OF ref1] by (simp add: ns_sched_add_def spec_add_def Let_def eqs)
  next
    case False
    obtain s1 where s1: "do { s \<leftarrow> blocked_remove t ?s; s \<leftarrow> sleep_remove t s;
            Some (upd t (wait_key_update (\<lambda>_. 0)) (upd t (wait_kind_update (\<lambda>_. NS_WAIT_NONE)) s)) } = Some s1"
      "refines s1 (spec_unwait t ?a)"
      using corres_unwait [OF ref1] by (auto simp: corres_def)
    obtain s2 where s2: "ready_insert_tail t (upd t (t_state_update (\<lambda>_. NS_THREAD_READY)) s1) = Some s2"
      "refines s2 (spec_make_ready t (spec_unwait t ?a))"
      using corres_make_ready [OF s1(2), of t] False by (auto simp: corres_def spec_unwait_def)
    have "ns_sched_add t s = Some (Ok (), leave_critical s2)"
      using False s1(1) s2(1)
      by (auto simp: ns_sched_add_def Let_def eqs bind_eq_Some_conv)
    then show ?thesis using False refines_leave [OF s2(2)] by (simp add: spec_add_def Let_def)
  qed
qed

lemma corres_wake_thread:
  assumes ref: "refines s a" and wf: "spec_wf a"
  shows "\<exists>r s'. ns_sched_wake_thread t s = Some (r, s') \<and> refines s' (spec_wake_thread t a)"
proof -
  let ?s = "enter_critical s" and ?a = "enter_critical a"
  have ref1: "refines ?s ?a" using ref by (rule refines_enter)
  note eqs = refines_thr [OF ref1]
  show ?thesis
  proof (cases "t_state (q_thr a t) \<noteq> NS_THREAD_BLOCKED \<and> t_state (q_thr a t) \<noteq> NS_THREAD_SLEEPING")
    case True
    then show ?thesis
      using refines_leave [OF ref1] by (simp add: ns_sched_wake_thread_def spec_wake_thread_def Let_def eqs)
  next
    case False
    then have new: "t \<notin> set (q_ready a)" using wf by (auto simp: spec_wf_def)
    obtain s1 where s1: "do { s \<leftarrow> blocked_remove t ?s; s \<leftarrow> sleep_remove t s;
            Some (upd t (wait_key_update (\<lambda>_. 0)) (upd t (wait_kind_update (\<lambda>_. NS_WAIT_NONE)) s)) } = Some s1"
      "refines s1 (spec_unwait t ?a)"
      using corres_unwait [OF ref1] by (auto simp: corres_def)
    let ?s1 = "upd t (wake_deadline_ns_update (\<lambda>_. 0)) s1"
    let ?a1 = "aupd t (wake_deadline_ns_update (\<lambda>_. 0)) (spec_unwait t ?a)"
    have "refines ?s1 ?a1" using s1(2) by (rule refines_attrs)
    then obtain s2 where s2: "ready_insert_tail t (upd t (t_state_update (\<lambda>_. NS_THREAD_READY)) ?s1) = Some s2"
      "refines s2 (spec_make_ready t ?a1)"
      using corres_make_ready [of ?s1 ?a1 t] new by (auto simp: corres_def spec_unwait_def)
    have "ns_sched_wake_thread t s = Some (Ok (), leave_critical (s2\<lparr>wakeups := wakeups s2 + 1\<rparr>))"
      using False s1(1) s2(1)
      by (auto simp: ns_sched_wake_thread_def Let_def eqs bind_eq_Some_conv)
    then show ?thesis
      using False refines_leave [OF refines_fields(8) [OF s2(2)]] refines_same(10) [OF s2(2)]
      by (auto simp: spec_wake_thread_def Let_def)
  qed
qed

lemma corres_remove:
  assumes ref: "refines s a"
  shows "\<exists>r s'. ns_sched_remove t s = Some (r, s') \<and> refines s' (spec_remove t a)"
proof -
  let ?s = "enter_critical s" and ?a = "enter_critical a"
  have ref1: "refines ?s ?a" using ref by (rule refines_enter)
  obtain s1 where s1: "ready_remove t ?s = Some s1" "refines s1 (?a\<lparr>q_ready := remove1 t (q_ready a)\<rparr>)"
    using corres_ready_remove [OF ref1] by (auto simp: corres_def)
  obtain s2 where s2: "blocked_remove t s1 = Some s2"
    "refines s2 (?a\<lparr>q_ready := remove1 t (q_ready a), q_blocked := remove1 t (q_blocked a)\<rparr>)"
    using corres_blocked_remove [OF s1(2), of t] by (auto simp: corres_def)
  obtain s3 where s3: "sleep_remove t s2 = Some s3"
    "refines s3 (?a\<lparr>q_ready := remove1 t (q_ready a), q_blocked := remove1 t (q_blocked a),
       q_sleep := remove1 t (q_sleep a)\<rparr>)"
    using corres_sleep_remove [OF s2(2), of t] by (auto simp: corres_def)
  have "current s3 = current a" using refines_same(2) [OF s3(2)] by simp
  then show ?thesis
    using s1(1) s2(1) s3 refines_fields(4) [OF s3(2), of True]
    by (auto simp: ns_sched_remove_def spec_remove_def Let_def)
qed

lemma corres_set_idle:
  assumes ref: "refines s a"
  shows "refines (snd (ns_sched_set_idle t s)) (spec_set_idle t a)"
proof -
  have ref1: "refines (enter_critical s) (enter_critical a)" using ref by (rule refines_enter)
  have q: "quantum_ticks (upd t f x) = quantum_ticks x" for f x by (simp add: upd_def)
  show ?thesis
    unfolding ns_sched_set_idle_def spec_set_idle_def Let_def refines_same(3) [OF ref1] refines_thr(8) [OF ref1]
    using ref1 refines_same(4) [OF ref1]
    by (auto simp: q intro!: refines_leave refines_fields refines_attrs)
qed

lemma make_ready_keeps [simp]:
  "q_blocked (spec_make_ready t a) = q_blocked a" "q_sleep (spec_make_ready t a) = q_sleep a"
  "q_ready (spec_make_ready t a) = q_ready a @ [t]" "wakeups (spec_make_ready t a) = wakeups a"
  "current (spec_make_ready t a) = current a" "idle (spec_make_ready t a) = idle a"
  "q_thr (spec_make_ready t a) u =
     (if u = t then (q_thr a t)\<lparr>t_state := NS_THREAD_READY\<rparr> else q_thr a u)"
  by (simp_all add: spec_make_ready_def)

subsection \<open>Timer ticks\<close>

text \<open>Unlinking the first sleeper.\<close>

lemma refines_sleep_tl:
  assumes ref: "refines s a" and ss: "q_sleep a = t # ts"
  shows "refines (upd t (sleep_next_update (\<lambda>_. None)) (s\<lparr>sleep_head := sleep_next (thr s t)\<rparr>))
           (a\<lparr>q_sleep := ts\<rparr>)"
proof -
  have p: "path (\<lambda>t. get_sleep s (Some t)) (get_sleep s None) (t # ts)"
    using ref ss by (simp add: refines_def sleep_ok_def)
  then have "t \<notin> set ts" using path_distinct by fastforce
  let ?s = "put_sleep (Some t) None (put_sleep None (get_sleep s (Some t)) s)"
  have "?s = upd t (sleep_next_update (\<lambda>_. None)) (s\<lparr>sleep_head := sleep_next (thr s t)\<rparr>)"
    by (simp add: put_sleep_def get_sleep_def)
  moreover have "sleep_ok ?s ts"
    unfolding sleep_ok_def
    using p \<open>t \<notin> set ts\<close> sleeping.path_put [of "Some t" ts None] sleeping.path_put [of None ts]
    by (simp add: sleeping.get_put image_iff)
  then have "refines ?s (a\<lparr>q_sleep := ts\<rparr>)" using ref by (simp add: refines_def)
  ultimately show ?thesis by simp
qed

lemma corres_tick_wake:
  assumes "refines s a" and "distinct (q_sleep a)" and "set (q_sleep a) \<inter> set (q_ready a) = {}"
  shows "corres (tick_wake_loop now s) (spec_wake_due (q_sleep a) now a)"
  using assms
proof (induction "q_sleep a" arbitrary: s a)
  case Nil
  then have "sleep_head s = None" by (simp add: refines_def sleep_ok_def get_sleep_def)
  then show ?case using Nil by (subst tick_wake_loop.simps) (simp flip: Nil.hyps add: corresI)
next
  case (Cons t ts)
  have ss: "q_sleep a = t # ts" using Cons.hyps(2) by simp
  have head: "sleep_head s = Some t" using Cons.prems(1) ss by (simp add: refines_def sleep_ok_def get_sleep_def)
  show ?case
  proof (cases "wake_deadline_ns (q_thr a t) \<le> now")
    case False
    then show ?thesis
      using Cons.prems head
      by (subst tick_wake_loop.simps) (simp add: ss refines_thr [OF Cons.prems(1)] corresI)
  next
    case True
    let ?s1 = "upd t (wake_deadline_ns_update (\<lambda>_. 0))
      (upd t (sleep_next_update (\<lambda>_. None)) (s\<lparr>sleep_head := sleep_next (thr s t)\<rparr>))"
    let ?a1 = "aupd t (wake_deadline_ns_update (\<lambda>_. 0)) (a\<lparr>q_sleep := ts\<rparr>)"
    have "refines ?s1 ?a1" by (intro refines_attrs refines_sleep_tl Cons.prems ss)
    then obtain s2 where s2: "ready_insert_tail t (upd t (t_state_update (\<lambda>_. NS_THREAD_READY)) ?s1) = Some s2"
      "refines s2 (spec_make_ready t ?a1)"
      using corres_make_ready [of ?s1 ?a1 t] Cons.prems(3) ss by (auto simp: corres_def)
    let ?a2 = "(spec_make_ready t ?a1)\<lparr>wakeups := wakeups a + 1\<rparr>"
    have ref2: "refines (s2\<lparr>wakeups := wakeups s2 + 1\<rparr>) ?a2"
      using refines_fields(8) [OF s2(2)] refines_same(10) [OF s2(2)] by simp
    have "corres (tick_wake_loop now (s2\<lparr>wakeups := wakeups s2 + 1\<rparr>)) (spec_wake_due ts now ?a2)"
      using Cons.hyps(1) [OF _ ref2] Cons.prems ss by auto
    moreover have "tick_wake_loop now s = tick_wake_loop now (s2\<lparr>wakeups := wakeups s2 + 1\<rparr>)"
      using head True s2(1)
      by (subst tick_wake_loop.simps) (simp add: refines_thr [OF Cons.prems(1)] Let_def)
    ultimately show ?thesis using True by (simp add: ss)
  qed
qed

lemma head_of_None [simp]: "head_of xs = None \<longleftrightarrow> xs = []"
  by (cases xs) (simp_all add: head_of_def)

lemma refines_account:
  assumes "refines s a"
  shows "refines (tick_account s) (spec_account a)"
proof -
  let ?s = "if current s = idle s \<and> ready_head s \<noteq> None then s\<lparr>reschedule_pending := True\<rparr> else s"
  let ?a = "if current a = idle a \<and> q_ready a \<noteq> [] then a\<lparr>reschedule_pending := True\<rparr> else a"
  have ref: "refines ?s ?a"
    using assms refines_same [OF assms] refines_thr(9) [OF assms] by (auto intro: refines_fields)
  note same = refines_same [OF ref]
  show ?thesis
  proof (cases "current ?a = idle ?a \<or> current ?a = None")
    case True
    then show ?thesis
      using ref refines_fields(7) [OF ref] same
      unfolding tick_account_def spec_account_def Let_def by (cases "current ?a = idle ?a") simp_all
  next
    case False
    then obtain t where t: "current ?a = Some t" "Some t \<noteq> idle ?a" by auto
    let ?s1 = "upd t (runtime_ticks_update (\<lambda>n. n + 1)) ?s" and ?a1 = "aupd t (runtime_ticks_update (\<lambda>n. n + 1)) ?a"
    let ?s2 = "if quantum_left (thr ?s1 t) \<noteq> 0 then upd t (quantum_left_update (\<lambda>n. n - 1)) ?s1 else ?s1"
    let ?a2 = "if quantum_left (q_thr ?a1 t) \<noteq> 0 then aupd t (quantum_left_update (\<lambda>n. n - 1)) ?a1 else ?a1"
    have ref1: "refines ?s1 ?a1" using ref by (rule refines_attrs)
    have ref2: "refines ?s2 ?a2"
      unfolding refines_thr(3) [OF ref1] using ref1 refines_attrs(3) [OF ref1] by auto
    have "refines (if quantum_left (thr ?s2 t) = 0 then ?s2\<lparr>reschedule_pending := True\<rparr> else ?s2)
        (if quantum_left (q_thr ?a2 t) = 0 then ?a2\<lparr>reschedule_pending := True\<rparr> else ?a2)"
      unfolding refines_thr(3) [OF ref2] using ref2 refines_fields(4) [OF ref2] by auto
    moreover have "tick_account s = (if quantum_left (thr ?s2 t) = 0 then ?s2\<lparr>reschedule_pending := True\<rparr> else ?s2)"
      using t same unfolding tick_account_def Let_def by (simp only: option.case) simp
    moreover have "spec_account a = (if quantum_left (q_thr ?a2 t) = 0 then ?a2\<lparr>reschedule_pending := True\<rparr> else ?a2)"
      using t unfolding spec_account_def Let_def by (simp only: option.case) simp
    ultimately show ?thesis by simp
  qed
qed

section \<open>Well-formed queues are preserved\<close>

lemma spec_wfD:
  assumes "spec_wf a"
  shows "t \<in> set (q_ready a) \<Longrightarrow> t_state (q_thr a t) = NS_THREAD_READY"
    and "t \<in> set (q_blocked a) \<Longrightarrow> t_state (q_thr a t) = NS_THREAD_BLOCKED"
    and "t \<in> set (q_sleep a) \<Longrightarrow> t_state (q_thr a t) = NS_THREAD_SLEEPING"
    and "idle a = Some i \<Longrightarrow> i \<notin> set (q_ready a)"
    and "idle a = Some i \<Longrightarrow> t_flags (q_thr a i) AND NS_THREAD_IDLE \<noteq> 0"
    and "idle a = Some i \<Longrightarrow> t_state (q_thr a i) \<in> {NS_THREAD_READY, NS_THREAD_RUNNING}"
  using assms by (auto simp: spec_wf_def)

text \<open>Fields the invariant does not mention.\<close>

lemma spec_wf_fields [simp]:
  "spec_wf (a\<lparr>current := v1\<rparr>) = spec_wf a" "spec_wf (a\<lparr>preempt_disable_depth := v2\<rparr>) = spec_wf a"
  "spec_wf (a\<lparr>reschedule_pending := v3\<rparr>) = spec_wf a" "spec_wf (a\<lparr>ticks := v4\<rparr>) = spec_wf a"
  "spec_wf (a\<lparr>context_switches := v4\<rparr>) = spec_wf a" "spec_wf (a\<lparr>idle_ticks := v4\<rparr>) = spec_wf a"
  "spec_wf (a\<lparr>wakeups := v4\<rparr>) = spec_wf a" "spec_wf (a\<lparr>calls := v5\<rparr>) = spec_wf a"
  by (simp_all add: spec_wf_def)

lemma spec_wf_same:
  assumes "q_ready b = q_ready a" "q_blocked b = q_blocked a" "q_sleep b = q_sleep a" "idle b = idle a"
    and "\<And>u. t_state (q_thr b u) = t_state (q_thr a u)" "\<And>u. t_flags (q_thr b u) = t_flags (q_thr a u)"
    and "\<And>u. wake_deadline_ns (q_thr b u) = wake_deadline_ns (q_thr a u)"
  shows "spec_wf b = spec_wf a"
  using assms by (simp add: spec_wf_def)

lemma spec_wf_attrs [simp]:
  "spec_wf (aupd t (quantum_left_update h2) a) = spec_wf a"
  "spec_wf (aupd t (switches_update h3) a) = spec_wf a"
  "spec_wf (aupd t (runtime_ticks_update h3) a) = spec_wf a"
  "spec_wf (aupd t (wait_kind_update h4) a) = spec_wf a"
  "spec_wf (aupd t (wait_key_update h3) a) = spec_wf a"
  by (rule spec_wf_same; simp)+

lemma spec_wf_outside:
  assumes "spec_wf a" and "t \<notin> set (q_ready a)" "t \<notin> set (q_blocked a)" "t \<notin> set (q_sleep a)"
    and "idle a = Some t \<Longrightarrow> t_flags (f (q_thr a t)) AND NS_THREAD_IDLE \<noteq> 0 \<and>
      t_state (f (q_thr a t)) \<in> {NS_THREAD_READY, NS_THREAD_RUNNING}"
  shows "spec_wf (aupd t f a)"
proof -
  have m: "map (\<lambda>u. wake_deadline_ns (q_thr (aupd t f a) u)) (q_sleep a) = map (\<lambda>u. wake_deadline_ns (q_thr a u)) (q_sleep a)"
    using assms(4) by (intro map_cong) auto
  show ?thesis using assms unfolding spec_wf_def aupd_keeps(1-5) m by auto
qed

text \<open>A thread outside the queues, in particular any running or terminated one.\<close>

definition queued :: "sched_spec \<Rightarrow> tref \<Rightarrow> bool" where
  "queued a t \<longleftrightarrow> t \<in> set (q_ready a) \<union> set (q_blocked a) \<union> set (q_sleep a)"

lemma running_not_queued:
  "spec_wf a \<Longrightarrow> t_state (q_thr a t) = NS_THREAD_RUNNING \<Longrightarrow> \<not> queued a t"
  by (auto simp: queued_def dest: spec_wfD)

lemma idle_not_queued: "spec_wf a \<Longrightarrow> idle a = Some t \<Longrightarrow> \<not> queued a t"
  by (auto simp: queued_def spec_wf_def)

lemma spec_wf_make_ready:
  assumes wf: "spec_wf a" and "\<not> queued a t" and "idle a \<noteq> Some t"
  shows "spec_wf (spec_make_ready t a)"
proof -
  have "spec_wf (aupd t (t_state_update (\<lambda>_. NS_THREAD_READY)) a)"
    using assms by (intro spec_wf_outside) (auto simp: queued_def)
  then show ?thesis
    using assms by (auto simp: spec_wf_def spec_make_ready_def queued_def)
qed

lemma spec_wf_remove1:
  assumes "spec_wf a"
  shows "spec_wf (a\<lparr>q_ready := remove1 t (q_ready a)\<rparr>)" "spec_wf (a\<lparr>q_blocked := remove1 t (q_blocked a)\<rparr>)"
    "spec_wf (a\<lparr>q_sleep := remove1 t (q_sleep a)\<rparr>)"
proof -
  have "sorted (map (\<lambda>u. wake_deadline_ns (q_thr a u)) (remove1 t xs))"
    if "sorted (map (\<lambda>u. wake_deadline_ns (q_thr a u)) xs)" for xs
    using that by (induction xs) (auto dest: notin_set_remove1)
  then show "spec_wf (a\<lparr>q_ready := remove1 t (q_ready a)\<rparr>)" "spec_wf (a\<lparr>q_blocked := remove1 t (q_blocked a)\<rparr>)"
    "spec_wf (a\<lparr>q_sleep := remove1 t (q_sleep a)\<rparr>)"
    using assms by (auto simp: spec_wf_def dest: notin_set_remove1)
qed

lemma spec_wf_unwait:
  assumes wf: "spec_wf a"
  shows "spec_wf (spec_unwait t a)" and "t \<notin> set (q_ready a) \<Longrightarrow> \<not> queued (spec_unwait t a) t"
proof -
  show "spec_wf (spec_unwait t a)"
    using spec_wf_remove1(3) [OF spec_wf_remove1(2) [OF wf, of t], of t] by (simp add: spec_unwait_def)
  show "t \<notin> set (q_ready a) \<Longrightarrow> \<not> queued (spec_unwait t a) t"
    using wf by (auto simp: queued_def spec_unwait_def spec_wf_def)
qed

lemma unwait_keeps [simp]:
  "idle (spec_unwait t a) = idle a" "current (spec_unwait t a) = current a"
  "t_state (q_thr (spec_unwait t a) u) = t_state (q_thr a u)"
  by (simp_all add: spec_unwait_def)

lemma spec_wf_wake_due:
  assumes "spec_wf a"
  shows "spec_wf (spec_wake_due (q_sleep a) now a)"
  using assms
proof (induction "q_sleep a" arbitrary: a)
  case Nil
  then show ?case by (simp flip: Nil.hyps)
next
  case (Cons t ts)
  have ss: "q_sleep a = t # ts" using Cons.hyps(2) by simp
  let ?b = "(spec_make_ready t (aupd t (wake_deadline_ns_update (\<lambda>_. 0)) (a\<lparr>q_sleep := ts\<rparr>)))
               \<lparr>wakeups := wakeups a + 1\<rparr>"
  have st: "t_state (q_thr a t) = NS_THREAD_SLEEPING" using Cons.prems ss by (auto simp: spec_wf_def)
  have "spec_wf (a\<lparr>q_sleep := ts\<rparr>)" using spec_wf_remove1(3) [OF Cons.prems, of t] ss by simp
  moreover have nq: "\<not> queued (a\<lparr>q_sleep := ts\<rparr>) t"
    using Cons.prems ss st spec_wfD(1,2) [OF Cons.prems, of t] by (auto simp: queued_def spec_wf_def)
  moreover have ni: "idle a \<noteq> Some t" using st spec_wfD(6) [OF Cons.prems] by auto
  ultimately have "spec_wf (aupd t (wake_deadline_ns_update (\<lambda>_. 0)) (a\<lparr>q_sleep := ts\<rparr>))"
    by (intro spec_wf_outside) (auto simp: queued_def)
  then have "spec_wf ?b"
    using nq ni by (simp add: spec_wf_make_ready queued_def)
  then have "spec_wf (spec_wake_due ts now ?b)" using Cons.hyps(1) [of ?b] by simp
  then show ?case using Cons.prems by (simp add: ss)
qed

lemma spec_wf_account:
  assumes "spec_wf a"
  shows "spec_wf (spec_account a)"
  using assms by (auto simp: spec_account_def Let_def split: option.splits)

lemma spec_wf_requeue:
  assumes wf: "spec_wf a"
  shows "spec_wf (spec_requeue a)"
proof (cases "current a")
  case (Some t)
  show ?thesis
  proof (cases "idle a = Some t")
    case True
    then have "spec_wf (aupd t (t_state_update (\<lambda>_. NS_THREAD_READY)) a)"
      using wf idle_not_queued [OF wf True] spec_wfD(5) [OF wf True]
      by (intro spec_wf_outside) (auto simp: queued_def)
    then show ?thesis using Some True by (simp add: spec_requeue_def)
  next
    case False
    then show ?thesis
      using Some wf spec_wf_make_ready [OF wf running_not_queued [OF wf]]
      by (auto simp: spec_requeue_def spec_make_ready_def)
  qed
qed (use wf in \<open>simp add: spec_requeue_def\<close>)

lemma spec_wf_switch:
  assumes wf: "spec_wf a" and nq: "\<And>t. n = Some t \<Longrightarrow> \<not> queued a t"
  shows "spec_wf (spec_switch n a)"
proof (cases "case n of None \<Rightarrow> idle a | Some t \<Rightarrow> Some t")
  case (Some t)
  have "\<not> queued a t" using Some nq idle_not_queued [OF wf] by (cases n) auto
  then have "spec_wf (aupd t (t_state_update (\<lambda>_. NS_THREAD_RUNNING)) a)"
    using wf spec_wfD(5) [OF wf] by (intro spec_wf_outside) (auto simp: queued_def)
  then show ?thesis using Some by (cases n) (auto simp: spec_switch_def Let_def)
qed (use wf in \<open>auto simp: spec_switch_def split: option.splits\<close>)

lemma spec_wf_reschedule:
  assumes wf: "spec_wf a"
  shows "spec_wf (spec_reschedule a)"
proof -
  let ?b = "spec_requeue (enter_critical a)"
  have wfb: "spec_wf ?b" using wf by (simp add: spec_wf_requeue)
  have "spec_wf (spec_dispatch ?b)"
  proof (cases "q_ready ?b")
    case Nil
    then show ?thesis
      unfolding spec_dispatch_def using wfb idle_not_queued [OF wfb]
      by (auto intro!: spec_wf_switch simp: queued_def)
  next
    case (Cons t ts)
    have "spec_wf (?b\<lparr>q_ready := ts\<rparr>)" using spec_wf_remove1(1) [OF wfb, of t] Cons by simp
    moreover have "\<not> queued (?b\<lparr>q_ready := ts\<rparr>) t"
      using wfb Cons by (auto simp: queued_def spec_wf_def)
    ultimately show ?thesis
      unfolding spec_dispatch_def using Cons by (auto intro!: spec_wf_switch simp: queued_def)
  qed
  then show ?thesis using wf by (simp add: spec_reschedule_def Let_def)
qed

section \<open>Blocking, sleeping and waking\<close>

lemma corres_then_reschedule:
  assumes "refines s a" and "spec_wf a" and "current a \<noteq> None \<or> idle a \<noteq> None"
  shows "corres (if preempt_disable_depth s = 0 then ns_sched_reschedule s else Some s)
           (if preempt_disable_depth a = 0 then spec_reschedule a else a)"
  using corres_reschedule [OF assms] assms(1) refines_same(5) [OF assms(1)] by (auto intro: corresI)

lemma wake_due_keeps [simp]:
  "current (spec_wake_due ss now a) = current a" "idle (spec_wake_due ss now a) = idle a"
  by (induction ss now a rule: spec_wake_due.induct) (simp_all add: spec_make_ready_def)

lemma account_keeps [simp]:
  "current (spec_account a) = current a" "idle (spec_account a) = idle a"
  by (auto simp: spec_account_def Let_def split: option.splits)

lemma corres_tick:
  assumes ref: "refines s a" and wf: "spec_wf a" and someone: "current a \<noteq> None \<or> idle a \<noteq> None"
  shows "corres (ns_sched_tick now s) (spec_tick now a)"
proof -
  let ?s = "enter_critical s" and ?a = "enter_critical a"
  let ?s1 = "?s\<lparr>ticks := ticks ?s + 1\<rparr>" and ?a1 = "?a\<lparr>ticks := ticks ?a + 1\<rparr>"
  have "refines ?s1 ?a1"
    using refines_fields(5) [OF refines_enter [OF ref]] refines_same(7) [OF refines_enter [OF ref]] by simp
  moreover have "set (q_sleep a) \<inter> set (q_ready a) = {}" using spec_wfD [OF wf] by fastforce
  ultimately obtain s2 where s2: "tick_wake_loop now ?s1 = Some s2" "refines s2 (spec_wake_due (q_sleep a) now ?a1)"
    using corres_tick_wake [of ?s1 ?a1 now] wf by (auto simp: corres_def spec_wf_def)
  let ?s3 = "leave_critical (tick_account s2)" and ?a3 = "leave_critical (spec_account (spec_wake_due (q_sleep a) now ?a1))"
  have ref3: "refines ?s3 ?a3" by (intro refines_leave refines_account s2)
  have "spec_wf ?a1" using wf by simp
  from spec_wf_wake_due [OF this, of now] have wf3: "spec_wf ?a3" by (simp add: spec_wf_account)
  have "corres (ns_sched_reschedule ?s3) (spec_reschedule ?a3)"
    by (rule corres_reschedule [OF ref3 wf3]) (use someone in simp)
  moreover have "spec_tick now a =
      (if reschedule_pending ?a3 \<and> preempt_disable_depth ?a3 = 0 then spec_reschedule ?a3 else ?a3)"
    unfolding spec_tick_def Let_def critical_lists by (rule refl)
  moreover have "ns_sched_tick now s =
      (if reschedule_pending ?s3 \<and> preempt_disable_depth ?s3 = 0 then ns_sched_reschedule ?s3 else Some ?s3)"
    unfolding ns_sched_tick_def Let_def s2(1) bind.bind_lunit by (rule refl)
  ultimately show ?thesis
    using refines_same(5,6) [OF ref3] ref3 by (auto intro: corresI)
qed

lemma corres_yield:
  assumes ref: "refines s a" and wf: "spec_wf a" and someone: "current a \<noteq> None \<or> idle a \<noteq> None"
  shows "corres (ns_sched_yield s) (spec_yield a)"
  using corres_then_reschedule [OF refines_fields(4) [OF ref, of True]] assms
  by (simp add: ns_sched_yield_def spec_yield_def Let_def)

text \<open>Pushing the current thread on the blocked list.\<close>

lemma refines_push_blocked:
  assumes ref: "refines s a" and new: "t \<notin> set (q_blocked a)"
  shows "refines ((upd t (wait_next_update (\<lambda>_. blocked_head s)) s)\<lparr>blocked_head := Some t\<rparr>)
           (a\<lparr>q_blocked := t # q_blocked a\<rparr>)"
proof -
  let ?s = "put_blocked None (Some t) (put_blocked (Some t) (get_blocked s None) s)"
  have "?s = (upd t (wait_next_update (\<lambda>_. blocked_head s)) s)\<lparr>blocked_head := Some t\<rparr>"
    by (simp add: put_blocked_def get_blocked_def)
  moreover have "blocked_ok ?s (t # q_blocked a)"
    using ref new blocked.path_put [of None "q_blocked a"] blocked.path_put [of "Some t" "q_blocked a"]
    by (simp add: refines_def blocked_ok_def blocked.get_put image_iff)
  then have "refines ?s (a\<lparr>q_blocked := t # q_blocked a\<rparr>)" using ref by (simp add: refines_def)
  ultimately show ?thesis by simp
qed

lemma refines_prepare:
  assumes ref: "refines s a" and nb: "\<And>t. current a = Some t \<Longrightarrow> t \<notin> set (q_blocked a)"
  shows "refines (ns_sched_prepare_block kind key s) (spec_prepare_block kind key a)"
proof (cases "current a")
  case None
  then show ?thesis using ref by (simp add: ns_sched_prepare_block_def spec_prepare_block_def refines_same [OF ref])
next
  case (Some t)
  let ?s = "upd t (wait_key_update (\<lambda>_. key)) (upd t (wait_kind_update (\<lambda>_. kind))
    (upd t (t_state_update (\<lambda>_. NS_THREAD_BLOCKED)) (enter_critical s)))"
  let ?a = "aupd t (wait_key_update (\<lambda>_. key)) (aupd t (wait_kind_update (\<lambda>_. kind))
    (aupd t (t_state_update (\<lambda>_. NS_THREAD_BLOCKED)) (enter_critical a)))"
  have "refines ?s ?a" using ref by (intro refines_attrs refines_enter)
  then have "refines (leave_critical ((upd t (wait_next_update (\<lambda>_. blocked_head ?s)) ?s)\<lparr>blocked_head := Some t\<rparr>))
      (leave_critical (?a\<lparr>q_blocked := t # q_blocked ?a\<rparr>))"
    using nb [OF Some] by (intro refines_leave refines_push_blocked) simp_all
  then show ?thesis
    using Some ref refines_leave [OF refines_enter [OF ref]]
    by (simp add: ns_sched_prepare_block_def spec_prepare_block_def refines_same [OF ref] Let_def)
qed

lemma corres_commit:
  assumes ref: "refines s a" and wf: "spec_wf a" and someone: "current a \<noteq> None \<or> idle a \<noteq> None"
  shows "corres (ns_sched_commit_block s) (spec_commit_block a)"
proof (cases "current a")
  case None
  then show ?thesis
    using ref by (auto simp: ns_sched_commit_block_def spec_commit_block_def refines_same [OF ref] intro: corresI)
next
  case (Some t)
  let ?s = "enter_critical s" and ?a = "enter_critical a"
  have ref1: "refines ?s ?a" using ref by (rule refines_enter)
  note eqs = refines_thr [OF ref1] refines_same [OF ref1]
  consider (blocked) "t_state (q_thr a t) = NS_THREAD_BLOCKED"
    | (woken) "t_state (q_thr a t) = NS_THREAD_READY" "t \<in> set (q_ready a)"
    | (other) "t_state (q_thr a t) \<noteq> NS_THREAD_BLOCKED"
        "\<not> (t_state (q_thr a t) = NS_THREAD_READY \<and> t \<in> set (q_ready a))"
    by blast
  then show ?thesis
  proof cases
    case blocked
    have "corres (if preempt_disable_depth (leave_critical (?s\<lparr>reschedule_pending := True\<rparr>)) = 0
            then ns_sched_reschedule (leave_critical (?s\<lparr>reschedule_pending := True\<rparr>))
            else Some (leave_critical (?s\<lparr>reschedule_pending := True\<rparr>)))
        (if preempt_disable_depth (leave_critical (?a\<lparr>reschedule_pending := True\<rparr>)) = 0
         then spec_reschedule (leave_critical (?a\<lparr>reschedule_pending := True\<rparr>))
         else leave_critical (?a\<lparr>reschedule_pending := True\<rparr>))"
      by (rule corres_then_reschedule) (use ref1 wf someone in auto)
    then show ?thesis
      using blocked Some refines_same(2) [OF ref]
      by (simp add: ns_sched_commit_block_def spec_commit_block_def Let_def eqs)
  next
    case woken
    obtain s1 where s1: "ready_remove t ?s = Some s1" "refines s1 (?a\<lparr>q_ready := remove1 t (q_ready a)\<rparr>)"
      using corres_ready_remove [OF ref1] by (auto simp: corres_def)
    have "refines (leave_critical (upd t (t_state_update (\<lambda>_. NS_THREAD_RUNNING)) s1))
        (leave_critical (aupd t (t_state_update (\<lambda>_. NS_THREAD_RUNNING)) (?a\<lparr>q_ready := remove1 t (q_ready a)\<rparr>)))"
      using s1(2) by (intro refines_leave refines_attrs)
    then show ?thesis
      using woken Some s1(1) refines_same(2) [OF ref]
      by (simp add: ns_sched_commit_block_def spec_commit_block_def Let_def eqs corresI)
  next
    case other
    then show ?thesis
      using Some refines_leave [OF ref1] refines_same(2) [OF ref]
      by (auto simp: ns_sched_commit_block_def spec_commit_block_def Let_def eqs intro: corresI)
  qed
qed

lemma corres_terminate:
  assumes ref: "refines s a" and wf: "spec_wf a"
    and nq: "\<And>t. current a = Some t \<Longrightarrow> \<not> queued a t"
  shows "corres (ns_sched_terminate_current s) (spec_terminate a)"
proof (cases "current a")
  case None
  then show ?thesis
    using ref by (auto simp: ns_sched_terminate_current_def spec_terminate_def refines_same [OF ref] intro: corresI)
next
  case (Some t)
  show ?thesis
  proof (cases "idle a = Some t")
    case True
    then show ?thesis
      using Some ref
      by (auto simp: ns_sched_terminate_current_def spec_terminate_def refines_same [OF ref] intro: corresI)
  next
    case False
    let ?s = "leave_critical ((upd t (t_state_update (\<lambda>_. NS_THREAD_ZOMBIE)) (enter_critical s))\<lparr>reschedule_pending := True\<rparr>)"
    let ?a = "leave_critical ((aupd t (t_state_update (\<lambda>_. NS_THREAD_ZOMBIE)) (enter_critical a))\<lparr>reschedule_pending := True\<rparr>)"
    have "refines ?s ?a" using ref by (intro refines_leave refines_fields refines_attrs refines_enter)
    moreover have "spec_wf ?a"
      using nq [OF Some] wf False by (auto intro!: spec_wf_outside simp: queued_def)
    moreover have "current ?a \<noteq> None \<or> idle ?a \<noteq> None" using Some by simp
    ultimately have "corres (if preempt_disable_depth ?s = 0 then ns_sched_reschedule ?s else Some ?s)
        (if preempt_disable_depth ?a = 0 then spec_reschedule ?a else ?a)"
      by (rule corres_then_reschedule)
    then show ?thesis
      using Some False
      by (auto simp: ns_sched_terminate_current_def spec_terminate_def refines_same [OF ref] Let_def
          simp del: critical_keeps)
  qed
qed

lemma refines_preempt_disable:
  "refines s a \<Longrightarrow> refines (ns_sched_preempt_disable s) (spec_preempt_disable a)"
  using refines_same(5) [of s a]
  by (auto simp: ns_sched_preempt_disable_def spec_preempt_disable_def Let_def
      intro!: refines_leave refines_fields)

lemma corres_preempt_enable:
  assumes ref: "refines s a" and wf: "spec_wf a" and someone: "current a \<noteq> None \<or> idle a \<noteq> None"
  shows "corres (ns_sched_preempt_enable s) (spec_preempt_enable a)"
proof -
  define s1 where "s1 = (if preempt_disable_depth (enter_critical s) \<noteq> 0
     then (enter_critical s)\<lparr>preempt_disable_depth := preempt_disable_depth (enter_critical s) - 1\<rparr> else enter_critical s)"
  define a1 where "a1 = (if preempt_disable_depth (enter_critical a) \<noteq> 0
     then (enter_critical a)\<lparr>preempt_disable_depth := preempt_disable_depth (enter_critical a) - 1\<rparr> else enter_critical a)"
  have ref1: "refines s1 a1"
    using refines_enter [OF ref] refines_fields(3) [OF refines_enter [OF ref]] refines_same(5) [OF ref]
    by (simp add: s1_def a1_def)
  have "corres (ns_sched_reschedule (leave_critical s1)) (spec_reschedule (leave_critical a1))"
    by (rule corres_reschedule) (use ref1 wf someone in \<open>auto simp: a1_def\<close>)
  then show ?thesis
    using refines_leave [OF ref1] refines_same(5,6) [OF ref1]
    unfolding ns_sched_preempt_enable_def spec_preempt_enable_def Let_def s1_def [symmetric] a1_def [symmetric]
    by (auto intro: corresI)
qed

subsection \<open>Sleeping\<close>

text \<open>
  The position is the link of the last sleeper whose deadline is not later, and writing the new
  thread there is insertion behind them.
\<close>

lemma sleep_insert_from:
  assumes "path (\<lambda>x. get_sleep s (Some x)) (get_sleep s c) xs" and "c \<notin> Some ` set xs"
    and "t \<notin> set xs" and "c \<noteq> Some t" and "\<And>x. x \<in> set xs \<Longrightarrow> wake_deadline_ns (thr s x) = wake_deadline_ns (q x)"
  shows "\<exists>d. sleep_position deadline s c = Some d \<and> d \<in> insert c (Some ` set xs) \<and>
    path (\<lambda>x. get_sleep (put_sleep d (Some t) (put_sleep (Some t) (get_sleep s d) s)) (Some x))
      (get_sleep (put_sleep d (Some t) (put_sleep (Some t) (get_sleep s d) s)) c)
      (insert_sleeper q deadline t xs)"
  using assms
proof (induction xs arbitrary: c)
  case Nil
  then show ?case by (auto simp: sleep_position.simps [of deadline s c] sleeping.get_put)
next
  case (Cons x xs)
  have dist: "distinct (x # xs)" using path_distinct [OF Cons.prems(1)] .
  show ?case
  proof (cases "wake_deadline_ns (q x) \<le> deadline")
    case True
    then have step: "sleep_position deadline s c = sleep_position deadline s (Some x)"
      using Cons.prems by (subst sleep_position.simps) simp
    obtain d where d: "sleep_position deadline s (Some x) = Some d" "d \<in> insert (Some x) (Some ` set xs)"
      "path (\<lambda>x. get_sleep (put_sleep d (Some t) (put_sleep (Some t) (get_sleep s d) s)) (Some x))
        (get_sleep (put_sleep d (Some t) (put_sleep (Some t) (get_sleep s d) s)) (Some x))
        (insert_sleeper q deadline t xs)"
      using Cons.IH [of "Some x"] Cons.prems dist by auto
    have "c \<noteq> d" using d(2) Cons.prems(2) by auto
    then show ?thesis
      using d step True Cons.prems by (auto simp: sleeping.get_put)
  next
    case False
    then have "sleep_position deadline s c = Some c"
      using Cons.prems by (subst sleep_position.simps) simp
    moreover have "path (\<lambda>y. get_sleep (put_sleep c (Some t) (put_sleep (Some t) (get_sleep s c) s)) (Some y))
        (get_sleep s c) (x # xs)"
    proof (rule path_cong [THEN iffD2, OF _ refl refl Cons.prems(1)])
      fix y assume "y \<in> set (x # xs)"
      then show "get_sleep (put_sleep c (Some t) (put_sleep (Some t) (get_sleep s c) s)) (Some y) = get_sleep s (Some y)"
        using Cons.prems(2,3) by (auto simp: sleeping.get_put)
    qed
    ultimately show ?thesis
      using False Cons.prems(4) by (auto simp: sleeping.get_put)
  qed
qed

lemma corres_sleep_insert:
  assumes ref: "refines s a" and new: "t \<notin> set (q_sleep a)"
  shows "corres (do { c \<leftarrow> sleep_position d s None;
                      let s = upd t (sleep_next_update (\<lambda>_. get_sleep s c)) s;
                      Some (put_sleep c (Some t) s) })
           (a\<lparr>q_sleep := insert_sleeper (q_thr a) d t (q_sleep a)\<rparr>)"
proof -
  obtain c where c: "sleep_position d s None = Some c"
    "sleep_ok (put_sleep c (Some t) (put_sleep (Some t) (get_sleep s c) s)) (insert_sleeper (q_thr a) d t (q_sleep a))"
    using sleep_insert_from [of s None "q_sleep a" t "q_thr a" d] ref new refines_thr(4) [OF ref]
    by (auto simp: refines_def sleep_ok_def)
  have "refines (put_sleep c (Some t) (put_sleep (Some t) (get_sleep s c) s))
      (a\<lparr>q_sleep := insert_sleeper (q_thr a) d t (q_sleep a)\<rparr>)"
    using ref c(2) by (simp add: refines_def)
  moreover have "put_sleep (Some t) v s = upd t (sleep_next_update (\<lambda>_. v)) s" for v
    by (simp add: put_sleep_def)
  ultimately show ?thesis using c(1) by (simp add: corres_def)
qed

lemma insert_sleeper_set: "set (insert_sleeper q d t xs) = insert t (set xs)"
  by (induction xs) auto

lemma insert_sleeper_distinct: "distinct (insert_sleeper q d t xs) \<longleftrightarrow> t \<notin> set xs \<and> distinct xs"
  by (induction xs) (auto simp: insert_sleeper_set)

lemma insert_sleeper_sorted:
  "sorted (map (\<lambda>x. wake_deadline_ns (q x)) xs) \<Longrightarrow> wake_deadline_ns (q t) = d \<Longrightarrow>
   sorted (map (\<lambda>x. wake_deadline_ns (q x)) (insert_sleeper q d t xs))"
  by (induction xs) (auto simp: insert_sleeper_set)

lemma spec_wf_sleep_insert:
  assumes wf: "spec_wf a" and nq: "\<not> queued a t" and ni: "idle a \<noteq> Some t"
    and b: "b = aupd t (wake_deadline_ns_update (\<lambda>_. d)) (aupd t (t_state_update (\<lambda>_. NS_THREAD_SLEEPING)) a)"
  shows "spec_wf (b\<lparr>q_sleep := insert_sleeper (q_thr b) d t (q_sleep b)\<rparr>)"
proof -
  have wfb: "spec_wf b"
    unfolding b using wf nq ni by (intro spec_wf_outside) (auto simp: queued_def)
  have "wake_deadline_ns (q_thr b t) = d" "t_state (q_thr b t) = NS_THREAD_SLEEPING" "t \<notin> set (q_sleep b)"
    "idle b \<noteq> Some t"
    using nq ni by (simp_all add: b queued_def)
  then show ?thesis
    using wfb by (auto simp: spec_wf_def insert_sleeper_set insert_sleeper_distinct insert_sleeper_sorted)
qed

lemma corres_sleep_until:
  assumes ref: "refines s a" and wf: "spec_wf a"
    and nq: "\<And>t. current a = Some t \<Longrightarrow> \<not> queued a t"
  shows "corres (ns_sched_sleep_until d s) (spec_sleep_until d a)"
proof (cases "current a")
  case None
  then show ?thesis
    using ref by (auto simp: ns_sched_sleep_until_def spec_sleep_until_def refines_same [OF ref] intro: corresI)
next
  case (Some t)
  let ?s = "enter_critical s" and ?a = "enter_critical a"
  have ref1: "refines ?s ?a" using ref by (rule refines_enter)
  show ?thesis
  proof (cases "idle a = Some t")
    case True
    then show ?thesis
      using Some refines_leave [OF ref1]
      by (auto simp: ns_sched_sleep_until_def spec_sleep_until_def refines_same [OF ref] Let_def intro: corresI)
  next
    case False
    let ?s1 = "upd t (wake_deadline_ns_update (\<lambda>_. d)) (upd t (t_state_update (\<lambda>_. NS_THREAD_SLEEPING)) ?s)"
    let ?a1 = "aupd t (wake_deadline_ns_update (\<lambda>_. d)) (aupd t (t_state_update (\<lambda>_. NS_THREAD_SLEEPING)) ?a)"
    have "refines ?s1 ?a1" using ref1 by (intro refines_attrs)
    then obtain s2 where s2: "do { c \<leftarrow> sleep_position d ?s1 None;
                      let s = upd t (sleep_next_update (\<lambda>_. get_sleep ?s1 c)) ?s1;
                      Some (put_sleep c (Some t) s) } = Some s2"
      "refines s2 (?a1\<lparr>q_sleep := insert_sleeper (q_thr ?a1) d t (q_sleep ?a1)\<rparr>)" (is "refines _ ?a2")
      using corres_sleep_insert [of ?s1 ?a1 t d] nq [OF Some] by (auto simp: corres_def queued_def)
    have "spec_wf ?a2"
      using nq [OF Some] False wf by (intro spec_wf_sleep_insert) (auto simp: queued_def)
    then have "corres (if preempt_disable_depth (leave_critical (s2\<lparr>reschedule_pending := True\<rparr>)) = 0
        then ns_sched_reschedule (leave_critical (s2\<lparr>reschedule_pending := True\<rparr>))
        else Some (leave_critical (s2\<lparr>reschedule_pending := True\<rparr>)))
      (if preempt_disable_depth (leave_critical (?a2\<lparr>reschedule_pending := True\<rparr>)) = 0
       then spec_reschedule (leave_critical (?a2\<lparr>reschedule_pending := True\<rparr>))
       else leave_critical (?a2\<lparr>reschedule_pending := True\<rparr>))"
      by (intro corres_then_reschedule refines_leave refines_fields s2) (use Some in simp_all)
    moreover have "ns_sched_sleep_until d s =
      (if preempt_disable_depth (leave_critical (s2\<lparr>reschedule_pending := True\<rparr>)) = 0
        then ns_sched_reschedule (leave_critical (s2\<lparr>reschedule_pending := True\<rparr>))
        else Some (leave_critical (s2\<lparr>reschedule_pending := True\<rparr>)))"
      using Some False s2(1)
      by (auto simp: ns_sched_sleep_until_def refines_same [OF ref] Let_def bind_eq_Some_conv)
    ultimately show ?thesis
      using Some False by (simp add: spec_sleep_until_def Let_def)
  qed
qed

subsection \<open>Waking by kind and key\<close>

lemma path_unlink:
  assumes "path n h (xs @ t # ys)" and "\<And>x. x \<in> set (butlast xs) \<union> set ys \<Longrightarrow> m x = n x"
    and "if xs = [] then k = n t else k = h \<and> m (last xs) = n t"
  shows "path m k (xs @ ys)"
  using assms
proof (induction xs arbitrary: h k)
  case Nil
  then have "path n k ys" by simp
  then show ?case using path_cong [of ys m n k k] Nil.prems(2) by simp
next
  case (Cons x xs)
  have "path m (m x) (xs @ ys)"
  proof (rule Cons.IH [of "n x"])
    show "path n (n x) (xs @ t # ys)" using Cons.prems(1) by simp
    show "m y = n y" if "y \<in> set (butlast xs) \<union> set ys" for y
      using Cons.prems(2) [of y] that by (cases xs) auto
    show "if xs = [] then m x = n t else m x = n x \<and> m (last xs) = n t"
      using Cons.prems(2) [of x] Cons.prems(3) by auto
  qed
  then show ?case using Cons.prems by simp
qed

definition cursor_after :: "'a list \<Rightarrow> 'a option" where
  "cursor_after xs = (if xs = [] then None else Some (last xs))"

lemma path_cursor:
  "path n h (xs @ ys) \<Longrightarrow> (case cursor_after xs of None \<Rightarrow> h | Some t \<Rightarrow> n t) = head_of ys"
proof (induction xs arbitrary: h)
  case Nil
  then show ?case by (cases ys) (auto simp: cursor_after_def head_of_def)
next
  case (Cons x xs)
  then show ?case by (cases xs) (auto simp: cursor_after_def)
qed

lemma get_blocked_cursor:
  assumes "refines s a" and "q_blocked a = xs @ ys"
  shows "get_blocked s (cursor_after xs) = head_of ys"
  using path_cursor [of "\<lambda>t. get_blocked s (Some t)" "get_blocked s None" xs ys] assms
  by (auto simp: refines_def blocked_ok_def split: option.splits)

lemma refines_unlink_blocked:
  assumes ref: "refines s a" and bs: "q_blocked a = xs @ t # ys"
  shows "refines (upd t (wait_next_update (\<lambda>_. None)) (put_blocked (cursor_after xs) (wait_next (thr s t)) s))
           (a\<lparr>q_blocked := xs @ ys\<rparr>)"
proof -
  let ?s = "put_blocked (Some t) None (put_blocked (cursor_after xs) (get_blocked s (Some t)) s)"
  have p: "path (\<lambda>t. get_blocked s (Some t)) (get_blocked s None) (xs @ t # ys)"
    using ref bs by (simp add: refines_def blocked_ok_def)
  have dist: "distinct (xs @ t # ys)" using path_distinct [OF p] .
  have last: "last xs \<in> set xs" if "xs \<noteq> []" using that by simp
  have bl: "x \<noteq> last xs" if "x \<in> set (butlast xs)" for x
    using that dist by (metis append_butlast_last_id distinct_append not_distinct_conv_prefix empty_iff
        in_set_butlastD butlast.simps(1) list.set(1))
  have "path (\<lambda>t. get_blocked ?s (Some t)) (get_blocked ?s None) (xs @ ys)"
  proof (rule path_unlink [OF p])
    show "get_blocked ?s (Some x) = get_blocked s (Some x)" if "x \<in> set (butlast xs) \<union> set ys" for x
    proof -
      have "x \<noteq> t" "xs \<noteq> [] \<longrightarrow> x \<noteq> last xs"
        using that dist bl [of x] by (auto simp: disjoint_iff dest: in_set_butlastD last_in_set)
      then show ?thesis by (auto simp: blocked.get_put cursor_after_def)
    qed
    show "if xs = [] then get_blocked ?s None = get_blocked s (Some t)
      else get_blocked ?s None = get_blocked s None \<and> get_blocked ?s (Some (last xs)) = get_blocked s (Some t)"
      using dist last by (auto simp: blocked.get_put cursor_after_def)
  qed
  then have "refines ?s (a\<lparr>q_blocked := xs @ ys\<rparr>)" using ref by (simp add: refines_def blocked_ok_def)
  then show ?thesis by (simp add: put_blocked_def [of "Some t"] get_blocked_def)
qed

lemma corres_wake_loop:
  assumes "refines s a" and "q_blocked a = kept @ ts" and "set ts \<inter> set (q_ready a) = {}" and "distinct ts"
  shows "\<exists>s'. wake_loop kind key maximum count (cursor_after kept) s =
             Some (fst (spec_wake_list kind key maximum count kept ts a), s') \<and>
           refines s' (snd (spec_wake_list kind key maximum count kept ts a))"
  using assms
proof (induction ts arbitrary: s a kept count)
  case Nil
  then show ?case
    using get_blocked_cursor [OF Nil.prems(1,2)]
    by (subst wake_loop.simps) (simp add: head_of_def)
next
  case (Cons t ts)
  note ref = Cons.prems(1)
  have at: "get_blocked s (cursor_after kept) = Some t"
    using get_blocked_cursor [OF Cons.prems(1,2)] by (simp add: head_of_def)
  show ?case
  proof (cases "count < maximum")
    case False
    then show ?thesis using ref by (subst wake_loop.simps) (simp add: at)
  next
    case more: True
    show ?thesis
    proof (cases "wait_kind (q_thr a t) = kind \<and> wait_key (q_thr a t) = key")
      case False
      have "cursor_after (kept @ [t]) = Some t" by (simp add: cursor_after_def)
      moreover have "wake_loop kind key maximum count (cursor_after kept) s = wake_loop kind key maximum count (Some t) s"
        using more False by (subst wake_loop.simps) (auto simp: at refines_thr [OF ref])
      ultimately show ?thesis
        using Cons.IH [OF ref, of "kept @ [t]" count] Cons.prems more False by auto
    next
      case True
      let ?s1 = "upd t (wait_key_update (\<lambda>_. 0)) (upd t (wait_kind_update (\<lambda>_. NS_WAIT_NONE))
        (upd t (wait_next_update (\<lambda>_. None)) (put_blocked (cursor_after kept) (wait_next (thr s t)) s)))"
      let ?a1 = "aupd t (wait_key_update (\<lambda>_. 0)) (aupd t (wait_kind_update (\<lambda>_. NS_WAIT_NONE)) (a\<lparr>q_blocked := kept @ ts\<rparr>))"
      have "refines ?s1 ?a1" by (intro refines_attrs refines_unlink_blocked Cons.prems(1,2))
      then obtain s2 where s2: "ready_insert_tail t (upd t (t_state_update (\<lambda>_. NS_THREAD_READY)) ?s1) = Some s2"
        "refines s2 (spec_make_ready t ?a1)"
        using corres_make_ready [of ?s1 ?a1 t] Cons.prems(3) by (auto simp: corres_def)
      let ?a2 = "(spec_make_ready t ?a1)\<lparr>wakeups := wakeups (spec_make_ready t ?a1) + 1\<rparr>"
      have ref2: "refines (s2\<lparr>wakeups := wakeups s2 + 1\<rparr>) ?a2"
        using refines_fields(8) [OF s2(2)] refines_same(10) [OF s2(2)] by simp
      have "wake_loop kind key maximum count (cursor_after kept) s =
          wake_loop kind key maximum (count + 1) (cursor_after kept) (s2\<lparr>wakeups := wakeups s2 + 1\<rparr>)"
        using more True s2(1) by (subst wake_loop.simps) (simp add: at refines_thr [OF ref] Let_def)
      moreover have "spec_wake_list kind key maximum count kept (t # ts) a =
          spec_wake_list kind key maximum (count + 1) kept ts ?a2"
        using more True by (simp add: Let_def)
      moreover have "\<exists>s'. wake_loop kind key maximum (count + 1) (cursor_after kept) (s2\<lparr>wakeups := wakeups s2 + 1\<rparr>) =
             Some (fst (spec_wake_list kind key maximum (count + 1) kept ts ?a2), s') \<and>
           refines s' (snd (spec_wake_list kind key maximum (count + 1) kept ts ?a2))"
        by (rule Cons.IH [OF ref2]) (use Cons.prems in auto)
      ultimately show ?thesis by simp
    qed
  qed
qed

lemma corres_wake:
  assumes ref: "refines s a" and wf: "spec_wf a"
  shows "\<exists>s'. ns_sched_wake kind key maximum s = Some (fst (spec_wake kind key maximum a), s') \<and>
           refines s' (snd (spec_wake kind key maximum a))"
proof (cases "kind = NS_WAIT_NONE \<or> maximum = 0")
  case True
  then show ?thesis using ref by (simp add: ns_sched_wake_def spec_wake_def)
next
  case False
  have "set (q_blocked a) \<inter> set (q_ready a) = {}" using spec_wfD(1,2) [OF wf] by fastforce
  then obtain s' where "wake_loop kind key maximum 0 None (enter_critical s) =
       Some (fst (spec_wake_list kind key maximum 0 [] (q_blocked a) (enter_critical a)), s')"
     "refines s' (snd (spec_wake_list kind key maximum 0 [] (q_blocked a) (enter_critical a)))"
    using corres_wake_loop [OF refines_enter [OF ref], of "[]" "q_blocked a" kind key maximum 0] wf
    by (auto simp: cursor_after_def spec_wf_def)
  then show ?thesis using False by (auto simp: ns_sched_wake_def spec_wake_def split: prod.splits)
qed

text \<open>What waking does to the queues.\<close>

lemma spec_wf_wake_list:
  assumes "spec_wf a" and "q_blocked a = kept @ ts"
  shows "spec_wf (snd (spec_wake_list kind key maximum count kept ts a)) \<and>
    idle (snd (spec_wake_list kind key maximum count kept ts a)) = idle a \<and>
    current (snd (spec_wake_list kind key maximum count kept ts a)) = current a"
  using assms
proof (induction ts arbitrary: a kept count)
  case (Cons t ts)
  let ?a1 = "aupd t (wait_key_update (\<lambda>_. 0)) (aupd t (wait_kind_update (\<lambda>_. NS_WAIT_NONE)) (a\<lparr>q_blocked := kept @ ts\<rparr>))"
  have st: "t_state (q_thr a t) = NS_THREAD_BLOCKED" using Cons.prems by (auto simp: spec_wf_def)
  have dist: "t \<notin> set (kept @ ts)" using Cons.prems by (auto simp: spec_wf_def)
  have "remove1 t (q_blocked a) = kept @ ts" using dist Cons.prems(2) by (simp add: remove1_append)
  then have "spec_wf ?a1" using spec_wf_remove1(2) [OF Cons.prems(1), of t] by simp
  moreover have "\<not> queued ?a1 t" "idle ?a1 \<noteq> Some t"
    using dist st spec_wfD [OF Cons.prems(1)] by (fastforce simp: queued_def)+
  ultimately have "spec_wf ((spec_make_ready t ?a1)\<lparr>wakeups := wakeups (spec_make_ready t ?a1) + 1\<rparr>)"
    by (simp add: spec_wf_make_ready)
  then show ?case
    using Cons.IH [of "(spec_make_ready t ?a1)\<lparr>wakeups := wakeups (spec_make_ready t ?a1) + 1\<rparr>" kept "count + 1"]
      Cons.IH [OF Cons.prems(1), of "kept @ [t]" count] Cons.prems
    by (simp add: Let_def)
qed simp

lemma spec_wf_wake: "spec_wf a \<Longrightarrow> spec_wf (snd (spec_wake kind key maximum a))"
  using spec_wf_wake_list [of "enter_critical a" "[]" "q_blocked a"]
  by (simp add: spec_wake_def split: prod.splits) (metis snd_conv)

end
