(* ===== verification/Scheduler_Props.thy ===== *)
theory Scheduler_Props
  imports Scheduler_Spec
begin

text \<open>
  The operations of \<open>kernel/proc/scheduler.c\<close> as one machine with the contract of each call, what
  they do to the queues (rotation, due sleepers, wake order), and the properties of the scheduler.
\<close>

section \<open>All operations together\<close>

datatype sched_op =
    Set_Idle tref | Add tref | Remove tref | Tick u64 | Yield | Prepare_Block ns_wait_kind u64
  | Commit_Block | Sleep_Until u64 | Wake ns_wait_kind u64 u64 | Wake_Thread tref | Terminate
  | Reschedule | Preempt_Disable | Preempt_Enable

fun sched_exec :: "sched_op \<Rightarrow> ns_scheduler \<Rightarrow> ns_scheduler option" where
  "sched_exec (Set_Idle t) s = Some (snd (ns_sched_set_idle t s))"
| "sched_exec (Add t) s = map_option snd (ns_sched_add t s)"
| "sched_exec (Remove t) s = map_option snd (ns_sched_remove t s)"
| "sched_exec (Tick now) s = ns_sched_tick now s"
| "sched_exec Yield s = ns_sched_yield s"
| "sched_exec (Prepare_Block kind key) s = Some (ns_sched_prepare_block kind key s)"
| "sched_exec Commit_Block s = ns_sched_commit_block s"
| "sched_exec (Sleep_Until d) s = ns_sched_sleep_until d s"
| "sched_exec (Wake kind key maximum) s = map_option snd (ns_sched_wake kind key maximum s)"
| "sched_exec (Wake_Thread t) s = map_option snd (ns_sched_wake_thread t s)"
| "sched_exec Terminate s = ns_sched_terminate_current s"
| "sched_exec Reschedule s = ns_sched_reschedule s"
| "sched_exec Preempt_Disable s = Some (ns_sched_preempt_disable s)"
| "sched_exec Preempt_Enable s = ns_sched_preempt_enable s"

fun spec_exec :: "sched_op \<Rightarrow> sched_spec \<Rightarrow> sched_spec" where
  "spec_exec (Set_Idle t) a = spec_set_idle t a"
| "spec_exec (Add t) a = spec_add t a"
| "spec_exec (Remove t) a = spec_remove t a"
| "spec_exec (Tick now) a = spec_tick now a"
| "spec_exec Yield a = spec_yield a"
| "spec_exec (Prepare_Block kind key) a = spec_prepare_block kind key a"
| "spec_exec Commit_Block a = spec_commit_block a"
| "spec_exec (Sleep_Until d) a = spec_sleep_until d a"
| "spec_exec (Wake kind key maximum) a = snd (spec_wake kind key maximum a)"
| "spec_exec (Wake_Thread t) a = spec_wake_thread t a"
| "spec_exec Terminate a = spec_terminate a"
| "spec_exec Reschedule a = spec_reschedule a"
| "spec_exec Preempt_Disable a = spec_preempt_disable a"
| "spec_exec Preempt_Enable a = spec_preempt_enable a"

text \<open>
  The contract of an operation: a thread that blocks, sleeps or terminates is not queued
  anywhere, the idle thread does not wait, and somebody can run when a switch may be made.
\<close>

definition caller_runs :: "sched_spec \<Rightarrow> bool" where
  "caller_runs a \<longleftrightarrow> (case current a of None \<Rightarrow> True | Some t \<Rightarrow> \<not> queued a t)"

definition someone_runs :: "sched_spec \<Rightarrow> bool" where
  "someone_runs a \<longleftrightarrow> current a \<noteq> None \<or> idle a \<noteq> None"

fun contract :: "sched_op \<Rightarrow> sched_spec \<Rightarrow> bool" where
  "contract (Set_Idle t) a \<longleftrightarrow> t \<notin> set (q_blocked a) \<and> t \<notin> set (q_sleep a)"
| "contract (Prepare_Block kind key) a \<longleftrightarrow> caller_runs a"
| "contract (Sleep_Until d) a \<longleftrightarrow> caller_runs a"
| "contract Terminate a \<longleftrightarrow> caller_runs a"
| "contract (Tick now) a \<longleftrightarrow> someone_runs a"
| "contract Yield a \<longleftrightarrow> someone_runs a"
| "contract Commit_Block a \<longleftrightarrow> someone_runs a"
| "contract Reschedule a \<longleftrightarrow> someone_runs a"
| "contract Preempt_Enable a \<longleftrightarrow> someone_runs a"
| "contract _ a \<longleftrightarrow> True"

lemma idle_flag: "(f OR (NS_THREAD_IDLE OR NS_THREAD_KERNEL)) AND NS_THREAD_IDLE \<noteq> (0::u32)"
proof -
  have "bit ((f OR (NS_THREAD_IDLE OR NS_THREAD_KERNEL)) AND NS_THREAD_IDLE) 1"
    by (simp add: bit_simps)
  then show ?thesis by (metis bit_0_eq bot_apply bot_bool_def)
qed

lemma spec_wf_set_idle:
  assumes "spec_wf a" and "t \<notin> set (q_blocked a)" "t \<notin> set (q_sleep a)"
  shows "spec_wf (spec_set_idle t a)"
proof (cases "idle a \<noteq> None \<or> t \<in> set (q_ready a)")
  case True
  then show ?thesis using assms by (auto simp: spec_set_idle_def Let_def)
next
  case False
  let ?b = "aupd t (t_state_update (\<lambda>_. NS_THREAD_READY))
      (aupd t (t_flags_update (\<lambda>f. f OR (NS_THREAD_IDLE OR NS_THREAD_KERNEL))) (enter_critical a))"
  have "spec_wf ?b" using assms False by (intro spec_wf_outside) auto
  then have "spec_wf (?b\<lparr>idle := Some t\<rparr>)"
    using False idle_flag [of "t_flags (q_thr a t)"] by (auto simp: spec_wf_def)
  then have "spec_wf ((aupd t (quantum_left_update (\<lambda>_. quantum_ticks ?b)) ?b)\<lparr>idle := Some t\<rparr>)"
    by (rule spec_wf_same [THEN iffD2, rotated -1]) simp_all
  then show ?thesis using False by (simp add: spec_set_idle_def Let_def)
qed

lemma spec_wf_add: "spec_wf a \<Longrightarrow> spec_wf (spec_add t a)"
  using spec_wf_make_ready [OF spec_wf_unwait(1), of "enter_critical a" t] spec_wf_unwait(2) [of "enter_critical a" t]
    spec_wfD(5) [of a t]
  by (auto simp: spec_add_def Let_def)

lemma spec_wf_remove: "spec_wf a \<Longrightarrow> spec_wf (spec_remove t a)"
  using spec_wf_remove1(3) [OF spec_wf_remove1(2) [OF spec_wf_remove1(1), of "enter_critical a" t], of t t]
  by (simp add: spec_remove_def Let_def)

lemma spec_wf_wake_thread: "spec_wf a \<Longrightarrow> spec_wf (spec_wake_thread t a)"
proof (cases "t_state (q_thr a t) \<noteq> NS_THREAD_BLOCKED \<and> t_state (q_thr a t) \<noteq> NS_THREAD_SLEEPING")
  case True
  then show "spec_wf a \<Longrightarrow> ?thesis" by (simp add: spec_wake_thread_def Let_def)
next
  case False
  assume wf: "spec_wf a"
  let ?b = "spec_unwait t (enter_critical a)"
  let ?c = "aupd t (wake_deadline_ns_update (\<lambda>_. 0)) ?b"
  have "t \<notin> set (q_ready a)" "idle a \<noteq> Some t" using spec_wfD [OF wf] False by fastforce+
  then have nq: "\<not> queued ?b t" "idle ?b \<noteq> Some t" using spec_wf_unwait(2) [of "enter_critical a" t] wf by auto
  then have "spec_wf ?c" using spec_wf_unwait(1) [of "enter_critical a" t] wf
    by (intro spec_wf_outside) (auto simp: queued_def)
  then have "spec_wf (spec_make_ready t ?c)" using nq by (intro spec_wf_make_ready) (auto simp: queued_def)
  then show ?thesis using False by (auto simp: spec_wake_thread_def Let_def)
qed

lemma spec_wf_prepare:
  assumes wf: "spec_wf a" and run: "caller_runs a"
  shows "spec_wf (spec_prepare_block kind key a)"
proof (cases "current a")
  case (Some t)
  show ?thesis
  proof (cases "idle a = Some t \<or> kind = NS_WAIT_NONE")
    case True
    then show ?thesis using Some wf by (auto simp: spec_prepare_block_def Let_def)
  next
    case False
    have nq: "\<not> queued a t" using run Some by (simp add: caller_runs_def)
    then have "spec_wf (aupd t (t_state_update (\<lambda>_. NS_THREAD_BLOCKED)) (enter_critical a))"
      using wf False by (intro spec_wf_outside) (auto simp: queued_def)
    then have "spec_wf ((aupd t (t_state_update (\<lambda>_. NS_THREAD_BLOCKED)) (enter_critical a))\<lparr>q_blocked := t # q_blocked a\<rparr>)"
      using nq False by (auto simp: spec_wf_def queued_def)
    then show ?thesis
      using Some False
      by (auto simp: spec_prepare_block_def Let_def elim!: spec_wf_same [THEN iffD2, rotated -1])
  qed
qed (use wf in \<open>simp add: spec_prepare_block_def\<close>)

lemma spec_wf_commit:
  assumes wf: "spec_wf a"
  shows "spec_wf (spec_commit_block a)"
proof (cases "current a")
  case (Some t)
  have "spec_wf (aupd t (t_state_update (\<lambda>_. NS_THREAD_RUNNING)) ((enter_critical a)\<lparr>q_ready := remove1 t (q_ready a)\<rparr>))"
    if "t \<in> set (q_ready a)"
  proof (rule spec_wf_outside)
    show "spec_wf ((enter_critical a)\<lparr>q_ready := remove1 t (q_ready a)\<rparr>)"
      using spec_wf_remove1(1) [of "enter_critical a" t] wf by simp
  qed (use wf that spec_wfD(1-3) [OF wf, of t] spec_wfD(4) [OF wf, of t] in \<open>auto simp: spec_wf_def\<close>)
  then show ?thesis
    using Some wf spec_wf_reschedule by (auto simp: spec_commit_block_def Let_def)
qed (use wf in \<open>simp add: spec_commit_block_def\<close>)

lemma spec_wf_sleep_until:
  assumes wf: "spec_wf a" and run: "caller_runs a"
  shows "spec_wf (spec_sleep_until d a)"
proof (cases "current a")
  case (Some t)
  show ?thesis
  proof (cases "idle a = Some t")
    case False
    have "\<not> queued (enter_critical a) t" using run Some by (simp add: caller_runs_def queued_def)
    from spec_wf_sleep_insert [OF _ this _ refl, of d] show ?thesis
      using wf False Some spec_wf_reschedule by (auto simp: spec_sleep_until_def Let_def)
  qed (use Some wf in \<open>simp add: spec_sleep_until_def Let_def\<close>)
qed (use wf in \<open>simp add: spec_sleep_until_def\<close>)

lemma spec_wf_terminate:
  assumes wf: "spec_wf a" and run: "caller_runs a"
  shows "spec_wf (spec_terminate a)"
proof (cases "current a")
  case (Some t)
  have "spec_wf (aupd t (t_state_update (\<lambda>_. NS_THREAD_ZOMBIE)) (enter_critical a))" if "idle a \<noteq> Some t"
    using that wf run Some by (intro spec_wf_outside) (auto simp: caller_runs_def queued_def)
  then show ?thesis
    using Some wf spec_wf_reschedule by (auto simp: spec_terminate_def Let_def)
qed (use wf in \<open>simp add: spec_terminate_def\<close>)

lemma spec_wf_tick: "spec_wf a \<Longrightarrow> spec_wf (spec_tick now a)"
  using spec_wf_wake_due [of "(enter_critical a)\<lparr>ticks := ticks (enter_critical a) + 1\<rparr>" now]
  by (simp add: spec_tick_def Let_def spec_wf_reschedule spec_wf_account)

lemma spec_wf_exec:
  assumes "spec_wf a" and "contract op a"
  shows "spec_wf (spec_exec op a)"
  using assms
  by (cases op)
    (simp_all add: spec_wf_set_idle spec_wf_add spec_wf_remove spec_wf_tick spec_wf_prepare spec_wf_commit
      spec_wf_sleep_until spec_wf_wake spec_wf_wake_thread spec_wf_terminate spec_wf_reschedule
      spec_yield_def spec_preempt_disable_def spec_preempt_enable_def Let_def)

lemma sched_exec_refines:
  assumes ref: "refines s a" and wf: "spec_wf a" and con: "contract op a"
  shows "corres (sched_exec op s) (spec_exec op a)"
proof (cases op)
  case (Add t)
  then show ?thesis using corres_add [OF ref, of t] by (auto simp: corres_def)
next
  case (Remove t)
  then show ?thesis using corres_remove [OF ref, of t] by (auto simp: corres_def)
next
  case (Wake kind key maximum)
  then show ?thesis using corres_wake [OF ref wf, of kind key maximum] by (auto simp: corres_def)
next
  case (Wake_Thread t)
  then show ?thesis using corres_wake_thread [OF ref wf, of t] by (auto simp: corres_def)
qed (use assms in \<open>auto simp: caller_runs_def someone_runs_def queued_def intro!: corresI corres_set_idle
      corres_tick corres_yield refines_prepare corres_commit corres_sleep_until corres_terminate
      corres_reschedule refines_preempt_disable corres_preempt_enable\<close>)

section \<open>Rotation, due sleepers and wake order\<close>

lemma spec_switch_current:
  "(case n of None \<Rightarrow> idle a | Some t \<Rightarrow> Some t) = Some t \<Longrightarrow>
   current (spec_switch n a) = Some t \<and> t_state (q_thr (spec_switch n a) t) = NS_THREAD_RUNNING \<and>
   q_ready (spec_switch n a) = q_ready a \<and> preempt_disable_depth (spec_switch n a) = preempt_disable_depth a \<and>
   idle (spec_switch n a) = idle a"
  by (cases n) (auto simp: spec_switch_def Let_def)

text \<open>A switch from a running thread to the next one rotates the ready queue.\<close>

lemma spec_reschedule_rotates:
  assumes depth: "preempt_disable_depth a = 0" and cur: "current a = Some t" "idle a \<noteq> Some t"
    "t_state (q_thr a t) = NS_THREAD_RUNNING" and rs: "q_ready a = x # xs"
  shows "current (spec_reschedule a) = Some x" "t_state (q_thr (spec_reschedule a) x) = NS_THREAD_RUNNING"
    "q_ready (spec_reschedule a) = xs @ [t]" "preempt_disable_depth (spec_reschedule a) = 0"
    "idle (spec_reschedule a) = idle a"
proof -
  let ?b = "spec_requeue (enter_critical a)"
  have b: "q_ready ?b = x # xs @ [t]" "preempt_disable_depth ?b = 0" "idle ?b = idle a"
    using cur rs depth by (auto simp: spec_requeue_def)
  have "spec_reschedule a = leave_critical (spec_switch (Some x) (?b\<lparr>q_ready := xs @ [t], reschedule_pending := False\<rparr>))"
    using depth b(1) by (simp add: spec_reschedule_def spec_dispatch_def)
  then show "current (spec_reschedule a) = Some x" "t_state (q_thr (spec_reschedule a) x) = NS_THREAD_RUNNING"
    "q_ready (spec_reschedule a) = xs @ [t]" "preempt_disable_depth (spec_reschedule a) = 0"
    "idle (spec_reschedule a) = idle a"
    using spec_switch_current [where n = "Some x" and t = x and a = "?b\<lparr>q_ready := xs @ [t], reschedule_pending := False\<rparr>"] b by simp_all
qed

fun reschedules :: "nat \<Rightarrow> ns_scheduler \<Rightarrow> ns_scheduler option" where
  "reschedules 0 s = Some s"
| "reschedules (Suc n) s = do { s \<leftarrow> ns_sched_reschedule s; reschedules n s }"

lemma reschedules_reach:
  assumes "refines s a" and "spec_wf a" and "preempt_disable_depth a = 0" and "current a = Some t"
    "idle a \<noteq> Some t" "t_state (q_thr a t) = NS_THREAD_RUNNING" and "k < length (q_ready a)"
  shows "\<exists>s' b. reschedules (Suc k) s = Some s' \<and> refines s' b \<and> spec_wf b \<and>
           current b = Some (q_ready a ! k) \<and>
           q_ready b = drop (Suc k) (q_ready a) @ t # take k (q_ready a)"
  using assms
proof (induction k arbitrary: s a t)
  case 0
  then obtain x xs where rs: "q_ready a = x # xs" by (cases "q_ready a") auto
  obtain s1 where s1: "ns_sched_reschedule s = Some s1" "refines s1 (spec_reschedule a)"
    using corres_reschedule [of s a] 0 by (auto simp: corres_def)
  then show ?case
    using spec_reschedule_rotates [OF 0(3-6) rs] spec_wf_reschedule [OF 0(2)] rs by auto
next
  case (Suc k)
  then obtain x xs where rs: "q_ready a = x # xs" by (cases "q_ready a") auto
  note rot = spec_reschedule_rotates [OF Suc.prems(3-6) rs]
  obtain s1 where s1: "ns_sched_reschedule s = Some s1" "refines s1 (spec_reschedule a)"
    using corres_reschedule [of s a] Suc.prems by (auto simp: corres_def)
  have "idle (spec_reschedule a) \<noteq> Some x"
    using spec_wfD(4) [OF Suc.prems(2), of x] rs rot(5) by auto
  from Suc.IH [OF s1(2) spec_wf_reschedule [OF Suc.prems(2)] rot(4,1) this rot(2)]
  obtain s' b where b: "reschedules (Suc k) s1 = Some s'" "refines s' b" "spec_wf b"
    "current b = Some ((xs @ [t]) ! k)" "q_ready b = drop (Suc k) (xs @ [t]) @ x # take k (xs @ [t])"
    using Suc.prems(7) rs rot(3) by auto
  have k: "k < length xs" using Suc.prems(7) rs by simp
  then have "(xs @ [t]) ! k = q_ready a ! Suc k"
    "drop (Suc k) (xs @ [t]) @ x # take k (xs @ [t]) = drop (Suc (Suc k)) (q_ready a) @ t # take (Suc k) (q_ready a)"
    using rs by (simp_all add: nth_append)
  then show ?case using b s1(1) by auto
qed

lemma wake_due_queues:
  assumes "sorted (map (\<lambda>t. wake_deadline_ns (q_thr a t)) (q_sleep a))" and "distinct (q_sleep a)"
  shows "q_ready (spec_wake_due (q_sleep a) now a) =
      q_ready a @ filter (\<lambda>t. wake_deadline_ns (q_thr a t) \<le> now) (q_sleep a) \<and>
    q_sleep (spec_wake_due (q_sleep a) now a) = filter (\<lambda>t. \<not> wake_deadline_ns (q_thr a t) \<le> now) (q_sleep a) \<and>
    q_blocked (spec_wake_due (q_sleep a) now a) = q_blocked a"
  using assms
proof (induction "q_sleep a" arbitrary: a)
  case Nil
  then show ?case by (simp flip: Nil.hyps)
next
  case (Cons t ts)
  have ss: "q_sleep a = t # ts" using Cons.hyps(2) by simp
  show ?case
  proof (cases "wake_deadline_ns (q_thr a t) \<le> now")
    case False
    have "wake_deadline_ns (q_thr a t) \<le> wake_deadline_ns (q_thr a u)" if "u \<in> set ts" for u
      using Cons.prems(1) ss that by simp
    then have "\<not> wake_deadline_ns (q_thr a u) \<le> now" if "u \<in> set ts" for u
      using False that order_trans by blast
    then show ?thesis using False ss by (simp add: filter_empty_conv filter_id_conv)
  next
    case True
    define b where "b = (spec_make_ready t (aupd t (wake_deadline_ns_update (\<lambda>_. 0)) (a\<lparr>q_sleep := ts\<rparr>)))
               \<lparr>wakeups := wakeups a + 1\<rparr>"
    have b: "q_sleep b = ts" "q_ready b = q_ready a @ [t]" "q_blocked b = q_blocked a" by (simp_all add: b_def)
    have same: "wake_deadline_ns (q_thr b u) = wake_deadline_ns (q_thr a u)" if "u \<in> set ts" for u
      using that Cons.prems(2) ss by (auto simp: b_def)
    then have meq: "map (\<lambda>u. wake_deadline_ns (q_thr b u)) ts = map (\<lambda>u. wake_deadline_ns (q_thr a u)) ts"
      by (intro map_cong) auto
    have "sorted (map (\<lambda>u. wake_deadline_ns (q_thr b u)) (q_sleep b))"
      unfolding b(1) meq using Cons.prems(1) ss by simp
    then have "q_ready (spec_wake_due ts now b) = q_ready b @ filter (\<lambda>u. wake_deadline_ns (q_thr b u) \<le> now) ts \<and>
      q_sleep (spec_wake_due ts now b) = filter (\<lambda>u. \<not> wake_deadline_ns (q_thr b u) \<le> now) ts \<and>
      q_blocked (spec_wake_due ts now b) = q_blocked b"
      using Cons.hyps(1) [OF b(1) [symmetric]] Cons.prems(2) ss unfolding b(1) by simp
    moreover have "filter (\<lambda>u. wake_deadline_ns (q_thr b u) \<le> now) ts = filter (\<lambda>u. wake_deadline_ns (q_thr a u) \<le> now) ts"
      "filter (\<lambda>u. \<not> wake_deadline_ns (q_thr b u) \<le> now) ts = filter (\<lambda>u. \<not> wake_deadline_ns (q_thr a u) \<le> now) ts"
      using same by (auto cong: filter_cong)
    moreover have "spec_wake_due (q_sleep a) now a = spec_wake_due ts now b" using True by (simp add: ss b_def)
    ultimately show ?thesis using True b by (simp add: ss)
  qed
qed

definition waits_for :: "sched_spec \<Rightarrow> ns_wait_kind \<Rightarrow> u64 \<Rightarrow> tref \<Rightarrow> bool" where
  "waits_for a kind key t \<longleftrightarrow> wait_kind (q_thr a t) = kind \<and> wait_key (q_thr a t) = key"

lemma wake_list_queues:
  assumes "q_blocked a = kept @ ts" and "distinct ts" and "unat count \<le> unat maximum"
  shows "(let woken = take (unat maximum - unat count) (filter (waits_for a kind key) ts);
              (n, b) = spec_wake_list kind key maximum count kept ts a in
          q_ready b = q_ready a @ woken \<and>
          set (q_blocked b) = set kept \<union> (set ts - set woken) \<and>
          unat n = unat count + length woken \<and>
          (\<forall>t. t \<notin> set woken \<longrightarrow> q_thr b t = q_thr a t) \<and>
          (\<forall>t \<in> set woken. t_state (q_thr b t) = NS_THREAD_READY) \<and> current b = current a \<and> idle b = idle a \<and>
          context_switches b = context_switches a)"
  using assms
proof (induction ts arbitrary: a kept count)
  case Nil
  then show ?case by (simp add: Let_def)
next
  case (Cons t ts)
  show ?case
  proof (cases "count < maximum")
    case False
    then have "unat count = unat maximum" using Cons.prems(3) by (simp add: word_less_nat_alt)
    then show ?thesis using False Cons.prems(1) by (simp add: Let_def)
  next
    case more: True
    show ?thesis
    proof (cases "waits_for a kind key t")
      case False
      define woken where "woken = take (unat maximum - unat count) (filter (waits_for a kind key) ts)"
      obtain n b where nb: "spec_wake_list kind key maximum count (kept @ [t]) ts a = (n, b)" by fastforce
      have "spec_wake_list kind key maximum count kept (t # ts) a = (n, b)"
        using more False nb by (auto simp: waits_for_def)
      moreover have "take (unat maximum - unat count) (filter (waits_for a kind key) (t # ts)) = woken"
        using False by (simp add: woken_def)
      moreover have "t \<notin> set woken" using Cons.prems(2) by (auto simp: woken_def dest: in_set_takeD)
      moreover have "q_ready b = q_ready a @ woken" "set (q_blocked b) = set (kept @ [t]) \<union> (set ts - set woken)"
        "unat n = unat count + length woken" "\<forall>u. u \<notin> set woken \<longrightarrow> q_thr b u = q_thr a u"
        "\<forall>u \<in> set woken. t_state (q_thr b u) = NS_THREAD_READY" "current b = current a" "idle b = idle a"
        "context_switches b = context_switches a"
        using Cons.IH [of a "kept @ [t]" count] Cons.prems nb
        unfolding woken_def [symmetric] Let_def by simp_all
      ultimately show ?thesis unfolding Let_def by auto
    next
      case True
      let ?a1 = "aupd t (wait_key_update (\<lambda>_. 0)) (aupd t (wait_kind_update (\<lambda>_. NS_WAIT_NONE)) (a\<lparr>q_blocked := kept @ ts\<rparr>))"
      let ?a2 = "(spec_make_ready t ?a1)\<lparr>wakeups := wakeups (spec_make_ready t ?a1) + 1\<rparr>"
      have step: "spec_wake_list kind key maximum count kept (t # ts) a =
          spec_wake_list kind key maximum (count + 1) kept ts ?a2"
        using more True by (simp add: Let_def waits_for_def)
      have c1: "unat (count + 1) = Suc (unat count)" "Suc (unat count) \<le> unat maximum"
        using more u64_less [of maximum] by (simp_all add: word_less_nat_alt unat_word_ariths)
      have f: "filter (waits_for ?a2 kind key) ts = filter (waits_for a kind key) ts"
        using Cons.prems(2) by (intro filter_cong) (auto simp: waits_for_def)
      have sw: "context_switches ?a2 = context_switches a" by (simp add: spec_make_ready_def aupd_def)
      define woken where "woken = take (unat maximum - Suc (unat count)) (filter (waits_for a kind key) ts)"
      obtain n b where nb: "spec_wake_list kind key maximum (count + 1) kept ts ?a2 = (n, b)" by fastforce
      have "q_ready b = q_ready ?a2 @ woken" "set (q_blocked b) = set kept \<union> (set ts - set woken)"
        "unat n = Suc (unat count) + length woken" "\<forall>u. u \<notin> set woken \<longrightarrow> q_thr b u = q_thr ?a2 u"
        "\<forall>u \<in> set woken. t_state (q_thr b u) = NS_THREAD_READY" "current b = current a" "idle b = idle a"
        "context_switches b = context_switches a"
        using Cons.IH [of ?a2 kept "count + 1", unfolded f c1(1), folded woken_def] Cons.prems(2) c1(2) sw nb
        unfolding Let_def by simp_all
      moreover have "take (unat maximum - unat count) (filter (waits_for a kind key) (t # ts)) = t # woken"
        using True c1(2) Suc_diff_Suc [of "unat count" "unat maximum"] by (simp add: woken_def take_Cons')
      moreover have "t \<notin> set ts" "t \<notin> set woken" using Cons.prems(2) by (auto simp: woken_def dest: in_set_takeD)
      ultimately show ?thesis unfolding Let_def step nb by auto
    qed
  qed
qed

section \<open>Start, histories, and the two-phase wait\<close>

definition spec_initial :: "ns_scheduler \<Rightarrow> ns_scheduler_ops \<Rightarrow> u32 \<Rightarrow> sched_spec" where
  "spec_initial s new_ops quantum =
     \<lparr>ops = new_ops, current = None, idle = None, quantum_ticks = quantum, preempt_disable_depth = 0,
      reschedule_pending = False, ticks = 0, context_switches = 0, idle_ticks = 0, wakeups = 0,
      calls = calls s, q_ready = [], q_blocked = [], q_sleep = [], q_thr = (\<lambda>t. attr (thr s t))\<rparr>"

fun contracts :: "sched_op list \<Rightarrow> sched_spec \<Rightarrow> bool" where
  "contracts [] a \<longleftrightarrow> True"
| "contracts (op # rest) a \<longleftrightarrow> contract op a \<and> contracts rest (spec_exec op a)"

lemma sched_init_refines:
  assumes "quantum \<noteq> 0" and "\<forall>t. \<not> on_run_queue (thr s t)"
  shows "fst (ns_sched_init s new_ops quantum) = Ok ()"
    and "refines (snd (ns_sched_init s new_ops quantum)) (spec_initial s new_ops quantum)"
    and "spec_wf (spec_initial s new_ops quantum)"
  using assms
  by (simp_all add: ns_sched_init_def spec_initial_def refines_def same_common_def ok_defs head_of_def spec_wf_def)

lemma runs_refine:
  assumes "refines s a" and "spec_wf a" and "contracts ops_list a"
  shows "\<exists>s'. foldM sched_exec ops_list s = Some s' \<and> refines s' (fold spec_exec ops_list a) \<and>
           spec_wf (fold spec_exec ops_list a)"
  using assms
proof (induction ops_list arbitrary: s a)
  case (Cons op rest)
  obtain s1 where "sched_exec op s = Some s1" "refines s1 (spec_exec op a)"
    using sched_exec_refines [OF Cons.prems(1,2)] Cons.prems(3) by (auto simp: corres_def)
  then show ?case using Cons.IH [of s1 "spec_exec op a"] Cons.prems spec_wf_exec by simp
qed simp

lemma commit_after_wake:
  assumes "current a = Some t" and "t \<in> set (q_ready a)" and "t_state (q_thr a t) = NS_THREAD_READY"
  shows "current (spec_commit_block a) = Some t" "t_state (q_thr (spec_commit_block a) t) = NS_THREAD_RUNNING"
    "q_ready (spec_commit_block a) = remove1 t (q_ready a)" "context_switches (spec_commit_block a) = context_switches a"
  using assms by (simp_all add: spec_commit_block_def Let_def)
    (simp add: aupd_def leave_critical_def enter_critical_def)

lemma wake_finds_preparer:
  assumes wf: "spec_wf a" and t: "current a = Some t" "idle a \<noteq> Some t" "\<not> queued a t"
    and k: "kind \<noteq> NS_WAIT_NONE" "maximum \<noteq> 0"
    and b: "b = spec_prepare_block kind key a"
  shows "let (n, c) = spec_wake kind key maximum b in
      1 \<le> n \<and> current c = Some t \<and> t \<in> set (q_ready c) \<and> t_state (q_thr c t) = NS_THREAD_READY \<and>
      context_switches c = context_switches a \<and> distinct (q_ready c)"
proof -
  have wfb: "spec_wf b" unfolding b using spec_wf_prepare [OF wf] t by (simp add: caller_runs_def)
  have bl: "q_blocked b = t # q_blocked a" "current b = Some t" "waits_for b kind key t"
    "context_switches b = context_switches a"
    unfolding b using t k
    by (simp_all add: spec_prepare_block_def Let_def waits_for_def) (simp add: aupd_def leave_critical_def enter_critical_def)
  let ?b = "enter_critical b"
  obtain n c where nc: "spec_wake_list kind key maximum 0 [] (q_blocked b) ?b = (n, c)" by fastforce
  define woken where "woken = take (unat maximum) (filter (waits_for ?b kind key) (q_blocked b))"
  have "distinct (q_blocked b)" using wfb by (simp add: spec_wf_def)
  then have c: "q_ready c = q_ready b @ woken" "unat n = length woken"
    "\<forall>t \<in> set woken. t_state (q_thr c t) = NS_THREAD_READY" "current c = current b"
    "context_switches c = context_switches ?b"
    using wake_list_queues [of ?b "[]" "q_blocked b" 0 maximum kind key] nc
    unfolding woken_def [symmetric] Let_def by (simp_all add: woken_def)
  have "filter (waits_for ?b kind key) (q_blocked b) = t # filter (waits_for ?b kind key) (q_blocked a)"
    using bl by (simp add: waits_for_def)
  moreover have "0 < unat maximum" using k(2) by (simp add: unat_gt_0)
  ultimately have w: "t \<in> set woken" "0 < length woken" by (auto simp: woken_def take_Cons')
  have "spec_wf c" using spec_wf_wake_list [of ?b "[]" "q_blocked b" kind key maximum 0] nc wfb by simp
  moreover have "context_switches ?b = context_switches b" by (simp add: enter_critical_def)
  moreover have "context_switches (leave_critical c) = context_switches c" by (simp add: leave_critical_def)
  moreover have "1 \<le> n" using w(2) c(2) by (simp add: word_le_nat_alt Suc_le_eq)
  ultimately show ?thesis
    using c w bl k nc by (auto simp: spec_wake_def Let_def spec_wf_def)
qed

text \<open>A blocked list that loops back on itself.\<close>

definition loops_at :: "tref \<Rightarrow> ns_wait_kind \<Rightarrow> tref option \<Rightarrow> ns_scheduler \<Rightarrow> bool" where
  "loops_at t kind cursor s \<longleftrightarrow>
     blocked_head s = Some t \<and> wait_next (thr s t) = Some t \<and> wait_kind (thr s t) \<noteq> kind \<and>
     (cursor = None \<or> cursor = Some t)"

lemma wake_loop_cyclic:
  "wake_loop kind key maximum count cursor s = Some r \<Longrightarrow> \<not> (loops_at t kind cursor s \<and> count < maximum)"
proof (rule wake_loop.raw_induct [where P = "\<lambda>kind key maximum count cursor s r.
    \<not> (loops_at t kind cursor s \<and> count < maximum)"], goal_cases)
  case (1 loop kind key maximum count cursor s r)
  show ?case
  proof
    assume l: "loops_at t kind cursor s \<and> count < maximum"
    then have "get_blocked s cursor = Some t" "wait_kind (thr s t) \<noteq> kind" "loops_at t kind (Some t) s"
      by (auto simp: loops_at_def get_blocked_def)
    then show False using 1 l by auto
  qed
qed simp

section \<open>Example states\<close>

definition example_attr :: thread_attr where
  "example_attr =
     \<lparr>t_state = NS_THREAD_EMBRYO, t_flags = 0, quantum_left = 0, switches = 0, runtime_ticks = 0,
      wake_deadline_ns = 0, wait_kind = NS_WAIT_NONE, wait_key = 0, process_space = None\<rparr>"

definition example_sched :: ns_scheduler where
  "example_sched =
     \<lparr>ops = \<lparr>has_critical_enter = True, has_critical_leave = True, has_switch_context = True\<rparr>,
      current = None, idle = None, quantum_ticks = 0, preempt_disable_depth = 0,
      reschedule_pending = False, ticks = 0, context_switches = 0, idle_ticks = 0, wakeups = 0,
      calls = [], ready_head = None, blocked_head = None, sleep_head = None,
      thr = (\<lambda>_. thread_attr.extend example_attr
        \<lparr>run_prev = None, run_next = None, wait_next = None, sleep_next = None, on_run_queue = False\<rparr>)\<rparr>"

definition example_start :: "sched_op list" where
  "example_start = [Set_Idle 0, Add 1, Add 2, Add 3, Reschedule]"

abbreviation example_ops :: ns_scheduler_ops where
  "example_ops \<equiv> \<lparr>has_critical_enter = True, has_critical_leave = True, has_switch_context = True\<rparr>"

lemma example_fresh: "\<forall>t. \<not> on_run_queue (thr example_sched t)"
  by (simp add: example_sched_def thread_attr.extend_def)

declare blocked_remove_loop.simps [code] sleep_remove_loop.simps [code] tick_wake_loop.simps [code]
  sleep_position.simps [code] wake_loop.simps [code]

abbreviation example_spec :: sched_spec where
  "example_spec \<equiv> fold spec_exec example_start (spec_initial example_sched example_ops 5)"

lemma example_running:
  "contracts example_start (spec_initial example_sched example_ops 5)"
  "current example_spec = Some 1" "idle example_spec = Some 0" "q_ready example_spec = [2, 3]"
  "q_blocked example_spec = []" "q_sleep example_spec = []" "preempt_disable_depth example_spec = 0"
  "t_state (q_thr example_spec 1) = NS_THREAD_RUNNING"
  by code_simp+

lemma example_state:
  obtains s where "foldM sched_exec example_start (snd (ns_sched_init example_sched example_ops 5)) = Some s"
    "refines s example_spec" "spec_wf example_spec"
  using runs_refine [OF sched_init_refines(2,3) example_running(1)] example_fresh by auto

section \<open>Properties\<close>

text \<open>
  C10. After \<open>ns_sched_init\<close> over threads that are on no run queue, every sequence of scheduler
  calls that respects the contracts runs without following a null pointer and without an
  endless list walk, and has the effect of the specification in which the ready, blocked and
  sleep lists are plain lists. In the state it ends in, the lists are duplicate free, their
  members are in the matching thread state (so no thread is in two lists), sleepers are ordered
  by deadline, and the idle thread is in none of them.
\<close>

theorem scheduler_refines_spec:
  assumes "quantum \<noteq> 0" and "\<forall>t. \<not> on_run_queue (thr s t)"
    and "contracts ops_list (spec_initial s new_ops quantum)"
  shows "\<exists>s'. foldM sched_exec ops_list (snd (ns_sched_init s new_ops quantum)) = Some s' \<and>
           refines s' (fold spec_exec ops_list (spec_initial s new_ops quantum)) \<and>
           spec_wf (fold spec_exec ops_list (spec_initial s new_ops quantum))"
  using runs_refine [OF sched_init_refines(2,3) [OF assms(1,2)] assms(3)] .

theorem scheduler_refines_spec_witness:
  "\<exists>s'. foldM sched_exec example_start (snd (ns_sched_init example_sched example_ops 5)) = Some s' \<and>
     refines s' example_spec \<and> spec_wf example_spec"
  using scheduler_refines_spec [OF _ example_fresh example_running(1)] by simp

text \<open>
  C11. Round robin: while a running thread is current and preemption is enabled, the thread at
  position \<open>k\<close> of the ready queue is current after exactly \<open>k + 1\<close> calls of
  \<open>ns_sched_reschedule\<close>, and the threads before it have moved behind the one that was running, in
  their order. No ready thread is passed over.
\<close>

theorem round_robin_fair:
  assumes "refines s a" and "spec_wf a" and "preempt_disable_depth a = 0" and "current a = Some t"
    "idle a \<noteq> Some t" "t_state (q_thr a t) = NS_THREAD_RUNNING" and "k < length (q_ready a)"
  shows "\<exists>s' b. reschedules (Suc k) s = Some s' \<and> refines s' b \<and> spec_wf b \<and>
           current s' = Some (q_ready a ! k) \<and>
           q_ready b = drop (Suc k) (q_ready a) @ t # take k (q_ready a)"
  using reschedules_reach [OF assms] refines_same(2) by metis

theorem round_robin_fair_witness:
  "\<exists>s s'. foldM sched_exec example_start (snd (ns_sched_init example_sched example_ops 5)) = Some s \<and>
     reschedules 2 s = Some s' \<and> current s' = Some 3"
proof -
  obtain s where s: "foldM sched_exec example_start (snd (ns_sched_init example_sched example_ops 5)) = Some s"
    "refines s example_spec" "spec_wf example_spec"
    by (rule example_state)
  show ?thesis
    using round_robin_fair [OF s(2,3), of 1 1] example_running s(1) by (auto simp: numeral_2_eq_2)
qed

text \<open>
  C12. The two-phase wait loses no wakeup: when the current thread has prepared to block on an
  event and the event is signalled before it commits, \<open>ns_sched_wake\<close> counts it, and
  \<open>ns_sched_commit_block\<close> returns with the thread still current and running, off the ready queue,
  and without a context switch.
\<close>

theorem no_lost_wakeup:
  assumes ref: "refines s a" and wf: "spec_wf a" and t: "current a = Some t" "idle a \<noteq> Some t"
    and run: "t_state (q_thr a t) = NS_THREAD_RUNNING" and k: "kind \<noteq> NS_WAIT_NONE" "maximum \<noteq> 0"
  shows "\<exists>n s1 s2. ns_sched_wake kind key maximum (ns_sched_prepare_block kind key s) = Some (n, s1) \<and> 1 \<le> n \<and>
           ns_sched_commit_block s1 = Some s2 \<and> current s2 = Some t \<and>
           t_state (thr s2 t) = NS_THREAD_RUNNING \<and> \<not> on_run_queue (thr s2 t) \<and>
           context_switches s2 = context_switches s"
proof -
  have nq: "\<not> queued a t" using running_not_queued [OF wf run] .
  define b where "b = spec_prepare_block kind key a"
  have refb: "refines (ns_sched_prepare_block kind key s) b" unfolding b_def
    using refines_prepare [OF ref] nq t(1) by (auto simp: queued_def)
  have wfb: "spec_wf b" unfolding b_def using spec_wf_prepare [OF wf] nq t(1) by (simp add: caller_runs_def)
  obtain n c where nc: "spec_wake kind key maximum b = (n, c)" by fastforce
  have c: "1 \<le> n" "current c = Some t" "t \<in> set (q_ready c)" "t_state (q_thr c t) = NS_THREAD_READY"
    "context_switches c = context_switches a" "distinct (q_ready c)"
    using wake_finds_preparer [OF wf t nq k b_def] nc by auto
  have wfc: "spec_wf c" using spec_wf_wake [OF wfb, of kind key maximum] nc by simp
  obtain s1 where s1: "ns_sched_wake kind key maximum (ns_sched_prepare_block kind key s) = Some (n, s1)" "refines s1 c"
    using corres_wake [OF refb wfb, of kind key maximum] nc by auto
  obtain s2 where s2: "ns_sched_commit_block s1 = Some s2" "refines s2 (spec_commit_block c)"
    using corres_commit [OF s1(2) wfc] c(2) by (auto simp: corres_def)
  note d = commit_after_wake [OF c(2,3,4)]
  have "t \<notin> set (q_ready (spec_commit_block c))" using d(3) c(6) by simp
  then show ?thesis
    using s1(1) s2 c d refines_same(2,8) [OF s2(2)] refines_thr(1,8) [OF s2(2)] refines_same(8) [OF ref] by auto
qed

theorem no_lost_wakeup_witness:
  "\<exists>s n s1 s2. foldM sched_exec example_start (snd (ns_sched_init example_sched example_ops 5)) = Some s \<and>
     ns_sched_wake NS_WAIT_IO 7 1 (ns_sched_prepare_block NS_WAIT_IO 7 s) = Some (n, s1) \<and>
     ns_sched_commit_block s1 = Some s2 \<and> current s2 = Some 1"
proof -
  obtain s where s: "foldM sched_exec example_start (snd (ns_sched_init example_sched example_ops 5)) = Some s"
    "refines s example_spec" "spec_wf example_spec"
    by (rule example_state)
  show ?thesis
    using no_lost_wakeup [OF s(2,3), of 1 NS_WAIT_IO 1 7] example_running s(1) by auto
qed



text \<open>
  C14. \<open>ns_sched_wake\<close> makes ready the first \<open>maximum\<close> threads of the blocked list that wait for
  the given kind and key (the list holds the most recent blocker first) and no others, in list
  order at the end of the ready queue, and returns how many they were.
\<close>

theorem wake_exact:
  assumes ref: "refines s a" and wf: "spec_wf a" and k: "kind \<noteq> NS_WAIT_NONE" "maximum \<noteq> 0"
    and woken: "woken = take (unat maximum) (filter (waits_for a kind key) (q_blocked a))"
  shows "\<exists>n s' b. ns_sched_wake kind key maximum s = Some (n, s') \<and> refines s' b \<and> spec_wf b \<and>
           unat n = length woken \<and> q_ready b = q_ready a @ woken \<and>
           set (q_blocked b) = set (q_blocked a) - set woken \<and>
           (\<forall>t. t \<notin> set woken \<longrightarrow> q_thr b t = q_thr a t)"
proof -
  obtain n b where nb: "spec_wake_list kind key maximum 0 [] (q_blocked a) (enter_critical a) = (n, b)" by fastforce
  have eq: "waits_for (enter_critical a) kind key = waits_for a kind key" by (simp add: waits_for_def fun_eq_iff)
  have "distinct (q_blocked a)" using wf by (simp add: spec_wf_def)
  then have b: "q_ready b = q_ready a @ woken" "set (q_blocked b) = set (q_blocked a) - set woken"
    "unat n = length woken" "\<forall>t. t \<notin> set woken \<longrightarrow> q_thr b t = q_thr a t"
    using wake_list_queues [of "enter_critical a" "[]" "q_blocked a" 0 maximum kind key] nb
    unfolding eq unsigned_0 diff_zero woken [symmetric] Let_def by simp_all
  have sw: "spec_wake kind key maximum a = (n, leave_critical b)" using k nb by (simp add: spec_wake_def)
  then show ?thesis
    using corres_wake [OF ref wf, of kind key maximum] spec_wf_wake [OF wf, of kind key maximum] b
    by (auto intro!: exI [of _ "leave_critical b"])
qed

theorem wake_exact_witness:
  "\<exists>s n s'. foldM sched_exec (example_start @ [Prepare_Block NS_WAIT_IO 7, Commit_Block, Prepare_Block NS_WAIT_IO 8, Commit_Block])
       (snd (ns_sched_init example_sched example_ops 5)) = Some s \<and>
     ns_sched_wake NS_WAIT_IO 7 9 s = Some (n, s') \<and> unat n = 1"
proof -
  let ?ops = "example_start @ [Prepare_Block NS_WAIT_IO 7, Commit_Block, Prepare_Block NS_WAIT_IO 8, Commit_Block]"
  let ?a = "fold spec_exec ?ops (spec_initial example_sched example_ops 5)"
  have con: "contracts ?ops (spec_initial example_sched example_ops 5)" by code_simp
  obtain s where s: "foldM sched_exec ?ops (snd (ns_sched_init example_sched example_ops 5)) = Some s"
    "refines s ?a" "spec_wf ?a"
    using runs_refine [OF sched_init_refines(2,3) con] example_fresh by auto
  have "take (unat (9::u64)) (filter (waits_for ?a NS_WAIT_IO 7) (q_blocked ?a)) = [1]" by code_simp
  then show ?thesis using wake_exact [OF s(2,3) _ _ refl, of NS_WAIT_IO 9 7] s(1) by auto
qed


text \<open>
  C16. The contract of \<open>ns_sched_prepare_block\<close> is needed: a thread that prepares to block twice
  without being switched away in between (as when preemption is disabled) makes the blocked list
  point back to itself, and waking any other kind of event never returns.
\<close>

theorem double_prepare_diverges:
  assumes cur: "current s = Some t" "idle s \<noteq> Some t" and k: "kind \<noteq> NS_WAIT_NONE" "other \<noteq> NS_WAIT_NONE"
    "other \<noteq> kind" and m: "maximum \<noteq> 0"
  shows "ns_sched_wake other key2 maximum
           (ns_sched_prepare_block kind key (ns_sched_prepare_block kind key s)) = None"
proof -
  let ?s = "ns_sched_prepare_block kind key (ns_sched_prepare_block kind key s)"
  have "loops_at t other None (enter_critical ?s)"
    using cur k(1,3)
    by (simp add: loops_at_def ns_sched_prepare_block_def Let_def upd_def enter_critical_def leave_critical_def)
  moreover have "0 < maximum" using m by (simp add: word_gt_0)
  ultimately have "wake_loop other key2 maximum 0 None (enter_critical ?s) = None"
    using wake_loop_cyclic [of other key2 maximum 0 None "enter_critical ?s" _ t]
    by (cases "wake_loop other key2 maximum 0 None (enter_critical ?s)") auto
  then show ?thesis using k(2) m by (simp add: ns_sched_wake_def)
qed

theorem double_prepare_diverges_witness:
  "ns_sched_wake NS_WAIT_CHILD 0 1 (ns_sched_prepare_block NS_WAIT_IO 7
     (ns_sched_prepare_block NS_WAIT_IO 7 (example_sched\<lparr>current := Some 3, idle := Some 2\<rparr>))) = None"
  using double_prepare_diverges [of "example_sched\<lparr>current := Some 3, idle := Some 2\<rparr>" 3 NS_WAIT_IO NS_WAIT_CHILD 1 0 7]
  by simp

end
