(* ===== verification/Ring.thy ===== *)
theory Ring
  imports Prelude
begin

text \<open>
  Ring buffers: the \<open>n\<close> elements of an array from position \<open>h\<close> on, wrapped around its end, as a list;
  taking from the front and putting behind the used part. Pipes and the receive queues of UDP are
  such buffers.
\<close>

definition ring :: "'a list \<Rightarrow> nat \<Rightarrow> nat \<Rightarrow> 'a list" where
  "ring buf h n = map (\<lambda>i. buf ! ((h + i) mod length buf)) [0..<n]"

lemma length_ring [simp]: "length (ring buf h n) = n"
  by (simp add: ring_def)

lemma ring_take: "k \<le> n \<Longrightarrow> take k (ring buf h n) = ring buf h k"
  by (simp add: ring_def take_map min_def)

lemma ring_drop: "k \<le> n \<Longrightarrow> drop k (ring buf h n) = ring buf ((h + k) mod length buf) (n - k)"
  by (rule nth_equalityI) (auto simp add: ring_def mod_add_left_eq add.assoc nth_upt)

text \<open>Writing behind the used part appends.\<close>

lemma ring_slots_distinct:
  assumes "i < L" "j < L" "(h + i) mod L = (h + j) mod L"
  shows "i = (j::nat)"
proof (cases i j rule: linorder_le_cases)
  case le
  then have "L dvd j - i" using mod_eq_dvd_iff_nat [of "h + i" "h + j" L] assms by simp
  then show ?thesis using le assms by (metis dvd_imp_le diff_is_0_eq' le_antisym less_imp_diff_less not_le zero_less_diff)
next
  case ge
  then have "L dvd i - j" using mod_eq_dvd_iff_nat [of "h + j" "h + i" L] assms by simp
  then show ?thesis using ge assms by (metis dvd_imp_le diff_is_0_eq' le_antisym less_imp_diff_less not_le zero_less_diff)
qed

fun put_ring :: "'a list \<Rightarrow> nat \<Rightarrow> 'a list \<Rightarrow> 'a list" where
  "put_ring buf t [] = buf"
| "put_ring buf t (x # xs) = put_ring (buf[t mod length buf := x]) (Suc t) xs"

lemma length_put_ring [simp]: "length (put_ring buf t xs) = length buf"
  by (induction buf t xs rule: put_ring.induct) simp_all

lemma ring_put_one:
  assumes "n < length buf"
  shows "ring (buf[(h + n) mod length buf := x]) h (Suc n) = ring buf h n @ [x]"
proof -
  have "(h + i) mod length buf \<noteq> (h + n) mod length buf" if "i < n" for i
    using ring_slots_distinct [of i "length buf" n h] assms that by auto
  moreover have "(h + n) mod length buf < length buf" using assms by (intro mod_less_divisor) auto
  ultimately show ?thesis
    by (auto simp: ring_def intro!: nth_list_update_neq [OF not_sym])
qed

lemma ring_put:
  "n + length xs \<le> length buf \<Longrightarrow>
   ring (put_ring buf (h + n) xs) h (n + length xs) = ring buf h n @ xs"
proof (induction xs arbitrary: buf n)
  case (Cons x xs)
  let ?buf = "buf[(h + n) mod length buf := x]"
  have "ring (put_ring ?buf (h + Suc n) xs) h (Suc n + length xs) = ring ?buf h (Suc n) @ xs"
    using Cons.IH [of "Suc n" ?buf] Cons.prems by simp
  then show ?case using ring_put_one [of n buf h x] Cons.prems by simp
qed simp

lemma put_ring_snoc:
  "put_ring buf t (xs @ [x]) = (put_ring buf t xs)[(t + length xs) mod length buf := x]"
  by (induction buf t xs rule: put_ring.induct) simp_all

end
