(* ===== verification/Pipe.thy ===== *)
theory Pipe
  imports Ring Errno Scheduler
begin

text \<open>
  Pipes, \<open>kernel/proc/pipe.c\<close>: a ring buffer of bytes between readers and writers.

  Other threads act on the pipe whenever its lock is free. The model takes the interference as a
  list \<open>env\<close> of state changes, one for every acquisition of the lock by the modelled call: the call
  finds the pipe as the next one left it. A call that needs the lock more often than \<open>env\<close> is long
  never gets it again and is \<open>None\<close>, as is an access outside the buffer. The calls into the runtime
  are recorded in \<open>p_calls\<close>. \<open>ns_pipe_create\<close> is modelled up to the file objects it wraps around
  the endpoints.
\<close>

section \<open>Data\<close>

abbreviation (input) NS_PIPE_DEFAULT_CAPACITY :: u64 where "NS_PIPE_DEFAULT_CAPACITY \<equiv> 4096"
abbreviation (input) NS_PIPE_ATOMIC_MAX :: u64 where "NS_PIPE_ATOMIC_MAX \<equiv> 512"

text \<open>Which of the optional callbacks of \<open>struct ns_pipe_runtime\<close> are present.\<close>

record ns_pipe_runtime =
  has_lock :: bool
  has_unlock :: bool
  has_prepare_block :: bool
  has_commit_block :: bool
  has_wake :: bool

datatype pipe_call =
    Pipe_Lock | Pipe_Unlock | Pipe_Prepare ns_wait_kind | Pipe_Commit | Pipe_Wake ns_wait_kind u64
  | Free_Endpoint | Free_Buffer | Free_Pipe

text \<open>\<open>p_address\<close> is the address of the object and \<open>p_freed\<close> says that its memory was given back.\<close>

record ns_pipe =
  p_address :: u64
  p_freed :: bool
  p_runtime :: ns_pipe_runtime
  p_buffer :: "u8 list"
  p_capacity :: u64
  p_head :: u64
  p_used :: u64
  p_readers :: u32
  p_writers :: u32
  p_calls :: "pipe_call list"

type_synonym pipe_env = "(ns_pipe \<Rightarrow> ns_pipe) list"

definition p_call :: "bool \<Rightarrow> pipe_call \<Rightarrow> ns_pipe \<Rightarrow> ns_pipe" where
  "p_call present c p = (if present then p\<lparr>p_calls := p_calls p @ [c]\<rparr> else p)"

section \<open>Operations\<close>

definition pipe_lock :: "(ns_pipe \<Rightarrow> ns_pipe) \<Rightarrow> ns_pipe \<Rightarrow> ns_pipe" where
  "pipe_lock e p = (let p = e p in p_call (has_lock (p_runtime p)) Pipe_Lock p)"

definition pipe_unlock :: "ns_pipe \<Rightarrow> ns_pipe" where
  "pipe_unlock p = p_call (has_unlock (p_runtime p)) Pipe_Unlock p"

definition pipe_wake :: "ns_wait_kind \<Rightarrow> u64 \<Rightarrow> ns_pipe \<Rightarrow> ns_pipe" where
  "pipe_wake kind maximum p = p_call (has_wake (p_runtime p)) (Pipe_Wake kind maximum) p"

definition pipe_free :: "ns_pipe \<Rightarrow> ns_pipe" where
  "pipe_free p = (p_call True Free_Pipe (p_call True Free_Buffer p))\<lparr>p_freed := True\<rparr>"

definition can_block :: "ns_pipe \<Rightarrow> bool" where
  "can_block p \<longleftrightarrow> has_prepare_block (p_runtime p) \<and> has_commit_block (p_runtime p)"

text \<open>Prepare, release the lock, commit: the waiting part of the loops.\<close>

definition pipe_wait :: "ns_wait_kind \<Rightarrow> ns_pipe \<Rightarrow> ns_pipe" where
  "pipe_wait kind p =
     p_call True Pipe_Commit (pipe_unlock (p_call True (Pipe_Prepare kind) p))"

definition ring_slot :: "ns_pipe \<Rightarrow> u64 \<Rightarrow> nat option" where
  "ring_slot p i = (if p_capacity p = 0 then None else Some (unat (i mod p_capacity p)))"

text \<open>The critical section that takes \<open>copied\<close> bytes out.\<close>

definition pipe_take :: "u64 \<Rightarrow> ns_pipe \<Rightarrow> (u8 list \<times> ns_pipe) option" where
  "pipe_take copied p = do {
     out \<leftarrow> run_u64 0 copied 1
       (\<lambda>i out. do { b \<leftarrow> do { j \<leftarrow> ring_slot p (p_head p + i); load_at (p_buffer p) j }; Some (out @ [b]) }) [];
     Some (out, p\<lparr>p_head := (p_head p + copied) mod p_capacity p, p_used := p_used p - copied\<rparr>)
   }"

fun pipe_read_loop ::
  "pipe_env \<Rightarrow> u64 \<Rightarrow> ns_pipe \<Rightarrow> (u64 ns_result \<times> u8 list \<times> ns_pipe) option" where
  "pipe_read_loop [] count p = None"
| "pipe_read_loop (e # env) count p =
     (let p = pipe_lock e p in
      if p_used p \<noteq> 0 then do {
        let copied = (if count < p_used p then count else p_used p);
        (out, p) \<leftarrow> pipe_take copied p;
        let p = pipe_wake NS_WAIT_PIPE_WRITE (-1) (pipe_unlock p);
        Some (Ok copied, out, p)
      }
      else if p_writers p = 0 then Some (Ok 0, [], pipe_unlock p)
      else if \<not> can_block p then Some (Fail NS_EAGAIN, [], pipe_unlock p)
      else pipe_read_loop env count (pipe_wait NS_WAIT_PIPE_READ p))"

text \<open>
  A call on an endpoint; \<open>writable\<close> is its direction, \<open>buffer_null\<close> says whether the caller's
  buffer pointer is null.
\<close>

definition pipe_read ::
  "bool \<Rightarrow> bool \<Rightarrow> pipe_env \<Rightarrow> u64 \<Rightarrow> ns_pipe \<Rightarrow> (u64 ns_result \<times> u8 list \<times> ns_pipe) option" where
  "pipe_read writable buffer_null env count p =
     (if writable \<or> buffer_null then Some (Fail NS_EBADF, [], p)
      else if count = 0 then Some (Ok 0, [], p)
      else pipe_read_loop env count p)"

text \<open>The critical section that puts \<open>chunk\<close> bytes in.\<close>

definition pipe_put :: "u8 list \<Rightarrow> u64 \<Rightarrow> u64 \<Rightarrow> ns_pipe \<Rightarrow> ns_pipe option" where
  "pipe_put input written chunk p = do {
     buf \<leftarrow> run_u64 0 chunk 1
       (\<lambda>i buf. do { tail \<leftarrow> ring_slot p (p_head p + p_used p + i);
                    b \<leftarrow> load_at input (unat (written + i));
                    store_at buf tail b }) (p_buffer p);
     Some (p\<lparr>p_buffer := buf, p_used := p_used p + chunk\<rparr>)
   }"

fun pipe_write_loop ::
  "pipe_env \<Rightarrow> u8 list \<Rightarrow> u64 \<Rightarrow> u64 \<Rightarrow> ns_pipe \<Rightarrow> (u64 ns_result \<times> ns_pipe) option" where
  "pipe_write_loop [] input count written p =
     (if written < count then None else Some (Ok written, p))"
| "pipe_write_loop (e # env) input count written p =
     (if \<not> written < count then Some (Ok written, p)
      else
        let p = pipe_lock e p in
        if p_readers p = 0
        then Some (if written \<noteq> 0 then Ok written else Fail NS_EPIPE, pipe_unlock p)
        else
          let available = p_capacity p - p_used p in
          if count \<le> NS_PIPE_ATOMIC_MAX \<and> available < count then
            if \<not> can_block p then Some (Fail NS_EAGAIN, pipe_unlock p)
            else pipe_write_loop env input count written (pipe_wait NS_WAIT_PIPE_WRITE p)
          else if available = 0 then
            let p = pipe_unlock p in
            if written \<noteq> 0 then Some (Ok written, p)
            else if \<not> can_block p then Some (Fail NS_EAGAIN, p)
            else case env of
              [] \<Rightarrow> None
            | e2 # env2 \<Rightarrow>
                let p = pipe_lock e2 p in
                if p_capacity p \<noteq> p_used p
                then pipe_write_loop env2 input count written (pipe_unlock p)
                else pipe_write_loop env2 input count written (pipe_wait NS_WAIT_PIPE_WRITE p)
          else do {
            let chunk = (if count - written > available then available else count - written);
            p \<leftarrow> pipe_put input written chunk p;
            let p = pipe_wake NS_WAIT_PIPE_READ (-1) (pipe_unlock p);
            pipe_write_loop env input count (written + chunk) p
          })"

definition pipe_write ::
  "bool \<Rightarrow> pipe_env \<Rightarrow> u8 list option \<Rightarrow> u64 \<Rightarrow> ns_pipe \<Rightarrow> (u64 ns_result \<times> ns_pipe) option" where
  "pipe_write writable env input count p =
     (case input of
        None \<Rightarrow> Some (Fail NS_EBADF, p)
      | Some bytes \<Rightarrow>
          if \<not> writable then Some (Fail NS_EBADF, p)
          else if count = 0 then Some (Ok 0, p)
          else pipe_write_loop env bytes count 0 p)"

datatype ns_file_type =
    NS_FT_UNKNOWN | NS_FT_REGULAR | NS_FT_DIRECTORY | NS_FT_CHAR | NS_FT_BLOCK | NS_FT_PIPE
  | NS_FT_SOCKET

record ns_vfs_node_info =
  ni_inode :: u64
  ni_size :: u64
  ni_blocks :: u64
  ni_mtime_ns :: u64
  ni_mode :: u32
  ni_type :: ns_file_type

definition pipe_stat ::
  "bool \<Rightarrow> (ns_pipe \<Rightarrow> ns_pipe) \<Rightarrow> ns_pipe \<Rightarrow> ns_vfs_node_info \<times> ns_pipe" where
  "pipe_stat writable e p =
     (let p = pipe_lock e p in
      (\<lparr>ni_inode = p_address p, ni_size = p_used p, ni_blocks = 0, ni_mtime_ns = 0,
        ni_mode = (if writable then 0x80 else 0x100), ni_type = NS_FT_PIPE\<rparr>, pipe_unlock p))"

text \<open>
  Closing an endpoint. \<open>e2\<close> is what other threads do between the release of the lock and the
  wake-up, which reads the runtime out of the pipe object: the access faults once that is freed.
\<close>

definition pipe_close ::
  "bool \<Rightarrow> (ns_pipe \<Rightarrow> ns_pipe) \<Rightarrow> (ns_pipe \<Rightarrow> ns_pipe) \<Rightarrow> ns_pipe \<Rightarrow> ns_pipe option" where
  "pipe_close writable e e2 p =
     (let p = pipe_lock e p;
          p = (if writable then if p_writers p \<noteq> 0 then p\<lparr>p_writers := p_writers p - 1\<rparr> else p
               else if p_readers p \<noteq> 0 then p\<lparr>p_readers := p_readers p - 1\<rparr> else p);
          release = (p_readers p = 0 \<and> p_writers p = 0);
          p = e2 (pipe_unlock p) in
      if p_freed p then None
      else
        let p = (if writable then pipe_wake NS_WAIT_PIPE_READ (-1) p
                 else pipe_wake NS_WAIT_PIPE_WRITE (-1) p);
            p = p_call True Free_Endpoint p in
        Some (if release then pipe_free p else p))"

text \<open>The pipe object that \<open>ns_pipe_create\<close> sets up, once its memory has been allocated.\<close>

definition pipe_capacity :: "u64 \<Rightarrow> u64 option" where
  "pipe_capacity requested =
     (let capacity = (if requested \<noteq> 0 then requested else NS_PIPE_DEFAULT_CAPACITY) in
      if capacity < NS_PIPE_ATOMIC_MAX then None else Some capacity)"

definition pipe_init :: "u64 \<Rightarrow> ns_pipe_runtime \<Rightarrow> u8 list \<Rightarrow> u64 \<Rightarrow> ns_pipe" where
  "pipe_init address runtime memory capacity =
     \<lparr>p_address = address, p_freed = False, p_runtime = runtime, p_buffer = memory, p_capacity = capacity, p_head = 0, p_used = 0,
      p_readers = 1, p_writers = 1, p_calls = []\<rparr>"

section \<open>The ring buffer as a queue\<close>

definition pipe_ok :: "ns_pipe \<Rightarrow> bool" where
  "pipe_ok p \<longleftrightarrow>
     length (p_buffer p) = unat (p_capacity p) \<and> 512 \<le> unat (p_capacity p) \<and>
     unat (p_capacity p) < 2 ^ 62 \<and> p_head p < p_capacity p \<and> p_used p \<le> p_capacity p"

definition pipe_bytes :: "ns_pipe \<Rightarrow> u8 list" where
  "pipe_bytes p = ring (p_buffer p) (unat (p_head p)) (unat (p_used p))"

lemma length_pipe_bytes [simp]: "length (pipe_bytes p) = unat (p_used p)"
  by (simp add: pipe_bytes_def)

section \<open>The specification\<close>

text \<open>
  A pipe is a bounded queue of bytes with a number of readers and writers. A call waits, once per
  turn in which it gets the pipe, until it can proceed.
\<close>

record pipe_spec =
  q_bytes :: "u8 list"
  q_capacity :: nat
  q_readers :: u32
  q_writers :: u32
  q_block :: bool

type_synonym spec_env = "(pipe_spec \<Rightarrow> pipe_spec) list"

definition pipe_view :: "ns_pipe \<Rightarrow> pipe_spec" where
  "pipe_view p =
     \<lparr>q_bytes = pipe_bytes p, q_capacity = unat (p_capacity p), q_readers = p_readers p,
      q_writers = p_writers p, q_block = can_block p\<rparr>"

fun spec_read :: "spec_env \<Rightarrow> nat \<Rightarrow> pipe_spec \<Rightarrow> (u64 ns_result \<times> u8 list \<times> pipe_spec) option" where
  "spec_read [] n q = None"
| "spec_read (f # fs) n q =
     (let q = f q; bytes = q_bytes q in
      if bytes \<noteq> [] then
        Some (Ok (of_nat (min n (length bytes))), take n bytes, q\<lparr>q_bytes := drop n bytes\<rparr>)
      else if q_writers q = 0 then Some (Ok 0, [], q)
      else if \<not> q_block q then Some (Fail NS_EAGAIN, [], q)
      else spec_read fs n q)"

text \<open>\<open>whole\<close> is the length of the whole write, \<open>bytes\<close> what is left of it.\<close>

fun spec_write :: "spec_env \<Rightarrow> nat \<Rightarrow> u8 list \<Rightarrow> pipe_spec \<Rightarrow> (u64 ns_result \<times> pipe_spec) option" where
  "spec_write [] whole bytes q = (if bytes = [] then Some (Ok (of_nat whole), q) else None)"
| "spec_write (f # fs) whole bytes q =
     (if bytes = [] then Some (Ok (of_nat whole), q)
      else
        let q = f q; room = q_capacity q - length (q_bytes q); done = whole - length bytes in
        if q_readers q = 0 then Some (if done = 0 then Fail NS_EPIPE else Ok (of_nat done), q)
        else if whole \<le> 512 \<and> room < whole then
          if q_block q then spec_write fs whole bytes q else Some (Fail NS_EAGAIN, q)
        else if room = 0 then
          if done \<noteq> 0 then Some (Ok (of_nat done), q)
          else if \<not> q_block q then Some (Fail NS_EAGAIN, q)
          else (case fs of [] \<Rightarrow> None | g # gs \<Rightarrow> spec_write gs whole bytes (g q))
        else spec_write fs whole (drop room bytes) (q\<lparr>q_bytes := q_bytes q @ take room bytes\<rparr>))"

section \<open>The ring buffer implements the specification\<close>

text \<open>Interference that keeps the invariant and whose effect the specification describes.\<close>

definition env_matches :: "pipe_env \<Rightarrow> spec_env \<Rightarrow> bool" where
  "env_matches env fs \<longleftrightarrow>
     list_all2 (\<lambda>e f. \<forall>p. pipe_ok p \<longrightarrow> pipe_ok (e p) \<and> pipe_view (e p) = f (pipe_view p)) env fs"

lemma pipe_ok_p_call [simp]: "pipe_ok (p_call b c p) = pipe_ok p"
  by (simp add: p_call_def pipe_ok_def)

lemma pipe_view_p_call [simp]: "pipe_view (p_call b c p) = pipe_view p"
  by (simp add: p_call_def pipe_view_def pipe_bytes_def can_block_def)

lemma pipe_ok_calls [simp]:
  "pipe_ok (pipe_unlock p) = pipe_ok p" "pipe_ok (pipe_wake k n p) = pipe_ok p"
  "pipe_ok (pipe_wait k p) = pipe_ok p" "pipe_ok (pipe_lock e p) = pipe_ok (e p)"
  by (simp_all add: pipe_unlock_def pipe_wake_def pipe_wait_def pipe_lock_def Let_def)

lemma pipe_view_calls [simp]:
  "pipe_view (pipe_unlock p) = pipe_view p" "pipe_view (pipe_wake k n p) = pipe_view p"
  "pipe_view (pipe_wait k p) = pipe_view p" "pipe_view (pipe_lock e p) = pipe_view (e p)"
  by (simp_all add: pipe_unlock_def pipe_wake_def pipe_wait_def pipe_lock_def Let_def)

lemma can_block_unlock [simp]: "can_block (pipe_unlock p) = can_block p"
  by (simp add: can_block_def pipe_unlock_def p_call_def)

lemma pipe_view_sel [simp]:
  "q_bytes (pipe_view p) = pipe_bytes p" "q_capacity (pipe_view p) = unat (p_capacity p)"
  "q_readers (pipe_view p) = p_readers p" "q_writers (pipe_view p) = p_writers p"
  "q_block (pipe_view p) = can_block p"
  by (simp_all add: pipe_view_def)

lemma ring_slot_ok:
  assumes "pipe_ok p"
  shows "ring_slot p i = Some (unat i mod length (p_buffer p))"
    and "unat i mod length (p_buffer p) < length (p_buffer p)"
  using assms by (auto simp: ring_slot_def pipe_ok_def unat_mod)

lemma pipe_okD:
  assumes "pipe_ok p"
  shows "length (p_buffer p) = unat (p_capacity p)" "512 \<le> unat (p_capacity p)"
    "unat (p_capacity p) < 4611686018427387904" "unat (p_head p) < unat (p_capacity p)"
    "unat (p_used p) \<le> unat (p_capacity p)"
  using assms by (simp_all add: pipe_ok_def word_le_nat_alt word_less_nat_alt)

lemma unat_add_small: "unat x + unat (y :: u64) < 18446744073709551616 \<Longrightarrow> unat (x + y) = unat x + unat y"
  by (simp add: unat_add_lem [symmetric])

lemma pipe_take_ok:
  assumes ok: "pipe_ok p" and n: "n \<le> p_used p"
  obtains p' where "pipe_take n p = Some (take (unat n) (pipe_bytes p), p')" "pipe_ok p'"
    "pipe_view p' = (pipe_view p)\<lparr>q_bytes := drop (unat n) (pipe_bytes p)\<rparr>"
proof -
  define L where "L = length (p_buffer p)"
  define h where "h = unat (p_head p)"
  note w = pipe_okD [OF ok]
  have nn: "unat n \<le> unat (p_used p)" using n by (simp add: word_le_nat_alt)
  have "do { j \<leftarrow> ring_slot p (p_head p + i); load_at (p_buffer p) j } =
      Some (p_buffer p ! ((h + unat i) mod L))" if "i < n" for i
  proof -
    have "unat i < unat n" using that by (simp add: word_less_nat_alt)
    then have "unat (p_head p + i) = h + unat i"
      unfolding h_def using w nn by (intro unat_add_small) linarith
    then show ?thesis using ring_slot_ok [OF ok, of "p_head p + i"] by (simp add: L_def)
  qed
  from run_u64_collect [where h = "\<lambda>i. p_buffer p ! ((h + i) mod L)", OF this]
  have out: "run_u64 0 n 1 (\<lambda>i out. do { b \<leftarrow> do { j \<leftarrow> ring_slot p (p_head p + i); load_at (p_buffer p) j };
       Some (out @ [b]) }) [] = Some (ring (p_buffer p) h (unat n))"
    by (simp add: ring_def L_def)
  define p' where "p' = p\<lparr>p_head := (p_head p + n) mod p_capacity p, p_used := p_used p - n\<rparr>"
  have head: "unat ((p_head p + n) mod p_capacity p) = (h + unat n) mod L"
    using unat_add_small [of "p_head p" n] w nn by (simp add: unat_mod h_def L_def)
  have used: "unat (p_used p - n) = unat (p_used p) - unat n" using n by (simp add: unat_sub)
  show thesis
  proof
    show "pipe_take n p = Some (take (unat n) (pipe_bytes p), p')"
      using out nn by (simp add: pipe_take_def p'_def pipe_bytes_def ring_take h_def)
    show "pipe_ok p'"
      using w head used by (auto simp: p'_def pipe_ok_def word_le_nat_alt word_less_nat_alt L_def)
    show "pipe_view p' = (pipe_view p)\<lparr>q_bytes := drop (unat n) (pipe_bytes p)\<rparr>"
      using nn ring_drop [of "unat n" "unat (p_used p)" "p_buffer p" h]
      by (simp add: pipe_view_def p'_def pipe_bytes_def head used can_block_def L_def h_def)
  qed
qed

lemma pipe_put_ok:
  assumes ok: "pipe_ok p" and room: "unat (p_used p) + unat n \<le> unat (p_capacity p)"
    and input: "unat at + unat n \<le> length input" "unat at + unat n < 18446744073709551616"
  obtains p' where "pipe_put input at n p = Some p'" "pipe_ok p'"
    "pipe_view p' = (pipe_view p)\<lparr>q_bytes := pipe_bytes p @ take (unat n) (drop (unat at) input)\<rparr>"
proof -
  define L where "L = length (p_buffer p)"
  define h where "h = unat (p_head p)"
  define u where "u = unat (p_used p)"
  define xs where "xs = take (unat n) (drop (unat at) input)"
  note w = pipe_okD [OF ok]
  have len: "length xs = unat n" using input by (simp add: xs_def)
  let ?body = "\<lambda>i buf. do { tail \<leftarrow> ring_slot p (p_head p + p_used p + i);
                    b \<leftarrow> load_at input (unat (at + i)); store_at buf tail b }"
  have step: "?body i (put_ring (p_buffer p) (h + u) (take (unat i) xs)) =
      Some (put_ring (p_buffer p) (h + u) (take (Suc (unat i)) xs))" if "i < n" for i
  proof -
    have i: "unat i < unat n" using that by (simp add: word_less_nat_alt)
    have "unat (p_head p + p_used p) = h + u"
      unfolding h_def u_def using w by (intro unat_add_small) linarith
    then have slot: "unat (p_head p + p_used p + i) = h + u + unat i"
      using unat_add_small [of "p_head p + p_used p" i] w room i unfolding h_def u_def by linarith
    have "unat (at + i) = unat at + unat i" using input i by (intro unat_add_small) linarith
    moreover have "input ! (unat at + unat i) = xs ! unat i" using i input by (simp add: xs_def)
    moreover have "take (Suc (unat i)) xs = take (unat i) xs @ [xs ! unat i]"
      using i len by (simp add: take_Suc_conv_app_nth)
    ultimately show ?thesis
      using ring_slot_ok [OF ok, of "p_head p + p_used p + i"] slot i input len
      by (simp add: put_ring_snoc min_def)
  qed
  have loop: "run_u64 0 n 1 ?body (p_buffer p) = Some (put_ring (p_buffer p) (h + u) xs)"
    using run_u64_states [where F = "\<lambda>k. put_ring (p_buffer p) (h + u) (take k xs)" and body = ?body and n = n]
      step len by simp
  define p' where "p' = p\<lparr>p_buffer := put_ring (p_buffer p) (h + u) xs, p_used := p_used p + n\<rparr>"
  have used: "unat (p_used p + n) = u + unat n"
    unfolding u_def using w room by (intro unat_add_small) linarith
  show thesis
  proof
    show "pipe_put input at n p = Some p'" using loop by (simp add: pipe_put_def p'_def)
    show "pipe_ok p'"
      using w used room by (auto simp: p'_def pipe_ok_def word_le_nat_alt word_less_nat_alt u_def)
    show "pipe_view p' = (pipe_view p)\<lparr>q_bytes := pipe_bytes p @ take (unat n) (drop (unat at) input)\<rparr>"
      using ring_put [of u xs "p_buffer p" h] room w len
      by (simp add: pipe_view_def p'_def pipe_bytes_def used can_block_def u_def h_def flip: xs_def)
  qed
qed

lemma env_matches_simps [simp]:
  "env_matches [] fs \<longleftrightarrow> fs = []"
  "env_matches (e # env) fs \<longleftrightarrow> (\<exists>f gs. fs = f # gs \<and> env_matches env gs \<and>
     (\<forall>p. pipe_ok p \<longrightarrow> pipe_ok (e p) \<and> pipe_view (e p) = f (pipe_view p)))"
  by (auto simp: env_matches_def list_all2_Cons1)

text \<open>The concrete result \<open>m\<close> keeps the invariant and is seen by the specification as \<open>a\<close>.\<close>

definition read_as ::
  "(u64 ns_result \<times> u8 list \<times> ns_pipe) option \<Rightarrow> (u64 ns_result \<times> u8 list \<times> pipe_spec) option \<Rightarrow> bool" where
  "read_as m a \<longleftrightarrow>
     map_option (\<lambda>(r, out, p). (r, out, pipe_view p)) m = a \<and> (\<forall>r out p. m = Some (r, out, p) \<longrightarrow> pipe_ok p)"

definition written_as ::
  "(u64 ns_result \<times> ns_pipe) option \<Rightarrow> (u64 ns_result \<times> pipe_spec) option \<Rightarrow> bool" where
  "written_as m a \<longleftrightarrow>
     map_option (\<lambda>(r, p). (r, pipe_view p)) m = a \<and> (\<forall>r p. m = Some (r, p) \<longrightarrow> pipe_ok p)"

lemma pipe_bytes_eq_Nil: "pipe_bytes p = [] \<longleftrightarrow> p_used p = 0"
  by (metis length_0_conv length_pipe_bytes unat_eq_zero)

lemma pipe_read_loop_refines:
  "pipe_ok p \<Longrightarrow> env_matches env fs \<Longrightarrow>
   read_as (pipe_read_loop env n p) (spec_read fs (unat n) (pipe_view p))"
proof (induction env arbitrary: fs p)
  case (Cons e env)
  obtain f gs where fs: "fs = f # gs" "env_matches env gs"
    and e: "pipe_ok (e p)" "pipe_view (e p) = f (pipe_view p)"
    using Cons.prems by auto
  define p1 where "p1 = pipe_lock e p"
  have p1: "pipe_ok p1" "f (pipe_view p) = pipe_view p1" using e by (simp_all add: p1_def)
  note sub = pipe_read_loop.simps(2) [of e env n p, folded p1_def]
  show ?case
  proof (cases "p_used p1 = 0")
    case True
    then have "pipe_bytes p1 = []" by (simp add: pipe_bytes_eq_Nil)
    then show ?thesis
      using Cons.IH [of "pipe_wait NS_WAIT_PIPE_READ p1" gs] True p1 fs
      by (simp add: sub read_as_def Let_def p1_def [symmetric])
  next
    case False
    let ?n = "if n < p_used p1 then n else p_used p1"
    have len: "unat ?n = min (unat n) (length (pipe_bytes p1))"
      by (simp add: word_less_nat_alt min_def)
    have "?n \<le> p_used p1" by (simp add: order_less_imp_le)
    from pipe_take_ok [OF p1(1) this] obtain p2 where
      "pipe_take ?n p1 = Some (take (unat ?n) (pipe_bytes p1), p2)" "pipe_ok p2"
      "pipe_view p2 = (pipe_view p1)\<lparr>q_bytes := drop (unat ?n) (pipe_bytes p1)\<rparr>" by blast
    moreover have "take (unat ?n) (pipe_bytes p1) = take (unat n) (pipe_bytes p1)"
      "drop (unat ?n) (pipe_bytes p1) = drop (unat n) (pipe_bytes p1)"
      unfolding len by (simp_all add: min_def)
    moreover have "of_nat (min (unat n) (length (pipe_bytes p1))) = ?n"
      by (simp only: len [symmetric] of_nat_unat ucast_id)
    ultimately show ?thesis
      using False p1 fs pipe_bytes_eq_Nil [of p1] by (simp add: sub read_as_def Let_def p1_def [symmetric])
  qed
qed (simp add: read_as_def)

text \<open>The turn of a write in which it puts bytes in.\<close>

lemma pipe_write_turn:
  assumes ok: "pipe_ok p" and room: "room = p_capacity p - p_used p"
    and lt: "written < n" and input: "unat n \<le> length input"
    and chunk: "chunk = (if n - written > room then room else n - written)"
  obtains p' where "pipe_put input written chunk p = Some p'" "pipe_ok p'"
    "pipe_view p' = (pipe_view p)\<lparr>q_bytes := pipe_bytes p @
       take (unat room) (drop (unat written) (take (unat n) input))\<rparr>"
    "unat (written + chunk) \<le> unat n"
    "drop (unat (written + chunk)) (take (unat n) input) =
     drop (unat room) (drop (unat written) (take (unat n) input))"
proof -
  note w = pipe_okD [OF ok]
  have lt': "unat written < unat n" using lt by (simp add: word_less_nat_alt)
  have rest: "unat (n - written) = unat n - unat written" using lt by (simp add: unat_sub order_less_imp_le)
  have r: "unat room = unat (p_capacity p) - unat (p_used p)"
    using ok by (simp add: room unat_sub pipe_ok_def)
  have c: "unat chunk = min (unat room) (unat n - unat written)"
    using rest by (auto simp: chunk word_less_nat_alt)
  have n64: "unat n < 18446744073709551616" using unsigned_less [of n, where ?'a = nat] by simp
  then have add: "unat (written + chunk) = unat written + unat chunk"
    using c lt' by (intro unat_add_small) linarith
  have "unat (p_used p) + unat chunk \<le> unat (p_capacity p)" using c r w by linarith
  moreover have "unat written + unat chunk \<le> length input" "unat written + unat chunk < 18446744073709551616"
    using c lt' input n64 by linarith+
  ultimately obtain p' where "pipe_put input written chunk p = Some p'" "pipe_ok p'"
    "pipe_view p' = (pipe_view p)\<lparr>q_bytes := pipe_bytes p @ take (unat chunk) (drop (unat written) input)\<rparr>"
    using pipe_put_ok [OF ok] by metis
  moreover have "take (unat chunk) (drop (unat written) input) =
      take (unat room) (drop (unat written) (take (unat n) input))"
    using c by (simp add: drop_take min.commute)
  moreover have "drop (unat (written + chunk)) (take (unat n) input) =
      drop (unat room) (drop (unat written) (take (unat n) input))"
    using lt' unfolding add c drop_drop
    by (cases "unat room \<le> unat n - unat written") (auto simp: min_def add.commute)
  ultimately show thesis using that add c lt' by simp
qed

text \<open>
  One turn of a write: the pipe is seen as \<open>f\<close> leaves it, and later turns behave as specified
  (\<open>later\<close>).
\<close>

definition write_refines :: "pipe_env \<Rightarrow> u8 list \<Rightarrow> u64 \<Rightarrow> bool" where
  "write_refines env input n \<longleftrightarrow>
     (\<forall>p fs written. pipe_ok p \<longrightarrow> env_matches env fs \<longrightarrow> unat written \<le> unat n \<longrightarrow>
        written_as (pipe_write_loop env input n written p)
          (spec_write fs (unat n) (drop (unat written) (take (unat n) input)) (pipe_view p)))"

lemma write_refinesD:
  "write_refines env input n \<Longrightarrow> pipe_ok p \<Longrightarrow> env_matches env fs \<Longrightarrow> unat written \<le> unat n \<Longrightarrow>
   written_as (pipe_write_loop env input n written p)
     (spec_write fs (unat n) (drop (unat written) (take (unat n) input)) (pipe_view p))"
  by (simp add: write_refines_def)

lemma written_as_Some [simp]: "written_as (Some (r, p)) (Some (r', q)) \<longleftrightarrow> r = r' \<and> pipe_view p = q \<and> pipe_ok p"
  by (auto simp: written_as_def)

lemma write_turn_closed:
  assumes p1: "pipe_ok p1" "f (pipe_view p) = pipe_view p1" "p1 = pipe_lock e p"
    and lt: "written < n" and len: "unat n \<le> length input" and closed: "p_readers p1 = 0"
  shows "written_as (pipe_write_loop (e # env) input n written p)
     (spec_write (f # fs) (unat n) (drop (unat written) (take (unat n) input)) (pipe_view p))"
proof -
  let ?left = "drop (unat written) (take (unat n) input)"
  have ne: "?left \<noteq> []" "unat n - length ?left = unat written"
    using lt len by (simp_all add: word_less_nat_alt)
  have "pipe_write_loop (e # env) input n written p =
      Some (if written \<noteq> 0 then Ok written else Fail NS_EPIPE, pipe_unlock p1)"
    using closed lt by (simp only: pipe_write_loop.simps Let_def p1(3) [symmetric]) simp
  moreover have "spec_write (f # fs) (unat n) ?left (pipe_view p) =
      Some (if unat written = 0 then Fail NS_EPIPE else Ok (of_nat (unat written)), pipe_view p1)"
    using closed ne(1) by (simp only: spec_write.simps Let_def p1(2) ne(2)) simp
  ultimately show ?thesis using p1 by (simp add: unat_eq_zero)
qed

lemma write_turn_atomic:
  assumes p1: "pipe_ok p1" "f (pipe_view p) = pipe_view p1" "p1 = pipe_lock e p"
    and lt: "written < n" and len: "unat n \<le> length input"
    and wait: "p_readers p1 \<noteq> 0" "n \<le> 512" "p_capacity p1 - p_used p1 < n"
    and later: "write_refines env input n" "env_matches env fs"
  shows "written_as (pipe_write_loop (e # env) input n written p)
     (spec_write (f # fs) (unat n) (drop (unat written) (take (unat n) input)) (pipe_view p))"
proof -
  let ?left = "drop (unat written) (take (unat n) input)"
  have room: "unat (p_capacity p1) - unat (p_used p1) = unat (p_capacity p1 - p_used p1)"
    using p1 by (simp add: unat_sub pipe_ok_def)
  have ne: "?left \<noteq> []" "unat written \<le> unat n" using lt len by (simp_all add: word_less_nat_alt)
  have "pipe_write_loop (e # env) input n written p =
      (if \<not> can_block p1 then Some (Fail NS_EAGAIN, pipe_unlock p1)
       else pipe_write_loop env input n written (pipe_wait NS_WAIT_PIPE_WRITE p1))"
    using wait lt by (simp only: pipe_write_loop.simps Let_def p1(3) [symmetric]) simp
  moreover have "spec_write (f # fs) (unat n) ?left (pipe_view p) =
      (if can_block p1 then spec_write fs (unat n) ?left (pipe_view p1) else Some (Fail NS_EAGAIN, pipe_view p1))"
    using wait ne by (simp only: spec_write.simps Let_def p1(2)) (simp add: room word_le_nat_alt word_less_nat_alt)
  ultimately show ?thesis
    using write_refinesD [OF later(1) _ later(2) ne(2), of "pipe_wait NS_WAIT_PIPE_WRITE p1"] p1(1)
    by (cases "can_block p1") simp_all
qed

lemma write_turn_full:
  assumes p1: "pipe_ok p1" "f (pipe_view p) = pipe_view p1" "p1 = pipe_lock e p"
    and lt: "written < n" and len: "unat n \<le> length input"
    and full: "p_readers p1 \<noteq> 0" "\<not> (n \<le> 512 \<and> p_capacity p1 - p_used p1 < n)"
      "p_capacity p1 - p_used p1 = 0"
    and later: "\<And>e2 env2. env = e2 # env2 \<Longrightarrow> write_refines env2 input n" "env_matches env fs"
  shows "written_as (pipe_write_loop (e # env) input n written p)
     (spec_write (f # fs) (unat n) (drop (unat written) (take (unat n) input)) (pipe_view p))"
proof -
  let ?left = "drop (unat written) (take (unat n) input)"
  let ?again = "case env of [] \<Rightarrow> None
    | e2 # env2 \<Rightarrow> pipe_write_loop env2 input n written
       (if p_capacity (pipe_lock e2 (pipe_unlock p1)) \<noteq> p_used (pipe_lock e2 (pipe_unlock p1))
        then pipe_unlock (pipe_lock e2 (pipe_unlock p1))
        else pipe_wait NS_WAIT_PIPE_WRITE (pipe_lock e2 (pipe_unlock p1)))"
  let ?spec = "case fs of [] \<Rightarrow> None | g # gs \<Rightarrow> spec_write gs (unat n) ?left (g (pipe_view p1))"
  have room: "unat (p_capacity p1) - unat (p_used p1) = unat (p_capacity p1 - p_used p1)"
    using p1 by (simp add: unat_sub pipe_ok_def)
  have ne: "?left \<noteq> []" "unat written \<le> unat n" "unat n - length ?left = unat written"
    using lt len by (simp_all add: word_less_nat_alt)
  have na: "\<not> (unat n \<le> 512 \<and> 0 < unat n)" "unat (p_capacity p1 - p_used p1) = 0"
    using full(2) by (simp_all only: full(3) word_le_nat_alt word_less_nat_alt) simp_all
  have "pipe_write_loop (e # env) input n written p =
      (if written \<noteq> 0 then Some (Ok written, pipe_unlock p1)
       else if \<not> can_block p1 then Some (Fail NS_EAGAIN, pipe_unlock p1) else ?again)"
    using full lt by (simp only: pipe_write_loop.simps Let_def p1(3) [symmetric]) (simp split: list.split)
  moreover have "spec_write (f # fs) (unat n) ?left (pipe_view p) =
      (if unat written \<noteq> 0 then Some (Ok (of_nat (unat written)), pipe_view p1)
       else if \<not> can_block p1 then Some (Fail NS_EAGAIN, pipe_view p1) else ?spec)"
    using full(1) ne(1)
    by (simp only: spec_write.simps Let_def p1(2) ne(3) pipe_view_sel length_pipe_bytes room na if_False if_True simp_thms)
  moreover have "written_as ?again ?spec"
  proof (cases env)
    case (Cons e2 env2)
    define p2 where "p2 = pipe_lock e2 (pipe_unlock p1)"
    obtain g gs where gs: "fs = g # gs" "env_matches env2 gs"
      and "pipe_ok (e2 (pipe_unlock p1))" "pipe_view (e2 (pipe_unlock p1)) = g (pipe_view (pipe_unlock p1))"
      using later(2) p1(1) Cons by auto
    then have "pipe_ok p2" "g (pipe_view p1) = pipe_view p2" by (simp_all add: p2_def)
    then show ?thesis
      using write_refinesD [OF later(1) [OF Cons] _ gs(2) ne(2), of "pipe_unlock p2"]
        write_refinesD [OF later(1) [OF Cons] _ gs(2) ne(2), of "pipe_wait NS_WAIT_PIPE_WRITE p2"]
      by (simp add: Cons gs flip: p2_def)
  qed (use later in \<open>simp add: written_as_def\<close>)
  ultimately show ?thesis
    using p1(1) by (cases "written = 0"; cases "can_block p1") (simp_all add: unat_eq_zero)
qed

lemma write_turn_put:
  assumes p1: "pipe_ok p1" "f (pipe_view p) = pipe_view p1" "p1 = pipe_lock e p"
    and lt: "written < n" and len: "unat n \<le> length input"
    and put: "p_readers p1 \<noteq> 0" "\<not> (n \<le> 512 \<and> p_capacity p1 - p_used p1 < n)"
      "p_capacity p1 - p_used p1 \<noteq> 0"
    and later: "write_refines env input n" "env_matches env fs"
  shows "written_as (pipe_write_loop (e # env) input n written p)
     (spec_write (f # fs) (unat n) (drop (unat written) (take (unat n) input)) (pipe_view p))"
proof -
  let ?left = "drop (unat written) (take (unat n) input)"
  define room where "room = p_capacity p1 - p_used p1"
  have room: "unat (p_capacity p1) - unat (p_used p1) = unat room"
    using p1 by (simp add: room_def unat_sub pipe_ok_def)
  have ne: "?left \<noteq> []" "unat written \<le> unat n" "unat n - length ?left = unat written"
    using lt len by (simp_all add: word_less_nat_alt)
  have na: "\<not> (unat n \<le> 512 \<and> unat room < unat n)" "unat room \<noteq> 0"
    using put by (simp_all add: room_def word_le_nat_alt word_less_nat_alt unat_eq_zero)
  define chunk where "chunk = (if n - written > room then room else n - written)"
  obtain p2 where p2: "pipe_put input written chunk p1 = Some p2" "pipe_ok p2"
    "pipe_view p2 = (pipe_view p1)\<lparr>q_bytes := pipe_bytes p1 @ take (unat room) ?left\<rparr>"
    "unat (written + chunk) \<le> unat n"
    "drop (unat (written + chunk)) (take (unat n) input) = drop (unat room) ?left"
    using pipe_write_turn [OF p1(1) room_def lt len chunk_def] by blast
  have "pipe_write_loop (e # env) input n written p =
      pipe_write_loop env input n (written + chunk) (pipe_wake NS_WAIT_PIPE_READ (-1) (pipe_unlock p2))"
    using put lt
    by (simp only: pipe_write_loop.simps Let_def p1(3) [symmetric] room_def [symmetric] chunk_def [symmetric])
      (simp add: p2)
  moreover have "spec_write (f # fs) (unat n) ?left (pipe_view p) =
      spec_write fs (unat n) (drop (unat room) ?left) (pipe_view p2)"
    using put(1) ne(1)
    by (simp only: spec_write.simps Let_def p1(2) ne(3) p2(3) pipe_view_sel length_pipe_bytes room na if_False simp_thms)
  moreover have "written_as (pipe_write_loop env input n (written + chunk) (pipe_wake NS_WAIT_PIPE_READ (-1) (pipe_unlock p2)))
      (spec_write fs (unat n) (drop (unat (written + chunk)) (take (unat n) input)) (pipe_view p2))"
    using write_refinesD [OF later(1) _ later(2) p2(4), of "pipe_wake NS_WAIT_PIPE_READ (-1) (pipe_unlock p2)"] p2(2)
    by (simp only: pipe_ok_calls pipe_view_calls)
  ultimately show ?thesis by (simp only: p2(5))
qed

lemma pipe_write_loop_refines: "unat n \<le> length input \<Longrightarrow> write_refines env input n"
proof (induction env rule: length_induct)
  case (1 env)
  note len = "1.prems"
  show ?case unfolding write_refines_def
  proof (intro allI impI)
    fix p fs and written :: u64
    assume ok: "pipe_ok p" and matches: "env_matches env fs" and le: "unat written \<le> unat n"
    show "written_as (pipe_write_loop env input n written p)
        (spec_write fs (unat n) (drop (unat written) (take (unat n) input)) (pipe_view p))"
    proof (cases "written < n")
      case False
      then have "written = n" using le by (simp add: word_less_nat_alt word_unat_eq_iff)
      then show ?thesis using ok matches by (cases env; cases fs) (auto simp: written_as_def)
    next
      case lt: True
      show ?thesis
      proof (cases env)
        case Nil
        then show ?thesis using lt matches len by (simp add: written_as_def word_less_nat_alt)
      next
        case (Cons e env1)
        obtain f gs where fs: "fs = f # gs" "env_matches env1 gs"
          and e: "pipe_ok (e p)" "pipe_view (e p) = f (pipe_view p)"
          using matches ok Cons by auto
        define p1 where p1_def: "p1 = pipe_lock e p"
        have p1: "pipe_ok p1" "f (pipe_view p) = pipe_view p1" using e by (simp_all add: p1_def)
        have IH: "write_refines env1 input n" "\<And>e2 env2. env1 = e2 # env2 \<Longrightarrow> write_refines env2 input n"
          using "1.IH" Cons len by simp_all
        let ?room = "p_capacity p1 - p_used p1"
        consider (closed) "p_readers p1 = 0"
          | (atomic) "p_readers p1 \<noteq> 0" "n \<le> 512" "?room < n"
          | (full) "p_readers p1 \<noteq> 0" "\<not> (n \<le> 512 \<and> ?room < n)" "?room = 0"
          | (put) "p_readers p1 \<noteq> 0" "\<not> (n \<le> 512 \<and> ?room < n)" "?room \<noteq> 0"
          by blast
        then show ?thesis unfolding Cons fs(1)
        proof cases
          case closed
          then show "written_as (pipe_write_loop (e # env1) input n written p)
              (spec_write (f # gs) (unat n) (drop (unat written) (take (unat n) input)) (pipe_view p))"
            by (rule write_turn_closed [where f = f and e = e, OF p1 p1_def lt len])
        next
          case atomic
          then show "written_as (pipe_write_loop (e # env1) input n written p)
              (spec_write (f # gs) (unat n) (drop (unat written) (take (unat n) input)) (pipe_view p))"
            by (rule write_turn_atomic [where f = f and e = e, OF p1 p1_def lt len _ _ _ IH(1) fs(2)])
        next
          case full
          then show "written_as (pipe_write_loop (e # env1) input n written p)
              (spec_write (f # gs) (unat n) (drop (unat written) (take (unat n) input)) (pipe_view p))"
            by (rule write_turn_full [where f = f and e = e, OF p1 p1_def lt len _ _ _ IH(2) fs(2)])
        next
          case put
          then show "written_as (pipe_write_loop (e # env1) input n written p)
              (spec_write (f # gs) (unat n) (drop (unat written) (take (unat n) input)) (pipe_view p))"
            by (rule write_turn_put [where f = f and e = e, OF p1 p1_def lt len _ _ _ IH(1) fs(2)])
        qed
      qed
    qed
  qed
qed

section \<open>Properties\<close>

text \<open>
  The outcome of an atomic write that finds the pipe as \<open>found\<close>: all of \<open>bytes\<close> or none of them.
\<close>

definition atomic_outcome :: "u8 list \<Rightarrow> pipe_spec \<Rightarrow> u64 ns_result \<Rightarrow> pipe_spec \<Rightarrow> bool" where
  "atomic_outcome bytes found r q \<longleftrightarrow>
     (case r of
        Ok n \<Rightarrow> n = of_nat (length bytes) \<and> q_readers found \<noteq> 0
          \<and> length bytes \<le> q_capacity found - length (q_bytes found)
          \<and> q = found\<lparr>q_bytes := q_bytes found @ bytes\<rparr>
      | Fail err \<Rightarrow> q = found
          \<and> (err = NS_EPIPE \<and> q_readers found = 0 \<or> err = NS_EAGAIN \<and> \<not> q_block found))"

lemma spec_write_atomic:
  "bytes \<noteq> [] \<Longrightarrow> length bytes \<le> 512 \<Longrightarrow> spec_write fs (length bytes) bytes q = Some (r, q') \<Longrightarrow>
   \<exists>k \<le> length fs. atomic_outcome bytes (fold (\<lambda>f. f) (take k fs) q) r q'"
proof (induction fs arbitrary: q)
  case (Cons f fs)
  let ?room = "q_capacity (f q) - length (q_bytes (f q))"
  show ?case
  proof (cases "q_readers (f q) \<noteq> 0 \<and> ?room < length bytes \<and> q_block (f q)")
    case True
    then have "spec_write fs (length bytes) bytes (f q) = Some (r, q')" using Cons.prems by (simp add: Let_def)
    from Cons.IH [OF Cons.prems(1-2) this] obtain k where "k \<le> length fs"
      "atomic_outcome bytes (fold (\<lambda>f. f) (take k fs) (f q)) r q'" by blast
    then show ?thesis by (intro exI [of _ "Suc k"]) simp
  next
    case False
    moreover have "spec_write fs (length bytes) [] q'' = Some (Ok (of_nat (length bytes)), q'')" for q''
      by (cases fs) simp_all
    ultimately show ?thesis using Cons.prems
      by (intro exI [of _ "Suc 0"]) (auto simp: Let_def atomic_outcome_def split: if_splits)
  qed
qed simp

lemma pipe_write_refines:
  assumes "pipe_ok p" "env_matches env fs" "unat n \<le> length input"
  shows "written_as (pipe_write True env (Some input) n p)
    (spec_write fs (unat n) (take (unat n) input) (pipe_view p))"
proof (cases "n = 0")
  case True
  then show ?thesis using assms by (cases fs) (simp_all add: pipe_write_def)
next
  case False
  then show ?thesis
    using write_refinesD [OF pipe_write_loop_refines [OF assms(3)] assms(1,2), of 0]
    by (simp add: pipe_write_def)
qed

text \<open>A small pipe, for the concrete instances.\<close>

definition small_pipe :: ns_pipe where
  "small_pipe =
     pipe_init 0x1000 \<lparr>has_lock = True, has_unlock = True, has_prepare_block = True,
       has_commit_block = True, has_wake = True\<rparr> (replicate 512 0) 512"

lemma small_pipe_ok: "pipe_ok small_pipe"
  by (simp add: small_pipe_def pipe_init_def pipe_ok_def)

lemma small_pipe_view:
  "pipe_view small_pipe = \<lparr>q_bytes = [], q_capacity = 512, q_readers = 1, q_writers = 1, q_block = True\<rparr>"
  by (simp add: small_pipe_def pipe_init_def pipe_view_def pipe_bytes_def ring_def can_block_def)

text \<open>The last writer goes away.\<close>

definition hang_up :: "ns_pipe \<Rightarrow> ns_pipe" where
  "hang_up p = p\<lparr>p_writers := 0\<rparr>"

lemma hang_up_matches: "env_matches [id, hang_up] [id, \<lambda>q. q\<lparr>q_writers := 0\<rparr>]"
  by (simp add: hang_up_def pipe_ok_def pipe_view_def pipe_bytes_def can_block_def)

text \<open>C17. The ring buffer is a bounded queue of bytes. For every behaviour of the other threads that
  keeps the invariant and acts on the queue as \<open>fs\<close> says, reading and writing through the ring
  with its wrapped 64-bit indices gives exactly the result, the bytes and the queue that the
  specification gives, never accesses outside the buffer, and keeps the invariant.\<close>

theorem pipe_refines_queue:
  assumes "pipe_ok p" "env_matches env fs" "n \<noteq> 0" "unat n \<le> length input"
  shows "read_as (pipe_read False False env n p) (spec_read fs (unat n) (pipe_view p))
    \<and> written_as (pipe_write True env (Some input) n p)
        (spec_write fs (unat n) (take (unat n) input) (pipe_view p))"
  using pipe_read_loop_refines [OF assms(1,2)] pipe_write_refines [OF assms(1,2,4)] assms(3)
  by (simp add: pipe_read_def)

theorem pipe_refines_queue_witness:
  "map_option fst (pipe_read False False [id, hang_up] 16 small_pipe) = Some (Ok 0)
   \<and> map_option fst (pipe_write True [id, hang_up] (Some (replicate 16 7)) 16 small_pipe) = Some (Ok 16)"
proof -
  have "read_as (pipe_read False False [id, hang_up] 16 small_pipe)
      (spec_read [id, \<lambda>q. q\<lparr>q_writers := 0\<rparr>] 16 (pipe_view small_pipe))"
    "written_as (pipe_write True [id, hang_up] (Some (replicate 16 7)) 16 small_pipe)
      (spec_write [id, \<lambda>q. q\<lparr>q_writers := 0\<rparr>] 16 (replicate 16 7) (pipe_view small_pipe))"
    using pipe_refines_queue [OF small_pipe_ok hang_up_matches, of 16 "replicate 16 7"] by simp_all
  then show ?thesis by (auto simp: small_pipe_view read_as_def written_as_def)
qed

text \<open>C18. A write of at most \<open>NS_PIPE_ATOMIC_MAX\<close> bytes is atomic under every interference: if it
  returns, then either all its bytes were appended at once, side by side, to the queue it found in
  one of its turns, with room for them and a reader left, or none was and the result is EPIPE with
  no reader left or EAGAIN on a runtime that cannot block.\<close>

theorem pipe_write_atomic:
  assumes "pipe_ok p" "env_matches env fs" "bytes \<noteq> []" "length bytes \<le> 512"
    and "pipe_write True env (Some bytes) (of_nat (length bytes)) p = Some (r, p')"
  shows "\<exists>k \<le> length env. atomic_outcome bytes (fold (\<lambda>f. f) (take k fs) (pipe_view p)) r (pipe_view p')"
proof -
  have len: "unat (of_nat (length bytes) :: u64) = length bytes"
    using assms(4) by (simp add: unat_of_nat take_bit_nat_eq_self)
  have "written_as (Some (r, p')) (spec_write fs (length bytes) bytes (pipe_view p))"
    using pipe_write_refines [OF assms(1,2), of "of_nat (length bytes)" bytes] assms(5) by (simp add: len)
  then have "spec_write fs (length bytes) bytes (pipe_view p) = Some (r, pipe_view p')"
    by (simp add: written_as_def)
  from spec_write_atomic [OF assms(3,4) this] show ?thesis
    using assms(2) by (simp add: env_matches_def list_all2_lengthD)
qed

theorem pipe_write_atomic_witness:
  "\<exists>r p. pipe_write True [id, hang_up] (Some [1, 2, 3]) 3 small_pipe = Some (r, p)
     \<and> (\<exists>k \<le> 2. atomic_outcome [1, 2, 3]
          (fold (\<lambda>f. f) (take k [id, \<lambda>q. q\<lparr>q_writers := 0\<rparr>]) (pipe_view small_pipe)) r (pipe_view p))"
proof -
  have "written_as (pipe_write True [id, hang_up] (Some [1, 2, 3]) 3 small_pipe)
      (spec_write [id, \<lambda>q. q\<lparr>q_writers := 0\<rparr>] 3 [1, 2, 3] (pipe_view small_pipe))"
    using pipe_write_refines [OF small_pipe_ok hang_up_matches, of 3 "[1, 2, 3]"] by simp
  then obtain r p where "pipe_write True [id, hang_up] (Some [1, 2, 3]) 3 small_pipe = Some (r, p)"
    by (auto simp: small_pipe_view written_as_def)
  then show ?thesis
    using pipe_write_atomic [OF small_pipe_ok hang_up_matches, of "[1, 2, 3]" r p] by (simp add: numeral_2_eq_2)
qed

text \<open>C19. Round trip: bytes written into an empty pipe that has room for them come out of it
  unchanged and in order, and leave it empty.\<close>

theorem pipe_roundtrip:
  assumes "pipe_ok p" "p_used p = 0" "p_readers p \<noteq> 0" "bytes \<noteq> []"
    and "length bytes \<le> unat (p_capacity p)" "n = of_nat (length bytes)"
  shows "\<exists>p1 p2. pipe_write True [id] (Some bytes) n p = Some (Ok n, p1)
    \<and> pipe_read False False [id] n p1 = Some (Ok n, bytes, p2) \<and> p_used p2 = 0 \<and> pipe_ok p2"
proof -
  have env: "env_matches [id] [id]" by simp
  have len: "unat n = length bytes"
    using assms pipe_okD(3) [OF assms(1)] by (simp add: unat_of_nat take_bit_nat_eq_self)
  have n: "of_nat (length bytes) = n" using assms(6) by simp
  have empty: "pipe_bytes p = []" using assms(2) by (simp add: pipe_bytes_eq_Nil)
  have "written_as (pipe_write True [id] (Some bytes) n p) (Some (Ok n, (pipe_view p)\<lparr>q_bytes := bytes\<rparr>))"
    using pipe_write_refines [OF assms(1) env, of n bytes] assms(3-5) pipe_okD(2) [OF assms(1)]
    by (simp add: len empty Let_def n)
  then obtain p1 where w: "pipe_write True [id] (Some bytes) n p = Some (Ok n, p1)" "pipe_ok p1"
    "pipe_view p1 = (pipe_view p)\<lparr>q_bytes := bytes\<rparr>" by (auto simp: written_as_def)
  have "pipe_bytes p1 = bytes" using arg_cong [OF w(3), of q_bytes] by simp
  then have "read_as (pipe_read_loop [id] n p1) (Some (Ok n, bytes, (pipe_view p1)\<lparr>q_bytes := []\<rparr>))"
    using pipe_read_loop_refines [OF w(2) env, of n] assms(4) by (simp add: len Let_def n)
  then obtain p2 where r: "pipe_read_loop [id] n p1 = Some (Ok n, bytes, p2)" "pipe_ok p2"
    "pipe_view p2 = (pipe_view p1)\<lparr>q_bytes := []\<rparr>" by (auto simp: read_as_def)
  have "pipe_bytes p2 = []" using arg_cong [OF r(3), of q_bytes] by simp
  moreover have "n \<noteq> 0" using len assms(4) by auto
  ultimately show ?thesis using w r by (simp add: pipe_read_def pipe_bytes_eq_Nil)
qed

theorem pipe_roundtrip_witness:
  "\<exists>p1 p2. pipe_write True [id] (Some [1, 2, 3]) 3 small_pipe = Some (Ok 3, p1)
    \<and> pipe_read False False [id] 3 p1 = Some (Ok 3, [1, 2, 3], p2) \<and> p_used p2 = 0 \<and> pipe_ok p2"
  using pipe_roundtrip [OF small_pipe_ok, of "[1, 2, 3]" 3]
  by (simp add: small_pipe_def pipe_init_def)

lemma p_call_sel:
  "p_readers (p_call b c p) = p_readers p" "p_writers (p_call b c p) = p_writers p"
  "p_freed (p_call b c p) = p_freed p" "p_runtime (p_call b c p) = p_runtime p"
  "pipe_bytes (p_call b c p) = pipe_bytes p"
  "p_calls (p_call b c p) = p_calls p @ (if b then [c] else [])"
  by (simp_all add: p_call_def pipe_bytes_def)

lemma pipe_bytes_counts:
  "pipe_bytes (p\<lparr>p_readers := x\<rparr>) = pipe_bytes p" "pipe_bytes (p\<lparr>p_writers := x\<rparr>) = pipe_bytes p"
  "pipe_bytes (p\<lparr>p_freed := b\<rparr>) = pipe_bytes p"
  by (simp_all add: pipe_bytes_def)

lemmas pipe_close_simps = pipe_close_def pipe_lock_def pipe_unlock_def pipe_wake_def pipe_free_def
  p_call_sel pipe_bytes_counts

text \<open>C20. Closing an endpoint while nobody else acts gives up one reader or writer, keeps the queued
  bytes, wakes the other side once the lock is free, frees the endpoint, and frees the pipe exactly
  when neither readers nor writers are left.\<close>

theorem pipe_close_releases:
  assumes "\<not> p_freed p" "if writable then p_writers p \<noteq> 0 else p_readers p \<noteq> 0"
  shows "\<exists>p'. pipe_close writable id id p = Some p' \<and> pipe_bytes p' = pipe_bytes p
    \<and> p_writers p' = (if writable then p_writers p - 1 else p_writers p)
    \<and> p_readers p' = (if writable then p_readers p else p_readers p - 1)
    \<and> (p_freed p' \<longleftrightarrow> p_readers p' = 0 \<and> p_writers p' = 0)
    \<and> p_calls p' = p_calls p @ (if has_lock (p_runtime p) then [Pipe_Lock] else [])
        @ (if has_unlock (p_runtime p) then [Pipe_Unlock] else [])
        @ (if has_wake (p_runtime p)
           then [Pipe_Wake (if writable then NS_WAIT_PIPE_READ else NS_WAIT_PIPE_WRITE) (-1)] else [])
        @ [Free_Endpoint] @ (if p_freed p' then [Free_Buffer, Free_Pipe] else [])"
  using assms
  by (cases writable) (simp_all add: pipe_close_simps Let_def)

theorem pipe_close_releases_witness:
  "\<exists>p. pipe_close True id id (small_pipe\<lparr>p_readers := 0\<rparr>) = Some p \<and> p_freed p
    \<and> p_calls p = [Pipe_Lock, Pipe_Unlock, Pipe_Wake NS_WAIT_PIPE_READ (-1), Free_Endpoint, Free_Buffer, Free_Pipe]"
  using pipe_close_releases [of "small_pipe\<lparr>p_readers := 0\<rparr>" True]
  by (auto simp: small_pipe_def pipe_init_def)

text \<open>C21. A close can read freed memory: when the last reader and the last writer are closed by two
  threads and the second close runs between the first one's release of the lock and its wake-up,
  the wake-up reads the runtime out of the pipe object the second close has already freed.\<close>

theorem pipe_close_race:
  assumes "\<not> p_freed p" "p_readers p = 1" "p_writers p = 1"
  shows "pipe_close writable id (\<lambda>q. the (pipe_close (\<not> writable) id id q)) p = None"
  using assms
  by (cases writable) (simp_all add: pipe_close_simps Let_def)

theorem pipe_close_race_witness:
  "pipe_close False id (\<lambda>q. the (pipe_close True id id q)) small_pipe = None"
  using pipe_close_race [of small_pipe False] by (simp add: small_pipe_def pipe_init_def)

end
