(* ===== verification/Net_Types.thy ===== *)
theory Net_Types
  imports Prelude
begin

text \<open>
  The types and the byte order functions of \<open>include/northstar/net_types.h\<close>. Addresses are data of
  four and six bytes; a packet is the list of its bytes, its length the length of the list, and an
  access outside of it is \<open>None\<close>. Status codes are the integers of \<open>enum net_status\<close>, since the
  drivers' own results are passed on.
\<close>

unbundle bit_operations_syntax

abbreviation (input) NET_ETHERNET_MTU :: nat where "NET_ETHERNET_MTU \<equiv> 1500"
abbreviation (input) NET_ETHERNET_HEADER_LEN :: nat where "NET_ETHERNET_HEADER_LEN \<equiv> 14"
abbreviation (input) NET_ETHERNET_MIN_FRAME_LEN :: nat where "NET_ETHERNET_MIN_FRAME_LEN \<equiv> 60"
abbreviation (input) NET_IPV4_MIN_HEADER_LEN :: nat where "NET_IPV4_MIN_HEADER_LEN \<equiv> 20"

type_synonym net_status = int

abbreviation (input) NET_OK :: net_status where "NET_OK \<equiv> 0"
abbreviation (input) NET_ERR_INVALID :: net_status where "NET_ERR_INVALID \<equiv> - 1"
abbreviation (input) NET_ERR_NO_DEVICE :: net_status where "NET_ERR_NO_DEVICE \<equiv> - 2"
abbreviation (input) NET_ERR_NO_ROUTE :: net_status where "NET_ERR_NO_ROUTE \<equiv> - 3"
abbreviation (input) NET_ERR_NO_BUFFER :: net_status where "NET_ERR_NO_BUFFER \<equiv> - 4"
abbreviation (input) NET_ERR_TOO_LARGE :: net_status where "NET_ERR_TOO_LARGE \<equiv> - 5"
abbreviation (input) NET_ERR_AGAIN :: net_status where "NET_ERR_AGAIN \<equiv> - 6"
abbreviation (input) NET_ERR_IO :: net_status where "NET_ERR_IO \<equiv> - 7"
abbreviation (input) NET_ERR_NOT_SUPPORTED :: net_status where "NET_ERR_NOT_SUPPORTED \<equiv> - 8"
abbreviation (input) NET_ERR_EXISTS :: net_status where "NET_ERR_EXISTS \<equiv> - 9"
abbreviation (input) NET_ERR_NOT_FOUND :: net_status where "NET_ERR_NOT_FOUND \<equiv> - 10"

section \<open>Addresses\<close>

datatype net_mac_addr = Mac u8 u8 u8 u8 u8 u8

datatype net_ipv4_addr = Ipv4 u8 u8 u8 u8

fun mac_bytes :: "net_mac_addr \<Rightarrow> u8 list" where
  "mac_bytes (Mac a b c d e f) = [a, b, c, d, e, f]"

fun ipv4_bytes :: "net_ipv4_addr \<Rightarrow> u8 list" where
  "ipv4_bytes (Ipv4 a b c d) = [a, b, c, d]"

fun bytes_difference :: "u8 list \<Rightarrow> u8 list \<Rightarrow> u8 \<Rightarrow> u8" where
  "bytes_difference (l # ls) (r # rs) d = bytes_difference ls rs (d OR (l XOR r))"
| "bytes_difference _ _ d = d"

definition net_mac_addr_equal :: "net_mac_addr \<Rightarrow> net_mac_addr \<Rightarrow> bool" where
  "net_mac_addr_equal left right \<longleftrightarrow> bytes_difference (mac_bytes left) (mac_bytes right) 0 = 0"

definition net_mac_addr_is_zero :: "net_mac_addr \<Rightarrow> bool" where
  "net_mac_addr_is_zero address = net_mac_addr_equal address (Mac 0 0 0 0 0 0)"

abbreviation (input) mac_broadcast :: net_mac_addr where
  "mac_broadcast \<equiv> Mac 0xff 0xff 0xff 0xff 0xff 0xff"

definition net_mac_addr_is_broadcast :: "net_mac_addr \<Rightarrow> bool" where
  "net_mac_addr_is_broadcast address = net_mac_addr_equal address mac_broadcast"

fun net_mac_addr_is_multicast :: "net_mac_addr \<Rightarrow> bool" where
  "net_mac_addr_is_multicast (Mac a _ _ _ _ _) \<longleftrightarrow> a AND 1 \<noteq> 0"

definition net_ipv4_addr_equal :: "net_ipv4_addr \<Rightarrow> net_ipv4_addr \<Rightarrow> bool" where
  "net_ipv4_addr_equal left right \<longleftrightarrow> bytes_difference (ipv4_bytes left) (ipv4_bytes right) 0 = 0"

definition net_ipv4_addr_is_zero :: "net_ipv4_addr \<Rightarrow> bool" where
  "net_ipv4_addr_is_zero address = net_ipv4_addr_equal address (Ipv4 0 0 0 0)"

definition net_ipv4_addr_is_limited_broadcast :: "net_ipv4_addr \<Rightarrow> bool" where
  "net_ipv4_addr_is_limited_broadcast address = net_ipv4_addr_equal address (Ipv4 255 255 255 255)"

fun net_ipv4_addr_is_multicast :: "net_ipv4_addr \<Rightarrow> bool" where
  "net_ipv4_addr_is_multicast (Ipv4 a _ _ _) \<longleftrightarrow> a \<ge> 224 \<and> a \<le> 239"

fun net_ipv4_addr_is_unicast :: "net_ipv4_addr \<Rightarrow> bool" where
  "net_ipv4_addr_is_unicast (Ipv4 a _ _ _) \<longleftrightarrow> a \<noteq> 0 \<and> a \<noteq> 127 \<and> a < 224"

fun net_ipv4_addr_to_u32 :: "net_ipv4_addr \<Rightarrow> u32" where
  "net_ipv4_addr_to_u32 (Ipv4 a b c d) =
     push_bit 24 (ucast a) OR push_bit 16 (ucast b) OR push_bit 8 (ucast c) OR ucast d"

definition net_ipv4_addr_from_u32 :: "u32 \<Rightarrow> net_ipv4_addr" where
  "net_ipv4_addr_from_u32 value =
     Ipv4 (ucast (drop_bit 24 value)) (ucast (drop_bit 16 value)) (ucast (drop_bit 8 value)) (ucast value)"

definition net_ipv4_addr_and :: "net_ipv4_addr \<Rightarrow> net_ipv4_addr \<Rightarrow> net_ipv4_addr" where
  "net_ipv4_addr_and address netmask =
     net_ipv4_addr_from_u32 (net_ipv4_addr_to_u32 address AND net_ipv4_addr_to_u32 netmask)"

section \<open>Byte order\<close>

definition join_be16 :: "u8 \<Rightarrow> u8 \<Rightarrow> u16" where
  "join_be16 a b = push_bit 8 (ucast a) OR ucast b"

definition be16 :: "u16 \<Rightarrow> u8 list" where
  "be16 value = [ucast (drop_bit 8 value), ucast value]"

definition net_read_be16 :: "u8 list \<Rightarrow> nat \<Rightarrow> u16 option" where
  "net_read_be16 source at = do { a \<leftarrow> load_at source at; b \<leftarrow> load_at source (at + 1); Some (join_be16 a b) }"

definition net_write_be16 :: "u8 list \<Rightarrow> nat \<Rightarrow> u16 \<Rightarrow> u8 list option" where
  "net_write_be16 destination at value = do {
     destination \<leftarrow> store_at destination at (ucast (drop_bit 8 value));
     store_at destination (at + 1) (ucast value)
   }"

section \<open>Lemmas\<close>

lemma bytes_difference_eq_0:
  "length ls = length rs \<Longrightarrow> bytes_difference ls rs d = 0 \<longleftrightarrow> d = 0 \<and> ls = rs"
proof (induction ls rs arbitrary: d rule: list_induct2)
  case (Cons l ls r rs)
  have "d OR (l XOR r) = 0 \<longleftrightarrow> d = 0 \<and> l = r"
    by (simp add: or_eq_0_iff) (metis bit.xor_self bit_xor_iff bit_eq_iff bit_0_eq bot_apply bot_bool_def)
  then show ?case using Cons.IH by auto
qed simp

lemma net_mac_addr_equal [simp]: "net_mac_addr_equal a b \<longleftrightarrow> a = b"
  by (cases a; cases b) (simp add: net_mac_addr_equal_def bytes_difference_eq_0 del: bytes_difference.simps)

lemma net_ipv4_addr_equal [simp]: "net_ipv4_addr_equal a b \<longleftrightarrow> a = b"
  by (cases a; cases b) (simp add: net_ipv4_addr_equal_def bytes_difference_eq_0 del: bytes_difference.simps)

lemma length_address_bytes [simp]: "length (mac_bytes m) = 6" "length (ipv4_bytes i) = 4"
  by (cases m; simp) (cases i; simp)

lemma u8_bits: "8 \<le> n \<Longrightarrow> \<not> bit (w::u8) n"
  using bit_imp_le_length [of w n] by auto

lemma from_to_u32 [simp]: "net_ipv4_addr_from_u32 (net_ipv4_addr_to_u32 a) = a"
proof (cases a)
  case (Ipv4 a b c d)
  then show ?thesis
    by (auto simp: net_ipv4_addr_from_u32_def bit_simps u8_bits intro!: bit_word_eqI)
qed

lemma to_from_u32 [simp]: "net_ipv4_addr_to_u32 (net_ipv4_addr_from_u32 v) = v"
proof (rule bit_word_eqI)
  fix n
  assume "n < LENGTH(32)"
  then consider "n < 8" | "8 \<le> n" "n < 16" | "16 \<le> n" "n < 24" | "24 \<le> n" "n < 32" by fastforce
  then show "bit (net_ipv4_addr_to_u32 (net_ipv4_addr_from_u32 v)) n \<longleftrightarrow> bit v n"
    by cases (auto simp: net_ipv4_addr_from_u32_def bit_simps)
qed

lemma join_be16_be16 [simp]: "join_be16 (ucast (drop_bit 8 v)) (ucast v) = v"
  by (rule bit_word_eqI) (auto simp: join_be16_def bit_simps)

end
