(* ===== verification/Net_Checksum.thy ===== *)
theory Net_Checksum
  imports Net_Types
begin

text \<open>
  The Internet checksum, \<open>kernel/net/net_checksum.c\<close>, and its specification: the complement of the
  one's complement sum of the big-endian 16-bit words of the data.
\<close>

unbundle bit_operations_syntax

section \<open>Operations\<close>

record net_checksum_state =
  cs_sum :: u32
  cs_odd_byte :: u8
  cs_has_odd_byte :: bool

definition net_checksum_init :: net_checksum_state where
  "net_checksum_init = \<lparr>cs_sum = 0, cs_odd_byte = 0, cs_has_odd_byte = False\<rparr>"

definition checksum_word :: "u8 \<Rightarrow> u8 \<Rightarrow> u32" where
  "checksum_word a b = push_bit 8 (ucast a) OR ucast b"

fun checksum_words :: "net_checksum_state \<Rightarrow> u8 list \<Rightarrow> net_checksum_state" where
  "checksum_words s (a # b # rest) = checksum_words (s\<lparr>cs_sum := cs_sum s + checksum_word a b\<rparr>) rest"
| "checksum_words s [a] = s\<lparr>cs_odd_byte := a, cs_has_odd_byte := True\<rparr>"
| "checksum_words s [] = s"

definition net_checksum_update :: "net_checksum_state \<Rightarrow> u8 list \<Rightarrow> net_checksum_state" where
  "net_checksum_update s data =
     (case data of
        b # rest \<Rightarrow>
          if cs_has_odd_byte s
          then checksum_words
            (s\<lparr>cs_sum := cs_sum s + checksum_word (cs_odd_byte s) b, cs_has_odd_byte := False\<rparr>) rest
          else checksum_words s data
      | [] \<Rightarrow> s)"

text \<open>The folding loop of \<open>net_checksum_finalize\<close>; it ends because the sum decreases.\<close>

lemma fold_step: "unat ((s AND 0xffff) + drop_bit 16 (s::u32)) = unat s mod 65536 + unat s div 65536"
proof -
  have "unat (s AND 0xffff) = unat s mod 65536"
    using unat_mask_and [of s 16] by (simp add: mask_eq_exp_minus_1)
  moreover have "unat (drop_bit 16 s) = unat s div 65536" by (simp add: unat_simps)
  moreover have "unat s < 4294967296" using u32_less [of s] by simp
  ultimately show ?thesis by (subst unat_add_lem [THEN iffD1]) simp_all
qed

function checksum_fold :: "u32 \<Rightarrow> u32" where
  "checksum_fold s = (if drop_bit 16 s \<noteq> 0 then checksum_fold ((s AND 0xffff) + drop_bit 16 s) else s)"
  by pat_completeness auto

lemma drop_bit_16_eq_0: "drop_bit 16 (s::u32) = 0 \<longleftrightarrow> unat s < 65536"
  by (simp add: word_unat_eq_iff unat_simps div_eq_0_iff)

termination checksum_fold
proof (relation "measure unat")
  fix s :: u32
  assume "drop_bit 16 s \<noteq> 0"
  then have "0 < unat s div 65536" by (simp add: drop_bit_16_eq_0 div_greater_zero_iff)
  then show "((s AND 0xffff) + drop_bit 16 s, s) \<in> measure unat"
    using div_mult_mod_eq [of "unat s" 65536] unfolding in_measure fold_step by linarith
qed simp

declare checksum_fold.simps [simp del]

definition net_checksum_finalize :: "net_checksum_state \<Rightarrow> u16" where
  "net_checksum_finalize s =
     (let sum = (if cs_has_odd_byte s then cs_sum s + push_bit 8 (ucast (cs_odd_byte s)) else cs_sum s)
      in ucast (NOT (checksum_fold sum)))"

definition net_checksum_compute :: "u8 list \<Rightarrow> u16" where
  "net_checksum_compute data = net_checksum_finalize (net_checksum_update net_checksum_init data)"

definition net_checksum_is_valid :: "u8 list \<Rightarrow> bool" where
  "net_checksum_is_valid data \<longleftrightarrow> net_checksum_compute data = 0"

section \<open>Specification\<close>

fun word_sum :: "u8 list \<Rightarrow> nat" where
  "word_sum (a # b # rest) = 256 * unat a + unat b + word_sum rest"
| "word_sum [a] = 256 * unat a"
| "word_sum [] = 0"

text \<open>The sum of \<open>n\<close> with end-around carry: congruent modulo 65535, and 0 only for 0.\<close>

definition ones_complement :: "nat \<Rightarrow> nat" where
  "ones_complement n = (if n = 0 then 0 else (n - 1) mod 65535 + 1)"

definition rfc1071 :: "u8 list \<Rightarrow> u16" where
  "rfc1071 data = of_nat (65535 - ones_complement (word_sum data))"

section \<open>Lemmas\<close>

lemma unat_checksum_word: "unat (checksum_word a b) = 256 * unat a + unat b"
proof -
  have "checksum_word a b = push_bit 8 (ucast a) + ucast b"
    unfolding checksum_word_def by (rule disjunctive_add [symmetric]) (simp add: bit_simps u8_bits)
  moreover have "unat (push_bit 8 (ucast a :: u32)) = 256 * unat a"
    using u8_less [of a] by (simp add: unat_push_bit unat_ucast_up)
  moreover have "unat (ucast b :: u32) = unat b" by (simp add: unat_ucast_up)
  ultimately show ?thesis
    using u8_less [of a] u8_less [of b] by (simp add: unat_word_ariths)
qed

lemma ones_complement_le: "ones_complement n \<le> 65535"
proof (cases "n = 0")
  case False
  have "(n - 1) mod 65535 < 65535" by simp
  then have "(n - 1) mod 65535 + 1 \<le> 65535" by linarith
  then show ?thesis using False unfolding ones_complement_def by (simp only: if_False)
qed (simp add: ones_complement_def)

lemma ones_complement_carry:
  assumes "65536 \<le> n"
  shows "ones_complement (n mod 65536 + n div 65536) = ones_complement n"
proof -
  have "n = n mod 65536 + n div 65536 + 65535 * (n div 65536)"
    using div_mult_mod_eq [of n 65536] by linarith
  moreover have "0 < n div 65536" using assms by (simp add: div_greater_zero_iff)
  ultimately have "n - 1 = (n mod 65536 + n div 65536 - 1) + 65535 * (n div 65536)"
    "n mod 65536 + n div 65536 \<noteq> 0" by linarith+
  moreover from this(1) have "(n - 1) mod 65535 = (n mod 65536 + n div 65536 - 1) mod 65535"
    by (metis mod_mult_self2)
  ultimately show ?thesis using assms by (simp add: ones_complement_def)
qed

lemma unat_checksum_fold: "unat (checksum_fold s) = ones_complement (unat s)"
proof (induction s rule: checksum_fold.induct)
  case (1 s)
  show ?case
  proof (cases "unat s < 65536")
    case True
    then show ?thesis
      by (subst checksum_fold.simps) (auto simp: drop_bit_16_eq_0 ones_complement_def)
  next
    case False
    then show ?thesis
      using 1 ones_complement_carry [of "unat s"]
      by (subst checksum_fold.simps) (simp add: drop_bit_16_eq_0 fold_step)
  qed
qed

text \<open>What the state knows of the data so far.\<close>

definition sums_up :: "net_checksum_state \<Rightarrow> u8 list \<Rightarrow> bool" where
  "sums_up s data \<longleftrightarrow>
     (if cs_has_odd_byte s
      then \<exists>front. data = front @ [cs_odd_byte s] \<and> even (length front) \<and> cs_sum s = of_nat (word_sum front)
      else even (length data) \<and> cs_sum s = of_nat (word_sum data))"

lemma word_sum_append: "even (length xs) \<Longrightarrow> word_sum (xs @ ys) = word_sum xs + word_sum ys"
  by (induction xs rule: word_sum.induct) simp_all

lemma of_nat_checksum_word: "of_nat (256 * unat a + unat b) = checksum_word a b"
  by (metis of_nat_unat ucast_id unat_checksum_word)

lemma checksum_words_sums_up:
  "sums_up s xs \<Longrightarrow> \<not> cs_has_odd_byte s \<Longrightarrow> sums_up (checksum_words s ys) (xs @ ys)"
proof (induction s ys arbitrary: xs rule: checksum_words.induct)
  case (1 s a b rest)
  have "sums_up (s\<lparr>cs_sum := cs_sum s + checksum_word a b\<rparr>) (xs @ [a, b])"
    using "1.prems" of_nat_checksum_word [of a b] by (simp add: sums_up_def word_sum_append)
  from "1.IH" [OF this] "1.prems" show ?case by simp
qed (auto simp: sums_up_def)

lemma net_checksum_update_sums_up: "sums_up s xs \<Longrightarrow> sums_up (net_checksum_update s ys) (xs @ ys)"
proof (cases ys)
  case (Cons b rest)
  assume s: "sums_up s xs"
  show ?thesis
  proof (cases "cs_has_odd_byte s")
    case True
    then obtain front where front: "xs = front @ [cs_odd_byte s]" "even (length front)"
      "cs_sum s = of_nat (word_sum front)" using s by (auto simp: sums_up_def)
    have "sums_up (s\<lparr>cs_sum := cs_sum s + checksum_word (cs_odd_byte s) b, cs_has_odd_byte := False\<rparr>) (xs @ [b])"
      using front of_nat_checksum_word [of "cs_odd_byte s" b] by (simp add: sums_up_def word_sum_append)
    from checksum_words_sums_up [OF this, of rest] show ?thesis
      using True by (simp add: net_checksum_update_def Cons)
  next
    case False
    then show ?thesis
      using checksum_words_sums_up [OF s, of ys] by (simp add: net_checksum_update_def Cons)
  qed
qed (simp add: net_checksum_update_def)

lemma sums_up_fold: "sums_up s xs \<Longrightarrow> sums_up (fold (\<lambda>d s. net_checksum_update s d) ds s) (xs @ concat ds)"
  using net_checksum_update_sums_up by (induction ds arbitrary: s xs) fastforce+

lemma sums_up_init: "sums_up net_checksum_init []"
  by (simp add: sums_up_def net_checksum_init_def)

lemma word_sum_le: "word_sum xs \<le> 65535 * ((length xs + 1) div 2)"
proof (induction xs rule: word_sum.induct)
  case (1 a b rest)
  have "256 * unat a + unat b \<le> 65535" using u8_less [of a] u8_less [of b] by simp
  then show ?case using 1 by simp
next
  case (2 a)
  then show ?case using u8_less [of a] by simp
qed simp

lemma ucast_not:
  assumes "unat w \<le> 65535"
  shows "ucast (NOT (w::u32)) = (of_nat (65535 - unat w) :: u16)"
proof -
  have "ucast (NOT w) = NOT (ucast w :: u16)" by (rule bit_word_eqI) (simp add: bit_simps)
  also have "\<dots> = - 1 - ucast w" by (simp add: not_eq_complement)
  also have "\<dots> = of_nat 65535 - of_nat (unat w)" by (simp add: of_nat_unat)
  finally show ?thesis using assms by (simp add: of_nat_diff)
qed

lemma net_checksum_finalize_sums_up:
  assumes "sums_up s data" "length data \<le> 131074"
  shows "net_checksum_finalize s = rfc1071 data"
proof -
  define sum where "sum = (if cs_has_odd_byte s then cs_sum s + push_bit 8 (ucast (cs_odd_byte s)) else cs_sum s)"
  have "checksum_word (cs_odd_byte s) 0 = push_bit 8 (ucast (cs_odd_byte s))"
    by (simp add: checksum_word_def)
  then have "sum = of_nat (word_sum data)"
    using assms(1) of_nat_checksum_word [of "cs_odd_byte s" 0]
    by (auto simp: sum_def sums_up_def word_sum_append split: if_splits)
  moreover have "(length data + 1) div 2 \<le> 65537" using assms(2) by simp
  then have "word_sum data < 4294967296" using word_sum_le [of data] by linarith
  ultimately have "unat (checksum_fold sum) = ones_complement (word_sum data)"
    by (simp add: unat_checksum_fold unat_of_nat take_bit_nat_eq_self)
  moreover have "ucast (NOT (checksum_fold sum)) = (of_nat (65535 - unat (checksum_fold sum)) :: u16)"
    using calculation ones_complement_le by (intro ucast_not) simp
  ultimately show ?thesis
    by (simp add: net_checksum_finalize_def rfc1071_def sum_def Let_def)
qed

lemma net_checksum_compute_rfc1071: "length data \<le> 131074 \<Longrightarrow> net_checksum_compute data = rfc1071 data"
  unfolding net_checksum_compute_def
  using net_checksum_finalize_sums_up [OF net_checksum_update_sums_up [OF sums_up_init, unfolded append_Nil]] .

lemma rfc1071_eq_0: "rfc1071 data = 0 \<longleftrightarrow> ones_complement (word_sum data) = 65535"
proof -
  have "unat (of_nat (65535 - ones_complement (word_sum data)) :: u16) = 65535 - ones_complement (word_sum data)"
    by (simp add: unat_of_nat take_bit_nat_eq_self)
  then show ?thesis
    using ones_complement_le [of "word_sum data"] unfolding rfc1071_def word_unat_eq_iff by auto
qed

lemma ones_complement_full: "ones_complement n = 65535 \<longleftrightarrow> n \<noteq> 0 \<and> 65535 dvd n"
proof (cases n)
  case (Suc m)
  have "m mod 65535 + 1 = 65535 \<longleftrightarrow> (m + 1) mod 65535 = 0"
    by (simp add: mod_Suc)
  then show ?thesis by (simp add: Suc ones_complement_def dvd_eq_mod_eq_0)
qed (simp add: ones_complement_def)

lemma net_checksum_is_valid_iff:
  "length data \<le> 131074 \<Longrightarrow>
   net_checksum_is_valid data \<longleftrightarrow> word_sum data \<noteq> 0 \<and> 65535 dvd word_sum data"
  by (simp add: net_checksum_is_valid_def net_checksum_compute_rfc1071 rfc1071_eq_0 ones_complement_full)

text \<open>Adding the complement of the folded sum gives a multiple of 65535.\<close>

lemma ones_complement_complete: "n + (65535 - ones_complement n) \<noteq> 0 \<and> 65535 dvd n + (65535 - ones_complement n)"
proof (cases n)
  case (Suc m)
  have "Suc (65535 * q + r) + (65535 - (r + 1)) = 65535 * (q + 1)" if "r < 65535" for q r :: nat
    using that by simp
  from this [of "m mod 65535" "m div 65535"]
  have "n + (65535 - ones_complement n) = 65535 * (m div 65535 + 1)"
    unfolding Suc ones_complement_def by (simp only: nat.distinct if_False diff_Suc_1 mult_div_mod_eq)
  then show ?thesis unfolding \<open>n + (65535 - ones_complement n) = _\<close> by (intro conjI dvd_triv_left) simp
qed (simp add: ones_complement_def)

lemma length_be16 [simp]: "length (be16 v) = 2"
  by (simp add: be16_def)

lemma word_sum_be16: "word_sum (be16 v @ rest) = unat v + word_sum rest"
proof -
  have "unat (ucast (drop_bit 8 v) :: u8) = unat v div 256"
    using u16_less [of v] by (simp add: unsigned_ucast_eq take_bit_nat_eq_self unat_simps less_mult_imp_div_less)
  moreover have "unat (ucast v :: u8) = unat v mod 256"
    by (simp add: unsigned_ucast_eq take_bit_nat_def)
  ultimately show ?thesis by (simp add: be16_def)
qed

lemma unat_rfc1071: "unat (rfc1071 data) = 65535 - ones_complement (word_sum data)"
  by (simp add: rfc1071_def unat_of_nat take_bit_nat_eq_self)

lemma word_sum_insert:
  "even (length front) \<Longrightarrow>
   word_sum (front @ be16 v @ back) = word_sum (front @ be16 0 @ back) + unat v"
  by (simp add: word_sum_append word_sum_be16)

lemma net_checksum_insert:
  assumes "even (length front)" "length front + length back \<le> 131072"
  shows "net_checksum_is_valid (front @ be16 (net_checksum_compute (front @ be16 0 @ back)) @ back)"
proof -
  define S where "S = word_sum (front @ be16 0 @ back)"
  have len: "length (front @ be16 x @ back) \<le> 131074" for x using assms(2) by simp
  have "unat (net_checksum_compute (front @ be16 0 @ back)) = 65535 - ones_complement S"
    by (simp only: net_checksum_compute_rfc1071 [OF len] unat_rfc1071 S_def)
  then show ?thesis
    unfolding net_checksum_is_valid_iff [OF len] word_sum_insert [OF assms(1), of "net_checksum_compute x" for x] S_def [symmetric]
    using ones_complement_complete [of S] by simp
qed

section \<open>Properties\<close>

text \<open>C22. The incremental checksum is the checksum of RFC 1071: however data of up to 131074 bytes is cut
  into pieces, also of odd length, feeding the pieces to \<open>net_checksum_update\<close> one after the other
  and finalizing gives the complement of the one's complement sum of the 16-bit words of the
  concatenation; the 32-bit accumulator does not overflow and the folding loop ends.\<close>

theorem checksum_incremental:
  "length (concat pieces) \<le> 131074 \<Longrightarrow>
   net_checksum_finalize (fold (\<lambda>d s. net_checksum_update s d) pieces net_checksum_init) =
   rfc1071 (concat pieces)"
  using net_checksum_finalize_sums_up [OF sums_up_fold [OF sums_up_init, unfolded append_Nil]] .

theorem checksum_incremental_witness:
  "net_checksum_finalize (fold (\<lambda>d s. net_checksum_update s d) [[1], [2, 3, 4], [5]] net_checksum_init) =
   rfc1071 [1, 2, 3, 4, 5]"
proof -
  have "length (concat [[1], [2, 3, 4], [5]] :: u8 list) \<le> 131074" by simp
  from checksum_incremental [OF this] show ?thesis by (simp only: concat.simps append.simps)
qed

text \<open>C23. Round trip of the checksum: data whose checksum field was computed with the field zero passes
  validation once the result is stored there in network byte order; replacing one 16-bit word of
  valid data by another is detected, unless both are representations of zero.\<close>

theorem checksum_roundtrip:
  assumes "even (length front)" "length front + length back \<le> 131072"
  shows "net_checksum_is_valid (front @ be16 (net_checksum_compute (front @ be16 0 @ back)) @ back)
    \<and> (net_checksum_is_valid (front @ be16 v @ back) \<longrightarrow>
       v \<noteq> w \<longrightarrow> {v, w} \<noteq> {0, 0xffff} \<longrightarrow> \<not> net_checksum_is_valid (front @ be16 w @ back))"
proof
  have len: "length (front @ be16 x @ back) \<le> 131074" for x using assms(2) by simp
  define S where "S = word_sum (front @ be16 0 @ back)"
  have sum: "word_sum (front @ be16 x @ back) = S + unat x" for x
    unfolding S_def by (rule word_sum_insert [OF assms(1)])
  have valid: "net_checksum_is_valid (front @ be16 x @ back) \<longleftrightarrow> S + unat x \<noteq> 0 \<and> 65535 dvd S + unat x" for x
    unfolding net_checksum_is_valid_iff [OF len] sum by (rule refl)
  show "net_checksum_is_valid (front @ be16 (net_checksum_compute (front @ be16 0 @ back)) @ back)"
    by (rule net_checksum_insert [OF assms])
  show "net_checksum_is_valid (front @ be16 v @ back) \<longrightarrow>
       v \<noteq> w \<longrightarrow> {v, w} \<noteq> {0, 0xffff} \<longrightarrow> \<not> net_checksum_is_valid (front @ be16 w @ back)"
  proof (intro impI notI)
    assume ne: "v \<noteq> w" "{v, w} \<noteq> {0, 0xffff}"
      and "net_checksum_is_valid (front @ be16 v @ back)" "net_checksum_is_valid (front @ be16 w @ back)"
    then obtain a b where ab: "S + unat v = 65535 * a" "S + unat w = 65535 * b"
      unfolding valid by (meson dvdE)
    have "unat v \<noteq> unat w" using ne(1) by (simp add: word_unat_eq_iff)
    then have "unat v = 0 \<and> unat w = 65535 \<or> unat w = 0 \<and> unat v = 65535"
      using ab u16_less [of v] u16_less [of w] by (cases a b rule: linorder_cases) linarith+
    then have "v = 0 \<and> w = 0xffff \<or> w = 0 \<and> v = 0xffff" by (simp add: word_unat_eq_iff)
    then show False using ne(2) by auto
  qed
qed

theorem checksum_roundtrip_witness:
  "net_checksum_is_valid ([0x45, 0] @ be16 (net_checksum_compute ([0x45, 0] @ be16 0 @ [7])) @ [7])"
  by (rule checksum_roundtrip [of "[0x45, 0]" "[7]" 0 0, THEN conjunct1]) simp_all

end
