(* ===== verification/Net_Device.thy ===== *)
theory Net_Device
  imports Net_Checksum
begin

text \<open>
  The state of the network stack, the device registry (\<open>kernel/net/net_device.c\<close>) and the sending
  half of the Ethernet layer (\<open>kernel/net/net_ethernet.c\<close>).

  The static variables of the stack's files are the fields of one record. A device pointer is a
  number that the store \<open>devs\<close> maps to the device; the first \<open>net_devices_count\<close> cells of the
  registry are the list \<open>net_devices\<close>. A driver's \<open>transmit\<close> callback is not part of the stack: the
  frames handed to the drivers are recorded in \<open>wire\<close>, and \<open>driver\<close> gives the result of a call from
  all frames handed over so far, so that it may fail at any time. Writing outside the stack frame's
  packet arrays is \<open>None\<close>.
\<close>

section \<open>State\<close>

type_synonym dref = nat

record net_device_stats =
  rx_packets :: u64
  rx_bytes :: u64
  rx_dropped :: u64
  rx_errors :: u64
  tx_packets :: u64
  tx_bytes :: u64
  tx_errors :: u64

record net_ipv4_config =
  cfg_address :: net_ipv4_addr
  cfg_netmask :: net_ipv4_addr
  cfg_gateway :: net_ipv4_addr
  cfg_configured :: bool

record net_device =
  dev_name :: string
  dev_mac :: net_mac_addr
  dev_mtu :: nat
  dev_transmit :: bool
  dev_ipv4 :: net_ipv4_config
  dev_stats :: net_device_stats
  dev_registered :: bool

datatype net_arp_entry_state = NET_ARP_ENTRY_EMPTY | NET_ARP_ENTRY_PENDING | NET_ARP_ENTRY_VALID

record net_arp_entry =
  ae_state :: net_arp_entry_state
  ae_device :: "dref option"
  ae_protocol :: net_ipv4_addr
  ae_hardware :: net_mac_addr
  ae_age :: u32
  ae_last_request_age :: u32

record net_ipv4_route =
  rt_network :: net_ipv4_addr
  rt_netmask :: net_ipv4_addr
  rt_gateway :: net_ipv4_addr
  rt_device :: "dref option"
  rt_metric :: u16

record net_ipv4_route_slot =
  rs_route :: net_ipv4_route
  rs_used :: bool

text \<open>Protocol handlers: the one of ICMP and those the rest of the kernel registers.\<close>

datatype net_ipv4_protocol_fn = Net_Icmp_Input | Other_Handler nat

record net_ipv4_handler_slot =
  hs_protocol :: u8
  hs_handler :: net_ipv4_protocol_fn
  hs_used :: bool

record net_ipv4_pending_packet =
  pp_device :: "dref option"
  pp_next_hop :: net_ipv4_addr
  pp_packet :: "u8 list"
  pp_age :: u32
  pp_used :: bool

text \<open>Echo replies given to the handler set by \<open>net_icmp_set_echo_reply_handler\<close>.\<close>

record echo_reply =
  er_device :: dref
  er_source :: net_ipv4_addr
  er_identifier :: u16
  er_sequence :: u16
  er_payload :: "u8 list"

record net_state =
  devs :: "dref \<Rightarrow> net_device"
  net_devices :: "dref list"
  net_default_device :: "dref option"
  net_arp_cache :: "net_arp_entry list"
  net_ipv4_routes :: "net_ipv4_route_slot list"
  net_ipv4_handlers :: "net_ipv4_handler_slot list"
  net_ipv4_pending :: "net_ipv4_pending_packet list"
  net_ipv4_identification :: u16
  net_icmp_reply_handler :: bool
  echo_replies :: "echo_reply list"
  wire :: "(dref \<times> u8 list) list"
  driver :: "(dref \<times> u8 list) list \<Rightarrow> net_status"

definition upd_dev :: "dref \<Rightarrow> (net_device \<Rightarrow> net_device) \<Rightarrow> net_state \<Rightarrow> net_state" where
  "upd_dev d f s = s\<lparr>devs := (devs s)(d := f (devs s d))\<rparr>"

definition upd_stats :: "dref \<Rightarrow> (net_device_stats \<Rightarrow> net_device_stats) \<Rightarrow> net_state \<Rightarrow> net_state" where
  "upd_stats d f = upd_dev d (\<lambda>v. v\<lparr>dev_stats := f (dev_stats v)\<rparr>)"

section \<open>Device registry\<close>

abbreviation (input) NET_DEVICE_MAX_COUNT :: nat where "NET_DEVICE_MAX_COUNT \<equiv> 4"
abbreviation (input) NET_DEVICE_NAME_MAX :: nat where "NET_DEVICE_NAME_MAX \<equiv> 15"

abbreviation (input) ipv4_zero :: net_ipv4_addr where "ipv4_zero \<equiv> Ipv4 0 0 0 0"

abbreviation (input) no_ipv4 :: net_ipv4_config where
  "no_ipv4 \<equiv> \<lparr>cfg_address = ipv4_zero, cfg_netmask = ipv4_zero, cfg_gateway = ipv4_zero,
     cfg_configured = False\<rparr>"

abbreviation (input) no_stats :: net_device_stats where
  "no_stats \<equiv> \<lparr>rx_packets = 0, rx_bytes = 0, rx_dropped = 0, rx_errors = 0, tx_packets = 0,
     tx_bytes = 0, tx_errors = 0\<rparr>"

text \<open>The bits of a mask from the most significant one down.\<close>

fun contiguous_from :: "u32 \<Rightarrow> bool \<Rightarrow> nat list \<Rightarrow> bool" where
  "contiguous_from m saw_zero [] = True"
| "contiguous_from m saw_zero (i # is) =
     (let is_set = (m AND push_bit (31 - i) 1 \<noteq> 0) in
      if \<not> is_set then contiguous_from m True is
      else if saw_zero then False else contiguous_from m saw_zero is)"

definition netmask_is_contiguous :: "net_ipv4_addr \<Rightarrow> bool" where
  "netmask_is_contiguous netmask = contiguous_from (net_ipv4_addr_to_u32 netmask) False [0..<32]"

definition device_is_in_registry :: "dref \<Rightarrow> net_state \<Rightarrow> bool" where
  "device_is_in_registry d s \<longleftrightarrow> find_index (\<lambda>x. x = d) (net_devices s) \<noteq> None"

definition net_device_registry_reset :: "net_state \<Rightarrow> net_state" where
  "net_device_registry_reset s =
     (fold (\<lambda>d. upd_dev d (\<lambda>v. v\<lparr>dev_registered := False\<rparr>)) (net_devices s) s)
       \<lparr>net_devices := [], net_default_device := None\<rparr>"

definition net_device_register ::
  "dref \<Rightarrow> string \<Rightarrow> net_mac_addr \<Rightarrow> nat \<Rightarrow> bool \<Rightarrow> net_state \<Rightarrow> net_status \<times> net_state" where
  "net_device_register d name mac mtu transmit s =
     (if \<not> transmit \<or> net_mac_addr_is_zero mac \<or> net_mac_addr_is_multicast mac
         \<or> mtu < 576 \<or> mtu > NET_ETHERNET_MTU then (NET_ERR_INVALID, s)
      else if device_is_in_registry d s then (NET_ERR_EXISTS, s)
      else if length (net_devices s) \<ge> NET_DEVICE_MAX_COUNT then (NET_ERR_NO_BUFFER, s)
      else
        let name_length = min (length name) (NET_DEVICE_NAME_MAX + 1) in
        if name_length = 0 \<or> name_length > NET_DEVICE_NAME_MAX then (NET_ERR_INVALID, s)
        else
          let s = upd_dev d (\<lambda>v. v\<lparr>dev_name := take name_length name, dev_mac := mac, dev_mtu := mtu,
                     dev_transmit := transmit, dev_ipv4 := no_ipv4, dev_stats := no_stats,
                     dev_registered := True\<rparr>) s;
              s = s\<lparr>net_devices := net_devices s @ [d]\<rparr>;
              s = (if net_default_device s = None then s\<lparr>net_default_device := Some d\<rparr> else s) in
          (NET_OK, s))"

fun remove_device :: "dref \<Rightarrow> dref list \<Rightarrow> dref list option" where
  "remove_device d [] = None"
| "remove_device d (x # xs) = (if x = d then Some xs else map_option ((#) x) (remove_device d xs))"

definition net_device_unregister :: "dref \<Rightarrow> net_state \<Rightarrow> net_status \<times> net_state" where
  "net_device_unregister d s =
     (case remove_device d (net_devices s) of
        None \<Rightarrow> (NET_ERR_NOT_FOUND, s)
      | Some ds \<Rightarrow>
          let s = upd_dev d (\<lambda>v. v\<lparr>dev_registered := False\<rparr>) (s\<lparr>net_devices := ds\<rparr>);
              s = (if net_default_device s = Some d
                   then s\<lparr>net_default_device := (case ds of [] \<Rightarrow> None | x # _ \<Rightarrow> Some x)\<rparr> else s) in
          (NET_OK, s))"

definition net_device_set_default :: "dref \<Rightarrow> net_state \<Rightarrow> net_status \<times> net_state" where
  "net_device_set_default d s =
     (if \<not> device_is_in_registry d s then (NET_ERR_NO_DEVICE, s)
      else (NET_OK, s\<lparr>net_default_device := Some d\<rparr>))"

definition edge_of_subnet :: "net_ipv4_addr \<Rightarrow> u32 \<Rightarrow> bool" where
  "edge_of_subnet address host_mask \<longleftrightarrow>
     host_mask > 1 \<and> (net_ipv4_addr_to_u32 address AND host_mask = 0
       \<or> net_ipv4_addr_to_u32 address AND host_mask = host_mask)"

definition net_device_configure_ipv4 ::
  "dref \<Rightarrow> net_ipv4_addr \<Rightarrow> net_ipv4_addr \<Rightarrow> net_ipv4_addr \<Rightarrow> net_state \<Rightarrow> net_status \<times> net_state" where
  "net_device_configure_ipv4 d address netmask gateway s =
     (let host_mask = NOT (net_ipv4_addr_to_u32 netmask) in
      if \<not> device_is_in_registry d s \<or> \<not> net_ipv4_addr_is_unicast address
         \<or> \<not> netmask_is_contiguous netmask \<or> net_ipv4_addr_is_zero netmask then (NET_ERR_INVALID, s)
      else if edge_of_subnet address host_mask then (NET_ERR_INVALID, s)
      else if \<not> net_ipv4_addr_is_zero gateway
         \<and> (\<not> net_ipv4_addr_is_unicast gateway \<or> net_ipv4_addr_equal gateway address
            \<or> \<not> net_ipv4_addr_equal (net_ipv4_addr_and address netmask) (net_ipv4_addr_and gateway netmask)
            \<or> edge_of_subnet gateway host_mask) then (NET_ERR_INVALID, s)
      else (NET_OK, upd_dev d (\<lambda>v. v\<lparr>dev_ipv4 := \<lparr>cfg_address = address, cfg_netmask = netmask,
              cfg_gateway = gateway, cfg_configured = True\<rparr>\<rparr>) s))"

definition net_device_clear_ipv4 :: "dref \<Rightarrow> net_state \<Rightarrow> net_state" where
  "net_device_clear_ipv4 d = upd_dev d (\<lambda>v. v\<lparr>dev_ipv4 := no_ipv4\<rparr>)"

definition net_device_transmit :: "dref \<Rightarrow> u8 list \<Rightarrow> net_state \<Rightarrow> net_status \<times> net_state" where
  "net_device_transmit d frame s =
     (if \<not> dev_registered (devs s d) \<or> \<not> dev_transmit (devs s d) then (NET_ERR_NO_DEVICE, s)
      else if length frame < NET_ETHERNET_HEADER_LEN
           \<or> length frame > NET_ETHERNET_HEADER_LEN + dev_mtu (devs s d) then (NET_ERR_INVALID, s)
      else
        let s = s\<lparr>wire := wire s @ [(d, frame)]\<rparr>; result = driver s (wire s) in
        if result \<noteq> NET_OK
        then (if result < 0 then result else NET_ERR_IO, upd_stats d (\<lambda>t. t\<lparr>tx_errors := tx_errors t + 1\<rparr>) s)
        else (NET_OK, upd_stats d (\<lambda>t. t\<lparr>tx_packets := tx_packets t + 1,
                tx_bytes := tx_bytes t + of_nat (length frame)\<rparr>) s))"

section \<open>Sending Ethernet frames\<close>

abbreviation (input) NET_ETHERTYPE_IPV4 :: u16 where "NET_ETHERTYPE_IPV4 \<equiv> 0x0800"
abbreviation (input) NET_ETHERTYPE_ARP :: u16 where "NET_ETHERTYPE_ARP \<equiv> 0x0806"
abbreviation (input) NET_ETHERNET_MAX_FRAME_LEN :: nat where "NET_ETHERNET_MAX_FRAME_LEN \<equiv> 1514"

definition ethernet_frame :: "net_mac_addr \<Rightarrow> net_mac_addr \<Rightarrow> u16 \<Rightarrow> u8 list \<Rightarrow> u8 list" where
  "ethernet_frame destination source ethertype payload =
     mac_bytes destination @ mac_bytes source @ be16 ethertype @ payload
       @ replicate (NET_ETHERNET_MIN_FRAME_LEN - (NET_ETHERNET_HEADER_LEN + length payload)) 0"

definition net_ethernet_send ::
  "dref \<Rightarrow> net_mac_addr \<Rightarrow> u16 \<Rightarrow> u8 list \<Rightarrow> net_state \<Rightarrow> (net_status \<times> net_state) option" where
  "net_ethernet_send d destination ethertype payload s =
     (if \<not> dev_registered (devs s d) \<or> net_mac_addr_is_zero destination \<or> ethertype < 0x0600
      then Some (NET_ERR_INVALID, s)
      else if length payload > dev_mtu (devs s d) then Some (NET_ERR_TOO_LARGE, s)
      else if NET_ETHERNET_HEADER_LEN + length payload > NET_ETHERNET_MAX_FRAME_LEN then None
      else Some (net_device_transmit d
             (ethernet_frame destination (dev_mac (devs s d)) ethertype payload) s))"

end
