(* ===== verification/Net_Arp.thy ===== *)
theory Net_Arp
  imports Net_Device
begin

text \<open>
  Address resolution, \<open>kernel/net/net_arp.c\<close>: the cache, requests, resolution and ageing. What it
  learns from packets is in \<open>Net_Input\<close>, since learning an address sends the datagrams that wait
  for it. An entry pointer is an index of the cache.
\<close>

unbundle bit_operations_syntax

abbreviation (input) NET_ARP_CACHE_CAPACITY :: nat where "NET_ARP_CACHE_CAPACITY \<equiv> 16"
abbreviation (input) NET_ARP_CACHE_TTL_TICKS :: u32 where "NET_ARP_CACHE_TTL_TICKS \<equiv> 300"
abbreviation (input) NET_ARP_REQUEST_RETRY_TICKS :: u32 where "NET_ARP_REQUEST_RETRY_TICKS \<equiv> 1"
abbreviation (input) NET_ARP_PENDING_TTL_TICKS :: u32 where "NET_ARP_PENDING_TTL_TICKS \<equiv> 5"
abbreviation (input) NET_ARP_PACKET_LEN :: nat where "NET_ARP_PACKET_LEN \<equiv> 28"
abbreviation (input) NET_ARP_HARDWARE_ETHERNET :: u16 where "NET_ARP_HARDWARE_ETHERNET \<equiv> 1"
abbreviation (input) NET_ARP_OPERATION_REQUEST :: u16 where "NET_ARP_OPERATION_REQUEST \<equiv> 1"
abbreviation (input) NET_ARP_OPERATION_REPLY :: u16 where "NET_ARP_OPERATION_REPLY \<equiv> 2"

section \<open>The cache\<close>

definition saturating_add :: "u32 \<Rightarrow> u32 \<Rightarrow> u32" where
  "saturating_add v increment = (if increment > 0xffffffff - v then 0xffffffff else v + increment)"

definition entry_matches :: "dref \<Rightarrow> net_ipv4_addr \<Rightarrow> net_arp_entry \<Rightarrow> bool" where
  "entry_matches d address e \<longleftrightarrow>
     ae_state e \<noteq> NET_ARP_ENTRY_EMPTY \<and> ae_device e = Some d \<and> net_ipv4_addr_equal (ae_protocol e) address"

definition find_entry :: "dref \<Rightarrow> net_ipv4_addr \<Rightarrow> net_state \<Rightarrow> nat option" where
  "find_entry d address s = find_index (entry_matches d address) (net_arp_cache s)"

fun allocate_from :: "net_arp_entry list \<Rightarrow> nat \<Rightarrow> nat \<Rightarrow> u32 \<Rightarrow> nat" where
  "allocate_from [] i oldest oldest_age = oldest"
| "allocate_from (e # es) i oldest oldest_age =
     (if ae_state e = NET_ARP_ENTRY_EMPTY then i
      else if ae_age e > oldest_age then allocate_from es (i + 1) i (ae_age e)
      else allocate_from es (i + 1) oldest oldest_age)"

definition allocate_entry :: "net_state \<Rightarrow> nat" where
  "allocate_entry s = allocate_from (net_arp_cache s) 0 0 (ae_age (net_arp_cache s ! 0))"

definition upd_entry :: "nat \<Rightarrow> (net_arp_entry \<Rightarrow> net_arp_entry) \<Rightarrow> net_state \<Rightarrow> net_state" where
  "upd_entry i f s = s\<lparr>net_arp_cache := (net_arp_cache s)[i := f (net_arp_cache s ! i)]\<rparr>"

fun ipv4_multicast_mac :: "net_ipv4_addr \<Rightarrow> net_mac_addr" where
  "ipv4_multicast_mac (Ipv4 a b c d) = Mac 0x01 0x00 0x5e (b AND 0x7f) c d"

definition is_directed_broadcast :: "net_device \<Rightarrow> net_ipv4_addr \<Rightarrow> bool" where
  "is_directed_broadcast v address \<longleftrightarrow>
     cfg_configured (dev_ipv4 v) \<and>
     (let mask = net_ipv4_addr_to_u32 (cfg_netmask (dev_ipv4 v)) in
      \<not> NOT mask \<le> 1 \<and>
      (let network = net_ipv4_addr_to_u32 (cfg_address (dev_ipv4 v)) AND mask in
       net_ipv4_addr_to_u32 address = (network OR NOT mask)))"

definition net_arp_reset :: "net_state \<Rightarrow> net_state" where
  "net_arp_reset s =
     s\<lparr>net_arp_cache := map (\<lambda>e. e\<lparr>ae_state := NET_ARP_ENTRY_EMPTY, ae_device := None, ae_age := 0,
         ae_last_request_age := 0\<rparr>) (net_arp_cache s)\<rparr>"

definition net_arp_lookup :: "dref \<Rightarrow> net_ipv4_addr \<Rightarrow> net_state \<Rightarrow> net_mac_addr option" where
  "net_arp_lookup d address s =
     (let v = devs s d in
      if \<not> dev_registered v then None
      else if net_ipv4_addr_is_limited_broadcast address \<or> is_directed_broadcast v address
      then Some mac_broadcast
      else if net_ipv4_addr_is_multicast address then Some (ipv4_multicast_mac address)
      else if cfg_configured (dev_ipv4 v) \<and> net_ipv4_addr_equal address (cfg_address (dev_ipv4 v))
      then Some (dev_mac v)
      else case find_entry d address s of
          None \<Rightarrow> None
        | Some i \<Rightarrow>
            if ae_state (net_arp_cache s ! i) \<noteq> NET_ARP_ENTRY_VALID then None
            else Some (ae_hardware (net_arp_cache s ! i)))"

section \<open>Requests and resolution\<close>

definition arp_packet ::
  "u16 \<Rightarrow> net_mac_addr \<Rightarrow> net_ipv4_addr \<Rightarrow> net_mac_addr \<Rightarrow> net_ipv4_addr \<Rightarrow> u8 list" where
  "arp_packet operation sender_hardware sender_protocol target_hardware target_protocol =
     be16 NET_ARP_HARDWARE_ETHERNET @ be16 NET_ETHERTYPE_IPV4 @ [6, 4] @ be16 operation
       @ mac_bytes sender_hardware @ ipv4_bytes sender_protocol
       @ mac_bytes target_hardware @ ipv4_bytes target_protocol"

definition net_arp_request ::
  "dref \<Rightarrow> net_ipv4_addr \<Rightarrow> net_state \<Rightarrow> (net_status \<times> net_state) option" where
  "net_arp_request d address s =
     (let v = devs s d in
      if \<not> dev_registered v \<or> \<not> cfg_configured (dev_ipv4 v) \<or> \<not> net_ipv4_addr_is_unicast address
         \<or> is_directed_broadcast v address then Some (NET_ERR_INVALID, s)
      else net_ethernet_send d mac_broadcast NET_ETHERTYPE_ARP
        (arp_packet NET_ARP_OPERATION_REQUEST (dev_mac v) (cfg_address (dev_ipv4 v)) (Mac 0 0 0 0 0 0) address) s)"

definition net_arp_resolve ::
  "dref \<Rightarrow> net_ipv4_addr \<Rightarrow> net_state \<Rightarrow> (net_status \<times> net_mac_addr option \<times> net_state) option" where
  "net_arp_resolve d address s =
     (if \<not> dev_registered (devs s d) then Some (NET_ERR_INVALID, None, s)
      else case net_arp_lookup d address s of
        Some mac \<Rightarrow> Some (NET_OK, Some mac, s)
      | None \<Rightarrow>
          if \<not> cfg_configured (dev_ipv4 (devs s d)) \<or> net_ipv4_addr_is_zero address
          then Some (NET_ERR_INVALID, None, s)
          else
            let entry = find_entry d address s in
            if (case entry of None \<Rightarrow> False
                | Some i \<Rightarrow> ae_state (net_arp_cache s ! i) = NET_ARP_ENTRY_PENDING \<and>
                    ae_age (net_arp_cache s ! i) - ae_last_request_age (net_arp_cache s ! i)
                      < NET_ARP_REQUEST_RETRY_TICKS)
            then Some (NET_ERR_AGAIN, None, s)
            else
              let i = (case entry of None \<Rightarrow> allocate_entry s | Some i \<Rightarrow> i) in do {
              (result, s) \<leftarrow> net_arp_request d address
                (upd_entry i (\<lambda>e. e\<lparr>ae_state := NET_ARP_ENTRY_PENDING, ae_device := Some d,
                   ae_protocol := address, ae_age := 0, ae_last_request_age := 0\<rparr>) s);
              if result \<noteq> NET_OK then
                if result = NET_ERR_AGAIN then Some (NET_ERR_AGAIN, None, s)
                else Some (result, None,
                  upd_entry i (\<lambda>e. e\<lparr>ae_state := NET_ARP_ENTRY_EMPTY, ae_device := None\<rparr>) s)
              else Some (NET_ERR_AGAIN, None, s)
            })"

text \<open>
  One entry of \<open>net_arp_tick\<close>. A pending entry always has a device; without one the request
  reports an invalid argument.
\<close>

definition arp_tick_entry :: "u32 \<Rightarrow> nat \<Rightarrow> net_state \<Rightarrow> net_state option" where
  "arp_tick_entry elapsed i s =
     (if ae_state (net_arp_cache s ! i) = NET_ARP_ENTRY_EMPTY then Some s
      else
        let s = upd_entry i (\<lambda>e. e\<lparr>ae_age := saturating_add (ae_age e) elapsed\<rparr>) s;
            e = net_arp_cache s ! i in
        if (ae_state e = NET_ARP_ENTRY_VALID \<and> ae_age e \<ge> NET_ARP_CACHE_TTL_TICKS)
           \<or> (ae_state e = NET_ARP_ENTRY_PENDING \<and> ae_age e \<ge> NET_ARP_PENDING_TTL_TICKS)
        then Some (upd_entry i (\<lambda>e. e\<lparr>ae_state := NET_ARP_ENTRY_EMPTY, ae_device := None\<rparr>) s)
        else if ae_state e = NET_ARP_ENTRY_PENDING
           \<and> ae_age e - ae_last_request_age e \<ge> NET_ARP_REQUEST_RETRY_TICKS
        then do {
          (result, s) \<leftarrow> (case ae_device e of
              None \<Rightarrow> Some (NET_ERR_INVALID, s)
            | Some d \<Rightarrow> net_arp_request d (ae_protocol e) s);
          Some (if result = NET_OK \<or> result = NET_ERR_AGAIN
                then upd_entry i (\<lambda>e. e\<lparr>ae_last_request_age := ae_age e\<rparr>) s else s)
        }
        else Some s)"

definition net_arp_tick :: "u32 \<Rightarrow> net_state \<Rightarrow> net_state option" where
  "net_arp_tick elapsed s = foldM (arp_tick_entry elapsed) [0..<length (net_arp_cache s)] s"

end
