(* ===== verification/Net_Ipv4.thy ===== *)
theory Net_Ipv4
  imports Net_Arp
begin

text \<open>
  Routing, the queue of datagrams that wait for an address, and sending,
  \<open>kernel/net/net_ipv4.c\<close>. Its receiving half is in \<open>Net_Input\<close>.
\<close>

unbundle bit_operations_syntax

abbreviation (input) NET_IPV4_PROTOCOL_ICMP :: u8 where "NET_IPV4_PROTOCOL_ICMP \<equiv> 1"
abbreviation (input) NET_IPV4_DEFAULT_TTL :: u8 where "NET_IPV4_DEFAULT_TTL \<equiv> 64"
abbreviation (input) NET_IPV4_PENDING_TTL_TICKS :: u32 where "NET_IPV4_PENDING_TTL_TICKS \<equiv> 5"

section \<open>Routing\<close>

fun prefix_from :: "u32 \<Rightarrow> bool \<Rightarrow> u8 \<Rightarrow> nat list \<Rightarrow> u8 option" where
  "prefix_from m saw_zero prefix [] = Some prefix"
| "prefix_from m saw_zero prefix (i # is) =
     (if m AND push_bit (31 - i) 1 \<noteq> 0
      then if saw_zero then None else prefix_from m saw_zero (prefix + 1) is
      else prefix_from m True prefix is)"

definition netmask_prefix_length :: "net_ipv4_addr \<Rightarrow> u8 option" where
  "netmask_prefix_length netmask = prefix_from (net_ipv4_addr_to_u32 netmask) False 0 [0..<32]"

definition route_matches :: "net_ipv4_route \<Rightarrow> net_ipv4_addr \<Rightarrow> bool" where
  "route_matches r destination =
     net_ipv4_addr_equal (net_ipv4_addr_and destination (rt_netmask r)) (rt_network r)"

definition address_is_directed_broadcast :: "net_device \<Rightarrow> net_ipv4_addr \<Rightarrow> bool" where
  "address_is_directed_broadcast v address \<longleftrightarrow>
     cfg_configured (dev_ipv4 v) \<and>
     (let netmask = net_ipv4_addr_to_u32 (cfg_netmask (dev_ipv4 v)) in
      \<not> NOT netmask \<le> 1 \<and>
      (let network = net_ipv4_addr_to_u32 (cfg_address (dev_ipv4 v)) AND netmask;
           broadcast = network OR NOT netmask in
       net_ipv4_addr_to_u32 address = broadcast))"

text \<open>The destination lies in the subnet of the device.\<close>

definition on_link :: "net_device \<Rightarrow> net_ipv4_addr \<Rightarrow> bool" where
  "on_link v destination \<longleftrightarrow>
     net_ipv4_addr_equal (net_ipv4_addr_and destination (cfg_netmask (dev_ipv4 v)))
       (net_ipv4_addr_and (cfg_address (dev_ipv4 v)) (cfg_netmask (dev_ipv4 v)))"

text \<open>A prefix length that the caller may ignore: an out-parameter left at its initial value.\<close>

abbreviation (input) prefix_or_0 :: "net_ipv4_addr \<Rightarrow> u8" where
  "prefix_or_0 netmask \<equiv> (case netmask_prefix_length netmask of None \<Rightarrow> 0 | Some p \<Rightarrow> p)"

text \<open>State of the search in \<open>next_hop_for_device\<close>: best route, its prefix, directly connected.\<close>

fun next_hop_step ::
  "(dref \<Rightarrow> net_device) \<Rightarrow> dref \<Rightarrow> net_ipv4_addr \<Rightarrow> net_ipv4_route_slot
    \<Rightarrow> net_ipv4_route option \<times> u8 \<times> bool \<Rightarrow> net_ipv4_route option \<times> u8 \<times> bool" where
  "next_hop_step store d destination slot (best, best_prefix, direct) =
     (let r = rs_route slot in
      if \<not> rs_used slot \<or> rt_device r \<noteq> Some d \<or> \<not> dev_registered (store d) \<or> \<not> route_matches r destination
      then (best, best_prefix, direct)
      else case netmask_prefix_length (rt_netmask r) of
        None \<Rightarrow> (best, best_prefix, direct)
      | Some prefix \<Rightarrow>
          if (\<not> direct \<and> best = None) \<or> prefix > best_prefix
             \<or> (\<not> direct \<and> prefix = best_prefix
                \<and> (case best of None \<Rightarrow> False | Some b \<Rightarrow> rt_metric r < rt_metric b))
          then (Some r, prefix, False) else (best, best_prefix, direct))"

definition next_hop_for_device ::
  "dref \<Rightarrow> net_ipv4_addr \<Rightarrow> net_state \<Rightarrow> net_status \<times> net_ipv4_addr option" where
  "next_hop_for_device d destination s =
     (let v = devs s d in
      if net_ipv4_addr_is_limited_broadcast destination \<or> net_ipv4_addr_is_multicast destination
      then (NET_OK, Some destination)
      else
        let start = (if cfg_configured (dev_ipv4 v) \<and> on_link v destination
                     then (None, prefix_or_0 (cfg_netmask (dev_ipv4 v)), True) else (None, 0, False));
            (best, best_prefix, direct) =
              fold (next_hop_step (devs s) d destination) (net_ipv4_routes s) start in
        if direct then (NET_OK, Some destination)
        else case best of
          Some r \<Rightarrow> (NET_OK, Some (if net_ipv4_addr_is_zero (rt_gateway r) then destination else rt_gateway r))
        | None \<Rightarrow>
            if \<not> cfg_configured (dev_ipv4 v) then (NET_ERR_NO_ROUTE, None)
            else if \<not> net_ipv4_addr_is_zero (cfg_gateway (dev_ipv4 v))
            then (NET_OK, Some (cfg_gateway (dev_ipv4 v)))
            else (NET_ERR_NO_ROUTE, None))"

definition same_route :: "dref \<Rightarrow> net_ipv4_addr \<Rightarrow> net_ipv4_addr \<Rightarrow> net_ipv4_route_slot \<Rightarrow> bool" where
  "same_route d network netmask slot \<longleftrightarrow>
     rs_used slot \<and> rt_device (rs_route slot) = Some d
       \<and> net_ipv4_addr_equal (rt_network (rs_route slot)) network
       \<and> net_ipv4_addr_equal (rt_netmask (rs_route slot)) netmask"

definition net_ipv4_route_add ::
  "net_ipv4_addr \<Rightarrow> net_ipv4_addr \<Rightarrow> net_ipv4_addr \<Rightarrow> dref \<Rightarrow> u16 \<Rightarrow> net_state \<Rightarrow> net_status \<times> net_state" where
  "net_ipv4_route_add network netmask gateway d metric s =
     (let v = devs s d in
      if \<not> dev_registered v \<or> netmask_prefix_length netmask = None
         \<or> (\<not> net_ipv4_addr_is_zero gateway \<and> \<not> net_ipv4_addr_is_unicast gateway)
      then (NET_ERR_INVALID, s)
      else if \<not> net_ipv4_addr_is_zero gateway
         \<and> (\<not> cfg_configured (dev_ipv4 v) \<or> \<not> on_link v gateway)
      then (NET_ERR_NO_ROUTE, s)
      else
        let canonical_network = net_ipv4_addr_and network netmask in
        case find_index (same_route d canonical_network netmask) (net_ipv4_routes s) of
          Some _ \<Rightarrow> (NET_ERR_EXISTS, s)
        | None \<Rightarrow>
            case find_index (\<lambda>slot. \<not> rs_used slot) (net_ipv4_routes s) of
              None \<Rightarrow> (NET_ERR_NO_BUFFER, s)
            | Some i \<Rightarrow> (NET_OK, s\<lparr>net_ipv4_routes := (net_ipv4_routes s)[i :=
                \<lparr>rs_route = \<lparr>rt_network = canonical_network, rt_netmask = netmask,
                   rt_gateway = gateway, rt_device = Some d, rt_metric = metric\<rparr>, rs_used = True\<rparr>]\<rparr>))"

definition net_ipv4_route_remove ::
  "net_ipv4_addr \<Rightarrow> net_ipv4_addr \<Rightarrow> dref \<Rightarrow> net_state \<Rightarrow> net_status \<times> net_state" where
  "net_ipv4_route_remove network netmask d s =
     (let canonical_network = net_ipv4_addr_and network netmask in
      if netmask_prefix_length netmask = None then (NET_ERR_INVALID, s)
      else case find_index (same_route d canonical_network netmask) (net_ipv4_routes s) of
          None \<Rightarrow> (NET_ERR_NOT_FOUND, s)
        | Some i \<Rightarrow> (NET_OK, s\<lparr>net_ipv4_routes :=
            (net_ipv4_routes s)[i := (net_ipv4_routes s ! i)\<lparr>rs_used := False\<rparr>]\<rparr>))"

text \<open>State of the search in \<open>net_ipv4_route_lookup\<close>: the best route and its prefix.\<close>

definition lookup_route_step ::
  "(dref \<Rightarrow> net_device) \<Rightarrow> net_ipv4_addr \<Rightarrow> net_ipv4_route_slot
    \<Rightarrow> (net_ipv4_route \<times> u8) option \<Rightarrow> (net_ipv4_route \<times> u8) option" where
  "lookup_route_step store destination slot best =
     (let r = rs_route slot in
      case rt_device r of
        None \<Rightarrow> best
      | Some d \<Rightarrow>
          if \<not> rs_used slot \<or> \<not> dev_registered (store d) \<or> \<not> route_matches r destination then best
          else case netmask_prefix_length (rt_netmask r) of
            None \<Rightarrow> best
          | Some prefix \<Rightarrow>
              if (case best of None \<Rightarrow> True
                  | Some (b, best_prefix) \<Rightarrow> prefix > best_prefix
                      \<or> (prefix = best_prefix \<and> rt_metric r < rt_metric b))
              then Some (r, prefix) else best)"

definition connected_route :: "dref \<Rightarrow> net_device \<Rightarrow> net_ipv4_route" where
  "connected_route d v =
     \<lparr>rt_network = net_ipv4_addr_and (cfg_address (dev_ipv4 v)) (cfg_netmask (dev_ipv4 v)),
      rt_netmask = cfg_netmask (dev_ipv4 v), rt_gateway = ipv4_zero, rt_device = Some d, rt_metric = 0\<rparr>"

definition lookup_device_step ::
  "(dref \<Rightarrow> net_device) \<Rightarrow> net_ipv4_addr \<Rightarrow> dref
    \<Rightarrow> (net_ipv4_route \<times> u8) option \<Rightarrow> (net_ipv4_route \<times> u8) option" where
  "lookup_device_step store destination d best =
     (let v = store d in
      if cfg_configured (dev_ipv4 v) \<and> on_link v destination then
        let prefix = prefix_or_0 (cfg_netmask (dev_ipv4 v)) in
        if (case best of None \<Rightarrow> True | Some (b, best_prefix) \<Rightarrow> prefix \<ge> best_prefix)
        then Some (connected_route d v, prefix) else best
      else best)"

abbreviation (input) plain_route :: "dref \<Rightarrow> net_ipv4_addr \<Rightarrow> u16 \<Rightarrow> net_ipv4_route" where
  "plain_route d gateway metric \<equiv>
     \<lparr>rt_network = ipv4_zero, rt_netmask = ipv4_zero, rt_gateway = gateway, rt_device = Some d,
      rt_metric = metric\<rparr>"

definition net_ipv4_route_lookup ::
  "net_ipv4_addr \<Rightarrow> net_state \<Rightarrow> net_status \<times> net_ipv4_route option" where
  "net_ipv4_route_lookup destination s =
     (if \<not> net_ipv4_addr_is_unicast destination \<and> \<not> net_ipv4_addr_is_multicast destination
         \<and> \<not> net_ipv4_addr_is_limited_broadcast destination
      then (NET_ERR_INVALID, None)
      else if net_ipv4_addr_is_limited_broadcast destination \<or> net_ipv4_addr_is_multicast destination then
        (case net_default_device s of
           None \<Rightarrow> (NET_ERR_NO_DEVICE, None)
         | Some d \<Rightarrow> (NET_OK, Some (plain_route d ipv4_zero 0)))
      else
        case fold (lookup_device_step (devs s) destination) (net_devices s)
               (fold (lookup_route_step (devs s) destination) (net_ipv4_routes s) None) of
          Some (best, _) \<Rightarrow> (NET_OK, Some best)
        | None \<Rightarrow>
            (case net_default_device s of
               None \<Rightarrow> (NET_ERR_NO_ROUTE, None)
             | Some d \<Rightarrow>
                 let v = devs s d in
                 if cfg_configured (dev_ipv4 v) \<and> \<not> net_ipv4_addr_is_zero (cfg_gateway (dev_ipv4 v))
                 then (NET_OK, Some (plain_route d (cfg_gateway (dev_ipv4 v)) 0xffff))
                 else (NET_ERR_NO_ROUTE, None)))"

section \<open>Protocol handlers\<close>

definition net_ipv4_register_protocol ::
  "u8 \<Rightarrow> net_ipv4_protocol_fn \<Rightarrow> net_state \<Rightarrow> net_status \<times> net_state" where
  "net_ipv4_register_protocol protocol handler s =
     (if protocol = 0 then (NET_ERR_INVALID, s)
      else case find_index (\<lambda>h. hs_used h \<and> hs_protocol h = protocol) (net_ipv4_handlers s) of
        Some _ \<Rightarrow> (NET_ERR_EXISTS, s)
      | None \<Rightarrow>
          case find_index (\<lambda>h. \<not> hs_used h) (net_ipv4_handlers s) of
            None \<Rightarrow> (NET_ERR_NO_BUFFER, s)
          | Some i \<Rightarrow> (NET_OK, s\<lparr>net_ipv4_handlers := (net_ipv4_handlers s)[i :=
              \<lparr>hs_protocol = protocol, hs_handler = handler, hs_used = True\<rparr>]\<rparr>))"

definition net_ipv4_unregister_protocol :: "u8 \<Rightarrow> net_state \<Rightarrow> net_status \<times> net_state" where
  "net_ipv4_unregister_protocol protocol s =
     (case find_index (\<lambda>h. hs_used h \<and> hs_protocol h = protocol) (net_ipv4_handlers s) of
        None \<Rightarrow> (NET_ERR_NOT_FOUND, s)
      | Some i \<Rightarrow> (NET_OK, s\<lparr>net_ipv4_handlers :=
          (net_ipv4_handlers s)[i := (net_ipv4_handlers s ! i)\<lparr>hs_used := False\<rparr>]\<rparr>))"

section \<open>Datagrams that wait for address resolution\<close>

definition upd_pending ::
  "nat \<Rightarrow> (net_ipv4_pending_packet \<Rightarrow> net_ipv4_pending_packet) \<Rightarrow> net_state \<Rightarrow> net_state" where
  "upd_pending i f s = s\<lparr>net_ipv4_pending := (net_ipv4_pending s)[i := f (net_ipv4_pending s ! i)]\<rparr>"

definition queue_pending_packet ::
  "dref \<Rightarrow> net_ipv4_addr \<Rightarrow> u8 list \<Rightarrow> net_state \<Rightarrow> (net_status \<times> net_state) option" where
  "queue_pending_packet d next_hop packet s =
     (case find_index (\<lambda>p. \<not> pp_used p) (net_ipv4_pending s) of
        None \<Rightarrow> Some (NET_ERR_NO_BUFFER, s)
      | Some i \<Rightarrow>
          if length packet > NET_ETHERNET_MTU then None
          else Some (NET_OK, upd_pending i (\<lambda>_. \<lparr>pp_device = Some d, pp_next_hop = next_hop,
                 pp_packet = packet, pp_age = 0, pp_used = True\<rparr>) s))"

definition net_ipv4_reset :: "net_state \<Rightarrow> net_state" where
  "net_ipv4_reset s =
     s\<lparr>net_ipv4_routes := map (\<lambda>r. r\<lparr>rs_used := False\<rparr>) (net_ipv4_routes s),
       net_ipv4_handlers := map (\<lambda>h. h\<lparr>hs_used := False\<rparr>) (net_ipv4_handlers s),
       net_ipv4_pending := map (\<lambda>p. p\<lparr>pp_used := False\<rparr>) (net_ipv4_pending s),
       net_ipv4_identification := 1\<rparr>"

text \<open>One slot of \<open>net_ipv4_tick\<close>; a used slot has a device, without one the lookup fails.\<close>

definition ipv4_tick_slot :: "u32 \<Rightarrow> nat \<Rightarrow> net_state \<Rightarrow> net_state option" where
  "ipv4_tick_slot elapsed i s =
     (let p = net_ipv4_pending s ! i in
      if \<not> pp_used p then Some s
      else case (case pp_device p of None \<Rightarrow> None
                 | Some d \<Rightarrow> map_option (Pair d) (net_arp_lookup d (pp_next_hop p) s)) of
        Some (d, destination) \<Rightarrow> do {
          (_, s) \<leftarrow> net_ethernet_send d destination NET_ETHERTYPE_IPV4 (pp_packet p) s;
          Some (upd_pending i (\<lambda>p. p\<lparr>pp_used := False\<rparr>) s)
        }
      | None \<Rightarrow>
          let s = upd_pending i (\<lambda>p. p\<lparr>pp_age := saturating_add (pp_age p) elapsed\<rparr>) s in
          Some (if pp_age (net_ipv4_pending s ! i) \<ge> NET_IPV4_PENDING_TTL_TICKS
                then upd_pending i (\<lambda>p. p\<lparr>pp_used := False\<rparr>) s else s))"

definition net_ipv4_tick :: "u32 \<Rightarrow> net_state \<Rightarrow> net_state option" where
  "net_ipv4_tick elapsed s = foldM (ipv4_tick_slot elapsed) [0..<length (net_ipv4_pending s)] s"

definition notify_slot ::
  "dref \<Rightarrow> net_ipv4_addr \<Rightarrow> net_mac_addr \<Rightarrow> nat \<Rightarrow> net_state \<Rightarrow> net_state option" where
  "notify_slot d address destination i s =
     (let p = net_ipv4_pending s ! i in
      if pp_used p \<and> pp_device p = Some d \<and> net_ipv4_addr_equal (pp_next_hop p) address
      then do {
        (_, s) \<leftarrow> net_ethernet_send d destination NET_ETHERTYPE_IPV4 (pp_packet p) s;
        Some (upd_pending i (\<lambda>p. p\<lparr>pp_used := False\<rparr>) s)
      }
      else Some s)"

definition net_ipv4_notify_arp_resolved :: "dref \<Rightarrow> net_ipv4_addr \<Rightarrow> net_state \<Rightarrow> net_state option" where
  "net_ipv4_notify_arp_resolved d address s =
     (case net_arp_lookup d address s of
        None \<Rightarrow> Some s
      | Some destination \<Rightarrow>
          foldM (notify_slot d address destination) [0..<length (net_ipv4_pending s)] s)"

section \<open>Sending\<close>

definition ipv4_header_zero :: "nat \<Rightarrow> u16 \<Rightarrow> u8 \<Rightarrow> net_ipv4_addr \<Rightarrow> net_ipv4_addr \<Rightarrow> u8 list" where
  "ipv4_header_zero payload_length identification protocol source destination =
     [0x45, 0] @ be16 (of_nat (NET_IPV4_MIN_HEADER_LEN + payload_length)) @ be16 identification
       @ be16 0x4000 @ [NET_IPV4_DEFAULT_TTL, protocol] @ be16 0
       @ ipv4_bytes source @ ipv4_bytes destination"

definition net_ipv4_send_on ::
  "dref \<Rightarrow> net_ipv4_addr \<Rightarrow> net_ipv4_addr \<Rightarrow> u8 \<Rightarrow> u8 list \<Rightarrow> net_state \<Rightarrow> (net_status \<times> net_state) option" where
  "net_ipv4_send_on d source destination protocol payload s =
     (let v = devs s d; configured = cfg_configured (dev_ipv4 v) in
      if \<not> dev_registered v \<or> protocol = 0
         \<or> (\<not> net_ipv4_addr_is_unicast destination \<and> \<not> net_ipv4_addr_is_multicast destination
            \<and> \<not> net_ipv4_addr_is_limited_broadcast destination)
      then Some (NET_ERR_INVALID, s)
      else if length payload > 0xffff - NET_IPV4_MIN_HEADER_LEN
         \<or> length payload + NET_IPV4_MIN_HEADER_LEN > dev_mtu v
      then Some (NET_ERR_TOO_LARGE, s)
      else if configured \<and> \<not> net_ipv4_addr_is_zero source
         \<and> \<not> net_ipv4_addr_equal source (cfg_address (dev_ipv4 v))
      then Some (NET_ERR_INVALID, s)
      else if \<not> configured \<and> (\<not> net_ipv4_addr_is_zero source
         \<or> \<not> net_ipv4_addr_is_limited_broadcast destination)
      then Some (NET_ERR_NO_ROUTE, s)
      else
        let source = (if configured \<and> net_ipv4_addr_is_zero source then cfg_address (dev_ipv4 v) else source) in
        if \<not> net_ipv4_addr_is_zero source \<and> \<not> net_ipv4_addr_is_unicast source
        then Some (NET_ERR_INVALID, s)
        else case next_hop_for_device d destination s of
          (result, None) \<Rightarrow> Some (result, s)
        | (result, Some next_hop) \<Rightarrow>
            if NET_IPV4_MIN_HEADER_LEN + length payload > NET_ETHERNET_MTU then None
            else
              let header = ipv4_header_zero (length payload) (net_ipv4_identification s) protocol
                             source destination;
                  s = s\<lparr>net_ipv4_identification := net_ipv4_identification s + 1\<rparr> in do {
              header \<leftarrow> net_write_be16 header 10 (net_checksum_compute header);
              let packet = header @ payload;
              (result, mac, s) \<leftarrow> net_arp_resolve d next_hop s;
              (case mac of
                 Some destination_mac \<Rightarrow> net_ethernet_send d destination_mac NET_ETHERTYPE_IPV4 packet s
               | None \<Rightarrow> if result = NET_ERR_AGAIN then queue_pending_packet d next_hop packet s
                         else Some (result, s))
            })"

definition net_ipv4_send ::
  "net_ipv4_addr \<Rightarrow> net_ipv4_addr \<Rightarrow> u8 \<Rightarrow> u8 list \<Rightarrow> net_state \<Rightarrow> (net_status \<times> net_state) option" where
  "net_ipv4_send source destination protocol payload s =
     (case net_ipv4_route_lookup destination s of
        (result, None) \<Rightarrow> Some (result, s)
      | (result, Some r) \<Rightarrow>
          (case rt_device r of
             None \<Rightarrow> None
           | Some d \<Rightarrow>
               let v = devs s d;
                   source = (if net_ipv4_addr_is_zero source \<and> cfg_configured (dev_ipv4 v)
                             then cfg_address (dev_ipv4 v) else source) in
               net_ipv4_send_on d source destination protocol payload s))"

end
