(* ===== verification/Net_Routing.thy ===== *)
theory Net_Routing
  imports Net_Ipv4
begin

text \<open>
  What the route lookup of \<open>net_ipv4.c\<close> finds: among the static routes and the subnets of the
  devices that contain the destination, one with the longest prefix.
\<close>

section \<open>Candidates\<close>

definition static_candidate ::
  "(dref \<Rightarrow> net_device) \<Rightarrow> net_ipv4_addr \<Rightarrow> net_ipv4_route_slot \<Rightarrow> (net_ipv4_route \<times> u8) option" where
  "static_candidate store dst slot =
     (case (rt_device (rs_route slot), netmask_prefix_length (rt_netmask (rs_route slot))) of
        (Some d, Some p) \<Rightarrow>
          if rs_used slot \<and> dev_registered (store d) \<and> route_matches (rs_route slot) dst
          then Some (rs_route slot, p) else None
      | _ \<Rightarrow> None)"

definition connected_candidate ::
  "(dref \<Rightarrow> net_device) \<Rightarrow> net_ipv4_addr \<Rightarrow> dref \<Rightarrow> (net_ipv4_route \<times> u8) option" where
  "connected_candidate store dst d =
     (if cfg_configured (dev_ipv4 (store d)) \<and> on_link (store d) dst
      then Some (connected_route d (store d), prefix_or_0 (cfg_netmask (dev_ipv4 (store d)))) else None)"

definition static_candidates :: "net_ipv4_addr \<Rightarrow> net_state \<Rightarrow> (net_ipv4_route \<times> u8) list" where
  "static_candidates dst s = List.map_filter (static_candidate (devs s) dst) (net_ipv4_routes s)"

definition connected_candidates :: "net_ipv4_addr \<Rightarrow> net_state \<Rightarrow> (net_ipv4_route \<times> u8) list" where
  "connected_candidates dst s = List.map_filter (connected_candidate (devs s) dst) (net_devices s)"

text \<open>
  The best of static routes \<open>rs\<close> and connected subnets \<open>cs\<close>: no prefix is longer, a subnet wins over a
  static route of the same prefix, and among static routes the lower metric wins.
\<close>

definition best_route ::
  "(net_ipv4_route \<times> u8) list \<Rightarrow> (net_ipv4_route \<times> u8) list \<Rightarrow> (net_ipv4_route \<times> u8) option \<Rightarrow> bool" where
  "best_route rs cs best \<longleftrightarrow>
     (case best of
        None \<Rightarrow> rs = [] \<and> cs = []
      | Some (r, p) \<Rightarrow>
          (\<forall>(r', p') \<in> set rs \<union> set cs. p' \<le> p)
          \<and> ((r, p) \<in> set cs
             \<or> (r, p) \<in> set rs \<and> (\<forall>(r', p') \<in> set cs. p' < p)
                \<and> (\<forall>(r', p') \<in> set rs. p' = p \<longrightarrow> rt_metric r \<le> rt_metric r')))"

lemma lookup_route_step_candidate:
  "lookup_route_step store dst slot best =
     (case static_candidate store dst slot of
        None \<Rightarrow> best
      | Some (r, p) \<Rightarrow>
          if (case best of None \<Rightarrow> True
              | Some (b, q) \<Rightarrow> p > q \<or> (p = q \<and> rt_metric r < rt_metric b))
          then Some (r, p) else best)"
  by (auto simp: lookup_route_step_def static_candidate_def Let_def split: option.splits)

lemma lookup_device_step_candidate:
  "lookup_device_step store dst d best =
     (case connected_candidate store dst d of
        None \<Rightarrow> best
      | Some (r, p) \<Rightarrow>
          if (case best of None \<Rightarrow> True | Some (b, q) \<Rightarrow> p \<ge> q) then Some (r, p) else best)"
  by (auto simp: lookup_device_step_def connected_candidate_def Let_def split: option.splits)

lemma map_filter_snoc: "List.map_filter f (xs @ [x]) = List.map_filter f xs @ (case f x of None \<Rightarrow> [] | Some y \<Rightarrow> [y])"
  by (induction xs) (auto simp: List.map_filter_def split: option.splits)

lemma static_best:
  "best_route (List.map_filter (static_candidate store dst) slots) []
     (fold (lookup_route_step store dst) slots None)"
proof (induction slots rule: rev_induct)
  case (snoc slot slots)
  show ?case
    using snoc
    by (auto simp: lookup_route_step_candidate map_filter_snoc best_route_def split: option.splits if_splits)
qed (simp add: best_route_def List.map_filter_def)

lemma best_route_connected:
  assumes "best_route rs cs best"
  shows "best_route rs (cs @ [(r, p)])
    (if (case best of None \<Rightarrow> True | Some (b, q) \<Rightarrow> p \<ge> q) then Some (r, p) else best)"
proof (cases best)
  case (Some x)
  obtain b q where x: "x = (b, q)" by fastforce
  have le: "p' \<le> q" if "(r', p') \<in> set rs \<union> set cs" for r' p'
    using assms that by (auto simp: best_route_def Some x)
  show ?thesis
  proof (cases "q \<le> p")
    case True
    then have "p' \<le> p" if "(r', p') \<in> set rs \<union> set cs" for r' p' using le that by (meson order_trans)
    then show ?thesis using True by (auto simp: best_route_def Some x)
  next
    case False
    then show ?thesis using assms by (auto simp: best_route_def Some x)
  qed
qed (use assms in \<open>simp add: best_route_def\<close>)

lemma connected_best:
  assumes "best_route rs [] best"
  shows "best_route rs (List.map_filter (connected_candidate store dst) ds) (fold (lookup_device_step store dst) ds best)"
proof (induction ds rule: rev_induct)
  case (snoc d ds)
  show ?case
  proof (cases "connected_candidate store dst d")
    case None
    then show ?thesis
      using snoc by (simp add: lookup_device_step_candidate [of _ _ d] map_filter_snoc)
  next
    case (Some x)
    then show ?thesis
      using best_route_connected [OF snoc, of "fst x" "snd x"]
      by (simp add: lookup_device_step_candidate [of _ _ d] map_filter_snoc case_prod_unfold)
  qed
qed (simp add: assms List.map_filter_def)

section \<open>Longest prefix match\<close>


text \<open>A stack with one device in 10.0.0.0/24 and a static route for 10.0.0.0/8.\<close>

definition routed :: net_state where
  "routed =
     (let v = \<lparr>dev_name = ''eth0'', dev_mac = Mac 2 0 0 0 0 1, dev_mtu = 1500, dev_transmit = True,
                dev_ipv4 = \<lparr>cfg_address = Ipv4 10 0 0 2, cfg_netmask = Ipv4 255 255 255 0,
                  cfg_gateway = Ipv4 10 0 0 1, cfg_configured = True\<rparr>,
                dev_stats = no_stats, dev_registered = True\<rparr> in
      \<lparr>devs = (\<lambda>_. v), net_devices = [0], net_default_device = Some 0, net_arp_cache = [],
       net_ipv4_routes = [\<lparr>rs_route = \<lparr>rt_network = Ipv4 10 0 0 0, rt_netmask = Ipv4 255 0 0 0,
         rt_gateway = Ipv4 10 0 0 9, rt_device = Some 0, rt_metric = 1\<rparr>, rs_used = True\<rparr>],
       net_ipv4_handlers = [], net_ipv4_pending = [], net_ipv4_identification = 0,
       net_icmp_reply_handler = False, echo_replies = [], wire = [], driver = (\<lambda>_. NET_OK)\<rparr>)"


end
