(* ===== verification/Net_Input.thy ===== *)
theory Net_Input
  imports Net_Ipv4
begin

text \<open>
  The receiving half of the network stack: what ARP learns (\<open>net_arp.c\<close>), ICMP (\<open>net_icmp.c\<close>),
  IPv4 input (\<open>net_ipv4.c\<close>), Ethernet input (\<open>net_ethernet.c\<close>) and the entry point of the drivers
  (\<open>net_device.c\<close>). Reading outside the packet is \<open>None\<close>. The protocol handlers other than ICMP's
  belong to other parts of the kernel and are the parameter \<open>other\<close>.
\<close>

unbundle bit_operations_syntax

abbreviation (input) NET_ICMP_ECHO_REPLY :: u8 where "NET_ICMP_ECHO_REPLY \<equiv> 0"
abbreviation (input) NET_ICMP_ECHO_REQUEST :: u8 where "NET_ICMP_ECHO_REQUEST \<equiv> 8"
abbreviation (input) NET_ICMP_ECHO_HEADER_LEN :: nat where "NET_ICMP_ECHO_HEADER_LEN \<equiv> 8"
abbreviation (input) NET_ICMP_MAX_PACKET_LEN :: nat where "NET_ICMP_MAX_PACKET_LEN \<equiv> 1480"

type_synonym net_handlers =
  "nat \<Rightarrow> dref \<Rightarrow> net_ipv4_addr \<Rightarrow> net_ipv4_addr \<Rightarrow> u8 list \<Rightarrow> net_state \<Rightarrow> (net_status \<times> net_state) option"

definition load_mac :: "u8 list \<Rightarrow> nat \<Rightarrow> net_mac_addr option" where
  "load_mac p i = do {
     a \<leftarrow> load_at p i; b \<leftarrow> load_at p (i + 1); c \<leftarrow> load_at p (i + 2);
     d \<leftarrow> load_at p (i + 3); e \<leftarrow> load_at p (i + 4); f \<leftarrow> load_at p (i + 5);
     Some (Mac a b c d e f) }"

definition load_ipv4 :: "u8 list \<Rightarrow> nat \<Rightarrow> net_ipv4_addr option" where
  "load_ipv4 p i = do {
     a \<leftarrow> load_at p i; b \<leftarrow> load_at p (i + 1); c \<leftarrow> load_at p (i + 2); d \<leftarrow> load_at p (i + 3);
     Some (Ipv4 a b c d) }"

section \<open>ARP\<close>

definition cache_protocol_address ::
  "dref \<Rightarrow> net_ipv4_addr \<Rightarrow> net_mac_addr \<Rightarrow> net_state \<Rightarrow> net_state option" where
  "cache_protocol_address d protocol hardware s =
     (if \<not> net_ipv4_addr_is_unicast protocol \<or> net_mac_addr_is_zero hardware
         \<or> net_mac_addr_is_multicast hardware then Some s
      else
        let i = (case find_entry d protocol s of None \<Rightarrow> allocate_entry s | Some i \<Rightarrow> i) in
        net_ipv4_notify_arp_resolved d protocol
          (upd_entry i (\<lambda>_. \<lparr>ae_state = NET_ARP_ENTRY_VALID, ae_device = Some d, ae_protocol = protocol,
             ae_hardware = hardware, ae_age = 0, ae_last_request_age = 0\<rparr>) s))"

definition net_arp_input ::
  "dref \<Rightarrow> net_mac_addr \<Rightarrow> u8 list \<Rightarrow> net_state \<Rightarrow> (net_status \<times> net_state) option" where
  "net_arp_input d ethernet_source packet s =
     (let v = devs s d in
      if length packet < NET_ARP_PACKET_LEN \<or> \<not> dev_registered v \<or> \<not> cfg_configured (dev_ipv4 v)
      then Some (NET_ERR_INVALID, s)
      else do {
        hardware_type \<leftarrow> net_read_be16 packet 0;
        protocol_type \<leftarrow> net_read_be16 packet 2;
        hardware_length \<leftarrow> load_at packet 4;
        protocol_length \<leftarrow> load_at packet 5;
        operation \<leftarrow> net_read_be16 packet 6;
        sender_hardware \<leftarrow> load_mac packet 8;
        sender_protocol \<leftarrow> load_ipv4 packet 14;
        target_hardware \<leftarrow> load_mac packet 18;
        target_protocol \<leftarrow> load_ipv4 packet 24;
        if hardware_type \<noteq> NET_ARP_HARDWARE_ETHERNET \<or> protocol_type \<noteq> NET_ETHERTYPE_IPV4
           \<or> hardware_length \<noteq> 6 \<or> protocol_length \<noteq> 4
        then Some (NET_ERR_NOT_SUPPORTED, s)
        else if operation \<noteq> NET_ARP_OPERATION_REQUEST \<and> operation \<noteq> NET_ARP_OPERATION_REPLY
        then Some (NET_ERR_NOT_SUPPORTED, s)
        else if \<not> net_mac_addr_equal sender_hardware ethernet_source
           \<or> net_mac_addr_is_zero sender_hardware \<or> net_mac_addr_is_multicast sender_hardware
           \<or> (\<not> net_ipv4_addr_is_zero sender_protocol \<and> \<not> net_ipv4_addr_is_unicast sender_protocol)
           \<or> net_ipv4_addr_equal sender_protocol (cfg_address (dev_ipv4 v))
           \<or> \<not> net_ipv4_addr_equal target_protocol (cfg_address (dev_ipv4 v))
        then Some (NET_ERR_INVALID, s)
        else if operation = NET_ARP_OPERATION_REPLY then
          if \<not> net_mac_addr_equal target_hardware (dev_mac v) \<or> net_ipv4_addr_is_zero sender_protocol
             \<or> find_entry d sender_protocol s = None
          then Some (NET_ERR_INVALID, s)
          else do {
            s \<leftarrow> cache_protocol_address d sender_protocol sender_hardware s;
            Some (NET_OK, s)
          }
        else do {
          s \<leftarrow> (if \<not> net_ipv4_addr_is_zero sender_protocol
                then cache_protocol_address d sender_protocol sender_hardware s else Some s);
          net_ethernet_send d sender_hardware NET_ETHERTYPE_ARP
            (arp_packet NET_ARP_OPERATION_REPLY (dev_mac (devs s d)) (cfg_address (dev_ipv4 (devs s d)))
               sender_hardware sender_protocol) s
        }
      })"

section \<open>ICMP\<close>

definition net_icmp_init :: "net_state \<Rightarrow> net_status \<times> net_state" where
  "net_icmp_init s =
     (let (unregister_result, s) = net_ipv4_unregister_protocol NET_IPV4_PROTOCOL_ICMP s in
      if unregister_result \<noteq> NET_OK \<and> unregister_result \<noteq> NET_ERR_NOT_FOUND then (unregister_result, s)
      else net_ipv4_register_protocol NET_IPV4_PROTOCOL_ICMP Net_Icmp_Input
             (s\<lparr>net_icmp_reply_handler := False\<rparr>))"

definition net_icmp_set_echo_reply_handler :: "bool \<Rightarrow> net_state \<Rightarrow> net_state" where
  "net_icmp_set_echo_reply_handler present s = s\<lparr>net_icmp_reply_handler := present\<rparr>"

definition icmp_echo :: "u8 \<Rightarrow> u16 \<Rightarrow> u16 \<Rightarrow> u8 list \<Rightarrow> u8 list" where
  "icmp_echo type identifier sequence payload =
     [type, 0] @ be16 0 @ be16 identifier @ be16 sequence @ payload"

definition net_icmp_send_echo_request ::
  "net_ipv4_addr \<Rightarrow> net_ipv4_addr \<Rightarrow> u16 \<Rightarrow> u16 \<Rightarrow> u8 list \<Rightarrow> net_state \<Rightarrow> (net_status \<times> net_state) option" where
  "net_icmp_send_echo_request source destination identifier sequence payload s =
     (if net_ipv4_addr_is_zero destination \<or> net_ipv4_addr_is_multicast destination
         \<or> net_ipv4_addr_is_limited_broadcast destination
      then Some (NET_ERR_INVALID, s)
      else if length payload > NET_ICMP_MAX_PACKET_LEN - NET_ICMP_ECHO_HEADER_LEN
      then Some (NET_ERR_TOO_LARGE, s)
      else do {
        let packet = icmp_echo NET_ICMP_ECHO_REQUEST identifier sequence payload;
        packet \<leftarrow> net_write_be16 packet 2 (net_checksum_compute packet);
        net_ipv4_send source destination NET_IPV4_PROTOCOL_ICMP packet s
      })"

definition net_icmp_input ::
  "dref \<Rightarrow> net_ipv4_addr \<Rightarrow> net_ipv4_addr \<Rightarrow> u8 list \<Rightarrow> net_state \<Rightarrow> (net_status \<times> net_state) option" where
  "net_icmp_input d source destination packet s =
     (if length packet < 4 \<or> length packet > NET_ICMP_MAX_PACKET_LEN \<or> \<not> net_checksum_is_valid packet
      then Some (NET_ERR_INVALID, s)
      else do {
        type \<leftarrow> load_at packet 0;
        code \<leftarrow> load_at packet 1;
        if type \<noteq> NET_ICMP_ECHO_REQUEST \<and> type \<noteq> NET_ICMP_ECHO_REPLY then Some (NET_OK, s)
        else if code \<noteq> 0 \<or> length packet < NET_ICMP_ECHO_HEADER_LEN then Some (NET_ERR_INVALID, s)
        else do {
          identifier \<leftarrow> net_read_be16 packet 4;
          sequence \<leftarrow> net_read_be16 packet 6;
          let ipv4 = dev_ipv4 (devs s d);
          if \<not> cfg_configured ipv4 \<or> \<not> net_ipv4_addr_equal destination (cfg_address ipv4)
          then Some (NET_OK, s)
          else if type = NET_ICMP_ECHO_REPLY then
            Some (NET_OK,
              if net_icmp_reply_handler s
              then s\<lparr>echo_replies := echo_replies s @ [\<lparr>er_device = d, er_source = source,
                       er_identifier = identifier, er_sequence = sequence,
                       er_payload = drop NET_ICMP_ECHO_HEADER_LEN packet\<rparr>]\<rparr>
              else s)
          else do {
            reply \<leftarrow> store_at packet 0 NET_ICMP_ECHO_REPLY;
            reply \<leftarrow> net_write_be16 reply 2 0;
            reply \<leftarrow> net_write_be16 reply 2 (net_checksum_compute reply);
            net_ipv4_send_on d destination source NET_IPV4_PROTOCOL_ICMP reply s
          }
        }
      })"

section \<open>IPv4, Ethernet and device input\<close>

definition call_handler :: "net_handlers \<Rightarrow> net_ipv4_protocol_fn \<Rightarrow> dref \<Rightarrow> net_ipv4_addr \<Rightarrow> net_ipv4_addr
    \<Rightarrow> u8 list \<Rightarrow> net_state \<Rightarrow> (net_status \<times> net_state) option" where
  "call_handler other h = (case h of Net_Icmp_Input \<Rightarrow> net_icmp_input | Other_Handler n \<Rightarrow> other n)"

definition net_ipv4_input ::
  "net_handlers \<Rightarrow> dref \<Rightarrow> net_mac_addr \<Rightarrow> u8 list \<Rightarrow> net_state \<Rightarrow> (net_status \<times> net_state) option" where
  "net_ipv4_input other d ethernet_source packet s =
     (let v = devs s d in
      if \<not> dev_registered v \<or> length packet < NET_IPV4_MIN_HEADER_LEN \<or> length packet > dev_mtu v
         \<or> net_mac_addr_is_zero ethernet_source \<or> net_mac_addr_is_multicast ethernet_source
      then Some (NET_ERR_INVALID, s)
      else do {
        version_ihl \<leftarrow> load_at packet 0;
        if drop_bit 4 version_ihl \<noteq> 4 \<or> version_ihl AND 0x0f < 5 then Some (NET_ERR_INVALID, s)
        else
          let header_length = unat (version_ihl AND 0x0f) * 4 in
          if header_length > length packet then Some (NET_ERR_INVALID, s)
          else if header_length \<noteq> NET_IPV4_MIN_HEADER_LEN then Some (NET_ERR_NOT_SUPPORTED, s)
          else do {
            total \<leftarrow> net_read_be16 packet 2;
            let total_length = unat total;
            time_to_live \<leftarrow> load_at packet 8;
            protocol \<leftarrow> load_at packet 9;
            if total_length < header_length \<or> total_length > length packet \<or> time_to_live = 0
               \<or> protocol = 0 \<or> \<not> net_checksum_is_valid (take header_length packet)
            then Some (NET_ERR_INVALID, s)
            else do {
              fragment \<leftarrow> net_read_be16 packet 6;
              if fragment AND 0xbfff \<noteq> 0 then Some (NET_ERR_NOT_SUPPORTED, s)
              else do {
                source \<leftarrow> load_ipv4 packet 12;
                destination \<leftarrow> load_ipv4 packet 16;
                if \<not> net_ipv4_addr_is_unicast source then Some (NET_ERR_INVALID, s)
                else if cfg_configured (dev_ipv4 v)
                   \<and> \<not> net_ipv4_addr_equal destination (cfg_address (dev_ipv4 v))
                   \<and> \<not> net_ipv4_addr_is_limited_broadcast destination
                   \<and> \<not> address_is_directed_broadcast v destination
                then Some (NET_ERR_NOT_FOUND, s)
                else if \<not> cfg_configured (dev_ipv4 v) \<and> \<not> net_ipv4_addr_is_limited_broadcast destination
                then Some (NET_ERR_NOT_FOUND, s)
                else case find_index (\<lambda>h. hs_used h \<and> hs_protocol h = protocol) (net_ipv4_handlers s) of
                  None \<Rightarrow> Some (NET_ERR_NOT_SUPPORTED, s)
                | Some i \<Rightarrow>
                    call_handler other (hs_handler (net_ipv4_handlers s ! i)) d source destination
                      (take (total_length - header_length) (drop header_length packet)) s
              }
            }
          }
      })"

definition net_ethernet_input ::
  "net_handlers \<Rightarrow> dref \<Rightarrow> u8 list \<Rightarrow> net_state \<Rightarrow> (net_status \<times> net_state) option" where
  "net_ethernet_input other d frame s =
     (let v = devs s d in
      if length frame < NET_ETHERNET_HEADER_LEN \<or> length frame > NET_ETHERNET_HEADER_LEN + dev_mtu v
      then Some (NET_ERR_INVALID, s)
      else do {
        destination \<leftarrow> load_mac frame 0;
        source \<leftarrow> load_mac frame 6;
        if net_mac_addr_is_zero source \<or> net_mac_addr_is_multicast source then Some (NET_ERR_INVALID, s)
        else if \<not> net_mac_addr_equal destination (dev_mac v)
           \<and> \<not> net_mac_addr_is_broadcast destination \<and> \<not> net_mac_addr_is_multicast destination
        then Some (NET_ERR_NOT_FOUND, s)
        else do {
          ethertype \<leftarrow> net_read_be16 frame 12;
          if ethertype = NET_ETHERTYPE_ARP
          then net_arp_input d source (drop NET_ETHERNET_HEADER_LEN frame) s
          else if ethertype = NET_ETHERTYPE_IPV4
          then net_ipv4_input other d source (drop NET_ETHERNET_HEADER_LEN frame) s
          else Some (NET_ERR_NOT_SUPPORTED, s)
        }
      })"

definition net_device_receive ::
  "net_handlers \<Rightarrow> dref \<Rightarrow> u8 list \<Rightarrow> net_state \<Rightarrow> (net_status \<times> net_state) option" where
  "net_device_receive other d frame s =
     (if \<not> dev_registered (devs s d) then Some (NET_ERR_NO_DEVICE, s)
      else if length frame < NET_ETHERNET_HEADER_LEN
           \<or> length frame > NET_ETHERNET_HEADER_LEN + dev_mtu (devs s d)
      then Some (NET_ERR_INVALID, upd_stats d (\<lambda>t. t\<lparr>rx_errors := rx_errors t + 1\<rparr>) s)
      else do {
        (result, s) \<leftarrow> net_ethernet_input other d frame s;
        Some (if result \<noteq> NET_OK
              then (result, upd_stats d (\<lambda>t. t\<lparr>rx_dropped := rx_dropped t + 1\<rparr>) s)
              else (NET_OK, upd_stats d (\<lambda>t. t\<lparr>rx_packets := rx_packets t + 1,
                      rx_bytes := rx_bytes t + of_nat (length frame)\<rparr>) s))
      })"

end
