(* ===== verification/Net_Inv.thy ===== *)
theory Net_Inv
  imports Net_Input
begin

text \<open>
  The invariant of the network stack and that every operation keeps it without an access outside a
  buffer: the registry and the devices agree, the ARP cache has at most one entry per device and
  address, every datagram that waits fits a packet buffer, and every frame handed to a driver has
  the length of an Ethernet frame.
\<close>

section \<open>Invariant\<close>

definition dev_ok :: "net_device \<Rightarrow> bool" where
  "dev_ok v \<longleftrightarrow> dev_registered v \<longrightarrow>
     576 \<le> dev_mtu v \<and> dev_mtu v \<le> 1500 \<and> dev_transmit v \<and>
     \<not> net_mac_addr_is_zero (dev_mac v) \<and> \<not> net_mac_addr_is_multicast (dev_mac v)"

definition entry_ok :: "net_arp_entry \<Rightarrow> bool" where
  "entry_ok e \<longleftrightarrow> ae_state e \<noteq> NET_ARP_ENTRY_EMPTY \<longrightarrow>
     ae_device e \<noteq> None \<and> net_ipv4_addr_is_unicast (ae_protocol e) \<and>
     (ae_state e = NET_ARP_ENTRY_VALID \<longrightarrow>
        \<not> net_mac_addr_is_zero (ae_hardware e) \<and> \<not> net_mac_addr_is_multicast (ae_hardware e))"

definition same_key :: "net_arp_entry \<Rightarrow> net_arp_entry \<Rightarrow> bool" where
  "same_key e f \<longleftrightarrow> ae_state e \<noteq> NET_ARP_ENTRY_EMPTY \<and> ae_state f \<noteq> NET_ARP_ENTRY_EMPTY \<and>
     ae_device e = ae_device f \<and> ae_protocol e = ae_protocol f"

definition cache_ok :: "net_arp_entry list \<Rightarrow> bool" where
  "cache_ok c \<longleftrightarrow> length c = 16 \<and> (\<forall>i < 16. entry_ok (c ! i)) \<and>
     (\<forall>i < 16. \<forall>j < 16. same_key (c ! i) (c ! j) \<longrightarrow> i = j)"

definition pending_ok :: "net_ipv4_pending_packet \<Rightarrow> bool" where
  "pending_ok p \<longleftrightarrow> pp_used p \<longrightarrow> pp_device p \<noteq> None \<and> length (pp_packet p) \<le> 1500"

definition frame_ok :: "dref \<times> u8 list \<Rightarrow> bool" where
  "frame_ok f \<longleftrightarrow> 60 \<le> length (snd f) \<and> length (snd f) \<le> 1514"

definition registry_ok :: "net_state \<Rightarrow> bool" where
  "registry_ok s \<longleftrightarrow> distinct (net_devices s) \<and> length (net_devices s) \<le> 4 \<and>
     (\<forall>d. d \<in> set (net_devices s) \<longleftrightarrow> dev_registered (devs s d)) \<and>
     (case net_default_device s of None \<Rightarrow> net_devices s = [] | Some d \<Rightarrow> d \<in> set (net_devices s))"

definition net_ok :: "net_state \<Rightarrow> bool" where
  "net_ok s \<longleftrightarrow> registry_ok s \<and> (\<forall>d. dev_ok (devs s d)) \<and> cache_ok (net_arp_cache s) \<and>
     length (net_ipv4_routes s) = 8 \<and> length (net_ipv4_handlers s) = 8 \<and>
     length (net_ipv4_pending s) = 4 \<and> (\<forall>i < 4. pending_ok (net_ipv4_pending s ! i)) \<and>
     (\<forall>f \<in> set (wire s). frame_ok f)"

lemma net_okD:
  assumes "net_ok s"
  shows "registry_ok s" "dev_ok (devs s d)" "cache_ok (net_arp_cache s)"
    "length (net_ipv4_routes s) = 8" "length (net_ipv4_handlers s) = 8"
    "length (net_ipv4_pending s) = 4" "i < 4 \<Longrightarrow> pending_ok (net_ipv4_pending s ! i)"
    "f \<in> set (wire s) \<Longrightarrow> frame_ok f"
  using assms by (simp_all add: net_ok_def)

text \<open>A computation that does not fault and whose result satisfies \<open>P\<close>.\<close>

definition safe :: "'a option \<Rightarrow> ('a \<Rightarrow> bool) \<Rightarrow> bool" where
  "safe m P \<longleftrightarrow> (\<exists>x. m = Some x \<and> P x)"

lemma safe_Some [simp]: "safe (Some x) P = P x"
  by (simp add: safe_def)

lemma safe_bind: "safe m Q \<Longrightarrow> (\<And>x. Q x \<Longrightarrow> safe (f x) P) \<Longrightarrow> safe (Option.bind m f) P"
  by (auto simp: safe_def)

lemma safe_mono: "safe m Q \<Longrightarrow> (\<And>x. Q x \<Longrightarrow> P x) \<Longrightarrow> safe m P"
  by (auto simp: safe_def)

lemma safe_if: "(b \<Longrightarrow> safe m P) \<Longrightarrow> (\<not> b \<Longrightarrow> safe n P) \<Longrightarrow> safe (if b then m else n) P"
  by simp

lemma safe_foldM:
  assumes "P s" "\<And>i t. i \<in> set is \<Longrightarrow> P t \<Longrightarrow> safe (f i t) P"
  shows "safe (foldM f is s) P"
  using assms
proof (induction "is" arbitrary: s)
  case (Cons i "is")
  have "safe (f i s) P" using Cons.prems by simp
  then obtain t where "f i s = Some t" "P t" by (auto simp: safe_def)
  then show ?case using Cons by simp
qed simp

section \<open>Sending a frame\<close>

text \<open>Devices that agree in everything but their statistics.\<close>

definition dev_alike :: "net_device \<Rightarrow> net_device \<Rightarrow> bool" where
  "dev_alike v w \<longleftrightarrow> v\<lparr>dev_stats := no_stats\<rparr> = w\<lparr>dev_stats := no_stats\<rparr>"

lemma dev_alikeD:
  assumes "dev_alike v w"
  shows "dev_registered v = dev_registered w" "dev_mtu v = dev_mtu w" "dev_mac v = dev_mac w"
    "dev_ipv4 v = dev_ipv4 w" "dev_transmit v = dev_transmit w" "dev_name v = dev_name w"
  using assms by (cases v; cases w; simp add: dev_alike_def)+

text \<open>
  \<open>sends s ws t\<close>: from \<open>s\<close> to \<open>t\<close> the frames \<open>ws\<close> were handed to drivers, all of a legal length, and
  only statistics changed besides.
\<close>

definition sends :: "net_state \<Rightarrow> (dref \<times> u8 list) list \<Rightarrow> net_state \<Rightarrow> bool" where
  "sends s ws t \<longleftrightarrow> (\<exists>f. t = s\<lparr>wire := wire s @ ws, devs := f\<rparr> \<and> (\<forall>d. dev_alike (f d) (devs s d))) \<and>
     (\<forall>w \<in> set ws. frame_ok w)"

lemma sends_refl [simp]: "sends s [] s"
  by (auto simp: sends_def dev_alike_def intro!: exI [of _ "devs s"])

lemma sends_trans: "sends s ws t \<Longrightarrow> sends t vs u \<Longrightarrow> sends s (ws @ vs) u"
  by (auto simp: sends_def dev_alike_def)

lemma sendsD:
  assumes "sends s ws t"
  shows "dev_alike (devs t d) (devs s d)" "net_devices t = net_devices s"
    "net_default_device t = net_default_device s" "net_arp_cache t = net_arp_cache s"
    "net_ipv4_routes t = net_ipv4_routes s" "net_ipv4_handlers t = net_ipv4_handlers s"
    "net_ipv4_pending t = net_ipv4_pending s" "wire t = wire s @ ws"
    "\<forall>w \<in> set ws. frame_ok w" "driver t = driver s" "net_ipv4_identification t = net_ipv4_identification s"
    "echo_replies t = echo_replies s" "net_icmp_reply_handler t = net_icmp_reply_handler s"
  using assms by (auto simp: sends_def)

lemma net_ok_sends:
  assumes "net_ok s" "sends s ws t"
  shows "net_ok t"
proof -
  note alike = dev_alikeD [OF sendsD(1) [OF assms(2)]]
  have "dev_ok (devs t d) = dev_ok (devs s d)" for d by (simp add: dev_ok_def alike)
  moreover have "registry_ok t = registry_ok s"
    unfolding registry_ok_def alike sendsD(2,3) [OF assms(2)] by (rule refl)
  ultimately show ?thesis using assms(1) by (auto simp: net_ok_def sendsD [OF assms(2)])
qed

lemma length_ethernet_frame [simp]:
  "length (ethernet_frame dst src ethertype payload) = max 60 (14 + length payload)"
  by (simp add: ethernet_frame_def)

lemma net_ethernet_send_ok:
  assumes "net_ok s"
  shows "\<exists>r t ws. net_ethernet_send d dst ethertype payload s = Some (r, t) \<and> sends s ws t"
proof -
  consider (refused) "\<not> dev_registered (devs s d) \<or> net_mac_addr_is_zero dst \<or> ethertype < 0x0600
      \<or> length payload > dev_mtu (devs s d)"
    | (sent) "dev_registered (devs s d)" "\<not> net_mac_addr_is_zero dst" "\<not> ethertype < 0x0600"
      "length payload \<le> dev_mtu (devs s d)" by linarith
  then show ?thesis
  proof cases
    case refused
    then have "\<exists>r. net_ethernet_send d dst ethertype payload s = Some (r, s)"
      by (auto simp: net_ethernet_send_def)
    then show ?thesis using sends_refl by blast
  next
    case sent
    have dev: "dev_mtu (devs s d) \<le> 1500" "576 \<le> dev_mtu (devs s d)" "dev_transmit (devs s d)"
      using net_okD(2) [OF assms, of d] sent(1) by (simp_all add: dev_ok_def)
    let ?frame = "ethernet_frame dst (dev_mac (devs s d)) ethertype payload"
    have "frame_ok (d, ?frame)" using sent dev by (simp add: frame_ok_def)
    then have "sends s [(d, ?frame)] (upd_stats d f (s\<lparr>wire := wire s @ [(d, ?frame)]\<rparr>))" for f
      by (auto simp: sends_def upd_stats_def upd_dev_def dev_alike_def intro!: exI)
    then show ?thesis
      using sent dev by (auto simp: net_ethernet_send_def net_device_transmit_def Let_def)
  qed
qed

lemma net_ethernet_send_safe:
  "net_ok s \<Longrightarrow> safe (net_ethernet_send d dst ethertype payload s) (\<lambda>(r, t). net_ok t \<and> (\<exists>ws. sends s ws t))"
  using net_ethernet_send_ok [of s d dst ethertype payload] net_ok_sends by (auto simp: safe_def)

section \<open>The ARP cache\<close>

lemma allocate_from_less:
  "oldest < i + length es \<or> oldest < n \<Longrightarrow> i + length es \<le> n \<Longrightarrow> allocate_from es i oldest age < n"
proof (induction es arbitrary: i oldest age)
  case (Cons e es)
  show ?case
    using Cons.IH [of i "Suc i"] Cons.IH [of oldest "Suc i"] Cons.prems by auto
qed auto

lemma allocate_entry_less: "length (net_arp_cache s) = 16 \<Longrightarrow> allocate_entry s < 16"
  unfolding allocate_entry_def by (rule allocate_from_less) auto

lemma find_entry_Some:
  "find_entry d a s = Some i \<Longrightarrow> i < length (net_arp_cache s) \<and> entry_matches d a (net_arp_cache s ! i)"
  using find_index_Some unfolding find_entry_def by fast

lemma find_entry_None:
  "find_entry d a s = None \<Longrightarrow> i < length (net_arp_cache s) \<Longrightarrow> \<not> entry_matches d a (net_arp_cache s ! i)"
  by (simp add: find_entry_def find_index_None)

text \<open>The slot that resolving or learning \<open>(d, a)\<close> uses: no other slot holds that pair.\<close>

definition slot_for :: "dref \<Rightarrow> net_ipv4_addr \<Rightarrow> net_state \<Rightarrow> nat" where
  "slot_for d a s = (case find_entry d a s of None \<Rightarrow> allocate_entry s | Some i \<Rightarrow> i)"

lemma slot_for_ok:
  assumes "cache_ok (net_arp_cache s)"
  shows "slot_for d a s < 16"
    and "j < 16 \<Longrightarrow> entry_matches d a (net_arp_cache s ! j) \<Longrightarrow> j = slot_for d a s"
proof -
  have len: "length (net_arp_cache s) = 16" using assms by (simp add: cache_ok_def)
  show "slot_for d a s < 16"
    using find_entry_Some [of d a s] allocate_entry_less [OF len] len
    by (auto simp: slot_for_def split: option.splits)
  assume j: "j < 16" "entry_matches d a (net_arp_cache s ! j)"
  then obtain i where i: "find_entry d a s = Some i"
    using find_entry_None [of d a s j] len by (cases "find_entry d a s") auto
  then have "i < 16" "same_key (net_arp_cache s ! j) (net_arp_cache s ! i)"
    using find_entry_Some [OF i] len j by (auto simp: entry_matches_def same_key_def)
  then show "j = slot_for d a s" using assms j i by (simp add: cache_ok_def slot_for_def)
qed

lemma same_key_sym: "same_key e f = same_key f e"
  by (auto simp: same_key_def)

lemma cache_ok_update:
  assumes "cache_ok c" "entry_ok e"
    and "\<And>j. j < 16 \<Longrightarrow> j \<noteq> i \<Longrightarrow> \<not> same_key e (c ! j)"
  shows "cache_ok (c[i := e])"
proof (cases "i < 16")
  case True
  have nth: "c[i := e] ! k = (if k = i then e else c ! k)" if "k < 16" for k
    using that True assms(1) by (auto simp: cache_ok_def nth_list_update)
  show ?thesis
    unfolding cache_ok_def
  proof (intro conjI allI impI)
    fix k l :: nat
    assume kl: "k < 16" "l < 16" "same_key (c[i := e] ! k) (c[i := e] ! l)"
    show "k = l"
    proof (cases "k = i \<or> l = i")
      case True
      then show ?thesis using kl assms(3) [of k] assms(3) [of l] same_key_sym [of "c ! k" e]
        by (auto simp: nth split: if_splits)
    next
      case False
      then show ?thesis using kl assms(1) by (simp add: nth cache_ok_def)
    qed
  qed (use assms in \<open>auto simp: cache_ok_def nth\<close>)
next
  case False
  then show ?thesis using assms(1) by (simp add: cache_ok_def)
qed

lemma cache_ok_refresh:
  assumes "cache_ok c" "i < 16" "entry_ok e"
    and "ae_state e = NET_ARP_ENTRY_EMPTY \<or> (ae_state (c ! i) \<noteq> NET_ARP_ENTRY_EMPTY \<and> ae_device e = ae_device (c ! i)
      \<and> ae_protocol e = ae_protocol (c ! i))"
  shows "cache_ok (c[i := e])"
proof (rule cache_ok_update)
  fix j
  assume j: "j < 16" "j \<noteq> i"
  then have "\<not> same_key (c ! i) (c ! j)" using assms(1,2) by (auto simp: cache_ok_def)
  then show "\<not> same_key e (c ! j)" using assms(4) by (auto simp: same_key_def)
qed (use assms in auto)

lemma registry_ok_simps [simp]:
  "registry_ok (s\<lparr>net_arp_cache := c\<rparr>) = registry_ok s"
  "registry_ok (s\<lparr>net_ipv4_routes := rs\<rparr>) = registry_ok s"
  "registry_ok (s\<lparr>net_ipv4_handlers := hs\<rparr>) = registry_ok s"
  "registry_ok (s\<lparr>net_ipv4_pending := ps\<rparr>) = registry_ok s"
  "registry_ok (s\<lparr>net_ipv4_identification := n\<rparr>) = registry_ok s"
  "registry_ok (s\<lparr>net_icmp_reply_handler := b\<rparr>) = registry_ok s"
  "registry_ok (s\<lparr>echo_replies := es\<rparr>) = registry_ok s"
  unfolding registry_ok_def by (simp_all cong: option.case_cong)

lemma net_ok_cache:
  "net_ok s \<Longrightarrow> cache_ok c \<Longrightarrow> net_ok (s\<lparr>net_arp_cache := c\<rparr>)"
  by (simp add: net_ok_def)

lemma learn_ok:
  assumes "net_ok s" "entry_ok e" "ae_device e = Some d" "ae_protocol e = a"
  shows "net_ok (upd_entry (slot_for d a s) (\<lambda>_. e) s)"
  unfolding upd_entry_def
proof (intro net_ok_cache cache_ok_update)
  fix j
  assume "j < 16" "j \<noteq> slot_for d a s"
  then show "\<not> same_key e (net_arp_cache s ! j)"
    using slot_for_ok(2) [OF net_okD(3) [OF assms(1)], of j d a] assms(3,4)
    by (auto simp: entry_matches_def same_key_def)
qed (use assms net_okD(3) in auto)

section \<open>Lookup, requests and resolution\<close>

lemma net_arp_lookup_usable:
  assumes "net_ok s" "net_arp_lookup d a s = Some m"
  shows "dev_registered (devs s d)" "\<not> net_mac_addr_is_zero m"
proof -
  show reg: "dev_registered (devs s d)"
    using assms(2) by (auto simp: net_arp_lookup_def Let_def split: if_splits)
  have "entry_ok (net_arp_cache s ! i)" if "find_entry d a s = Some i" for i
    using find_entry_Some [OF that] net_okD(3) [OF assms(1)] by (simp add: cache_ok_def)
  moreover have "\<not> net_mac_addr_is_zero (ipv4_multicast_mac a)"
    by (cases a) (simp add: net_mac_addr_is_zero_def)
  moreover have "\<not> net_mac_addr_is_zero (dev_mac (devs s d))"
    using net_okD(2) [OF assms(1), of d] reg by (simp add: dev_ok_def)
  ultimately show "\<not> net_mac_addr_is_zero m"
    using assms(2)
    by (auto simp: net_arp_lookup_def Let_def entry_ok_def net_mac_addr_is_zero_def split: if_splits option.splits)
qed

lemma net_arp_request_safe:
  assumes "net_ok s"
  shows "safe (net_arp_request d a s) (\<lambda>(r, t). net_ok t \<and> (\<exists>ws. sends s ws t) \<and>
     (r = NET_OK \<or> r = NET_ERR_AGAIN \<longrightarrow> net_ipv4_addr_is_unicast a))"
proof (cases "net_ipv4_addr_is_unicast a")
  case True
  have "safe (Some (NET_ERR_INVALID, s)) (\<lambda>(r, t). net_ok t \<and> (\<exists>ws. sends s ws t))"
    using assms by (auto intro!: exI [of _ "[]"])
  then have "safe (net_arp_request d a s) (\<lambda>(r, t). net_ok t \<and> (\<exists>ws. sends s ws t))"
    unfolding net_arp_request_def Let_def using net_ethernet_send_safe [OF assms] by (intro safe_if)
  then show ?thesis using True by (auto simp: safe_def)
next
  case False
  then show ?thesis using assms by (auto simp: net_arp_request_def intro!: exI [of _ "[]"])
qed

text \<open>Operations that keep the invariant, whatever their result.\<close>

abbreviation (input) keeps :: "('a \<times> net_state) option \<Rightarrow> bool" where
  "keeps m \<equiv> safe m (\<lambda>(r, t). net_ok t)"

lemma forget_ok:
  assumes "net_ok s" "i < 16" "ae_state (f (net_arp_cache s ! i)) = NET_ARP_ENTRY_EMPTY"
  shows "net_ok (upd_entry i f s)"
  unfolding upd_entry_def using assms net_okD(3) [OF assms(1)]
  by (intro net_ok_cache cache_ok_refresh) (auto simp: entry_ok_def)

lemma refresh_ok:
  assumes "net_ok s" "i < 16" "ae_state (net_arp_cache s ! i) \<noteq> NET_ARP_ENTRY_EMPTY"
    and "\<And>e. ae_state (f e) = ae_state e" "\<And>e. ae_device (f e) = ae_device e"
      "\<And>e. ae_protocol (f e) = ae_protocol e" "\<And>e. ae_hardware (f e) = ae_hardware e"
  shows "net_ok (upd_entry i f s)"
  unfolding upd_entry_def using assms net_okD(3) [OF assms(1)]
  by (intro net_ok_cache cache_ok_refresh) (auto simp: entry_ok_def cache_ok_def)

lemma net_arp_resolve_safe:
  assumes ok: "net_ok s"
  shows "safe (net_arp_resolve d a s) (\<lambda>(r, m, t). net_ok t \<and> (r = NET_OK \<longleftrightarrow> m \<noteq> None))"
proof -
  define i where "i = slot_for d a s"
  define pend where "pend = (\<lambda>e :: net_arp_entry. e\<lparr>ae_state := NET_ARP_ENTRY_PENDING, ae_device := Some d,
    ae_protocol := a, ae_age := 0, ae_last_request_age := 0\<rparr>)"
  have i: "i < 16" using slot_for_ok(1) [OF net_okD(3) [OF ok]] by (simp add: i_def)
  let ?finish = "\<lambda>(r, t). if r \<noteq> NET_OK then
      if r = NET_ERR_AGAIN then Some (NET_ERR_AGAIN, None, t)
      else Some (r, None, upd_entry i (\<lambda>e. e\<lparr>ae_state := NET_ARP_ENTRY_EMPTY, ae_device := None\<rparr>) t)
    else Some (NET_ERR_AGAIN, None, t)"
  have "safe (Option.bind (net_arp_request d a (upd_entry i pend s)) ?finish)
      (\<lambda>(r, m, t). net_ok t \<and> (r = NET_OK \<longleftrightarrow> (m :: net_mac_addr option) \<noteq> None))"
  proof (cases "net_ipv4_addr_is_unicast a")
    case True
    have "net_ok (upd_entry i (\<lambda>_. pend (net_arp_cache s ! i)) s)"
      unfolding i_def using ok True by (intro learn_ok) (auto simp: pend_def entry_ok_def)
    then have "net_ok (upd_entry i pend s)" by (simp add: upd_entry_def)
    from net_arp_request_safe [OF this] show ?thesis
      by (rule safe_bind) (auto intro!: forget_ok i)
  next
    case False
    have "net_ok (upd_entry i (\<lambda>e. e\<lparr>ae_state := NET_ARP_ENTRY_EMPTY, ae_device := None\<rparr>) (upd_entry i pend s))"
      using forget_ok [OF ok i, of "\<lambda>e. (pend e)\<lparr>ae_state := NET_ARP_ENTRY_EMPTY, ae_device := None\<rparr>"] i
        net_okD(3) [OF ok] by (simp add: upd_entry_def cache_ok_def)
    then show ?thesis using False by (simp add: net_arp_request_def Let_def)
  qed
  then show ?thesis
    using ok unfolding net_arp_resolve_def Let_def i_def slot_for_def pend_def
    by (auto simp: safe_def split: option.splits)
qed

lemma saturating_tick_ok:
  assumes ok: "net_ok s" and i: "i < 16"
  shows "safe (arp_tick_entry n i s) net_ok"
proof (cases "ae_state (net_arp_cache s ! i) = NET_ARP_ENTRY_EMPTY")
  case False
  define t where "t = upd_entry i (\<lambda>e. e\<lparr>ae_age := saturating_add (ae_age e) n\<rparr>) s"
  have len: "length (net_arp_cache s) = 16" using net_okD(3) [OF ok] by (simp add: cache_ok_def)
  have t: "net_ok t" unfolding t_def using ok i False by (intro refresh_ok) auto
  have e: "ae_state (net_arp_cache t ! i) = ae_state (net_arp_cache s ! i)"
    using i len by (simp add: t_def upd_entry_def)
  have retry: "safe (Option.bind (case ae_device (net_arp_cache t ! i) of
        None \<Rightarrow> Some (NET_ERR_INVALID, t) | Some d \<Rightarrow> net_arp_request d (ae_protocol (net_arp_cache t ! i)) t)
      (\<lambda>(r, u). Some (if r = NET_OK \<or> r = NET_ERR_AGAIN
         then upd_entry i (\<lambda>e. e\<lparr>ae_last_request_age := ae_age e\<rparr>) u else u))) net_ok"
  proof (rule safe_bind)
    show "safe (case ae_device (net_arp_cache t ! i) of None \<Rightarrow> Some (NET_ERR_INVALID, t)
        | Some d \<Rightarrow> net_arp_request d (ae_protocol (net_arp_cache t ! i)) t)
        (\<lambda>(r, u). net_ok u \<and> net_arp_cache u = net_arp_cache t)"
      using t by (auto split: option.split intro: safe_mono [OF net_arp_request_safe [OF t]] dest: sendsD(4))
  next
    fix x :: "net_status \<times> net_state"
    assume "case x of (r, u) \<Rightarrow> net_ok u \<and> net_arp_cache u = net_arp_cache t"
    then show "safe (case x of (r, u) \<Rightarrow> Some (if r = NET_OK \<or> r = NET_ERR_AGAIN
         then upd_entry i (\<lambda>e. e\<lparr>ae_last_request_age := ae_age e\<rparr>) u else u)) net_ok"
      using i e False by (auto intro!: refresh_ok)
  qed
  show ?thesis
    using False t retry i e unfolding arp_tick_entry_def Let_def t_def [symmetric]
    by (auto intro!: forget_ok)
qed (use ok in \<open>simp add: arp_tick_entry_def\<close>)

lemma net_arp_tick_safe: "net_ok s \<Longrightarrow> safe (net_arp_tick n s) net_ok"
  unfolding net_arp_tick_def using net_okD(3)
  by (intro safe_foldM) (auto simp: cache_ok_def intro: saturating_tick_ok)

section \<open>Waiting datagrams\<close>

lemma upd_pending_ok:
  assumes "net_ok s" "pending_ok (f (net_ipv4_pending s ! i))"
  shows "net_ok (upd_pending i f s)"
proof -
  have "pending_ok ((net_ipv4_pending s)[i := f (net_ipv4_pending s ! i)] ! j)" if "j < 4" for j
    using assms that by (cases "i = j") (auto simp: net_ok_def)
  then show ?thesis using assms by (simp add: net_ok_def upd_pending_def)
qed

lemma drop_pending_ok: "net_ok s \<Longrightarrow> net_ok (upd_pending i (\<lambda>p. p\<lparr>pp_used := False\<rparr>) s)"
  by (rule upd_pending_ok) (auto simp: pending_ok_def)

lemma queue_pending_packet_safe:
  "net_ok s \<Longrightarrow> length packet \<le> 1500 \<Longrightarrow> keeps (queue_pending_packet d hop packet s)"
  by (auto simp: queue_pending_packet_def pending_ok_def intro!: upd_pending_ok split: option.splits)

lemma send_and_drop_safe:
  "net_ok s \<Longrightarrow> safe (Option.bind (net_ethernet_send d m ethertype packet s)
     (\<lambda>(r, t). Some (upd_pending i (\<lambda>p. p\<lparr>pp_used := False\<rparr>) t))) net_ok"
  by (rule safe_bind [OF net_ethernet_send_safe]) (auto intro: drop_pending_ok)

lemma notify_slot_safe: "net_ok s \<Longrightarrow> safe (notify_slot d a m i s) net_ok"
  unfolding notify_slot_def Let_def by (intro safe_if send_and_drop_safe) simp_all

lemma net_ipv4_notify_arp_resolved_safe: "net_ok s \<Longrightarrow> safe (net_ipv4_notify_arp_resolved d a s) net_ok"
  unfolding net_ipv4_notify_arp_resolved_def
  by (auto split: option.split intro!: safe_foldM notify_slot_safe)

lemma ipv4_tick_slot_safe:
  assumes "net_ok s" "i < 4"
  shows "safe (ipv4_tick_slot n i s) net_ok"
proof -
  have "net_ok (upd_pending i (\<lambda>p. p\<lparr>pp_age := saturating_add (pp_age p) n\<rparr>) s)"
    using net_okD(7) [OF assms] assms by (intro upd_pending_ok) (simp_all add: pending_ok_def)
  then show ?thesis
    unfolding ipv4_tick_slot_def Let_def
    using assms send_and_drop_safe by (auto split: option.split intro: drop_pending_ok)
qed

lemma net_ipv4_tick_safe: "net_ok s \<Longrightarrow> safe (net_ipv4_tick n s) net_ok"
  unfolding net_ipv4_tick_def
  by (rule safe_foldM) (auto simp: net_okD(6) intro: ipv4_tick_slot_safe)

section \<open>Sending datagrams\<close>

lemma length_ipv4_header_zero [simp]: "length (ipv4_header_zero n ident protocol src dst) = 20"
  by (simp add: ipv4_header_zero_def)

lemma net_write_be16_safe:
  "i + 1 < length p \<Longrightarrow> safe (net_write_be16 p i v) (\<lambda>q. length q = length p)"
  by (simp add: net_write_be16_def)

lemma net_ipv4_send_on_safe:
  assumes ok: "net_ok s"
  shows "keeps (net_ipv4_send_on d src dst protocol payload s)"
proof -
  have deliver: "keeps (do {
      header \<leftarrow> net_write_be16 (ipv4_header_zero n ident protocol src' dst) 10 c;
      let packet = header @ payload;
      (result, mac, s) \<leftarrow> net_arp_resolve d hop s;
      (case mac of
         Some destination_mac \<Rightarrow> net_ethernet_send d destination_mac NET_ETHERTYPE_IPV4 packet s
       | None \<Rightarrow> if result = NET_ERR_AGAIN then queue_pending_packet d hop packet s else Some (result, s)) })"
    if "net_ok s" "20 + length payload \<le> 1500" for hop n ident c s src'
  proof (rule safe_bind [OF net_write_be16_safe], simp)
    fix header :: "u8 list"
    assume h: "length header = length (ipv4_header_zero n ident protocol src' dst)"
    show "keeps (let packet = header @ payload in do {
      (result, mac, s) \<leftarrow> net_arp_resolve d hop s;
      (case mac of
         Some destination_mac \<Rightarrow> net_ethernet_send d destination_mac NET_ETHERTYPE_IPV4 packet s
       | None \<Rightarrow> if result = NET_ERR_AGAIN then queue_pending_packet d hop packet s else Some (result, s)) })"
      unfolding Let_def
      by (rule safe_bind [OF net_arp_resolve_safe [OF that(1)]])
        (use that(2) h in \<open>auto split: option.split intro!: queue_pending_packet_safe
           intro: safe_mono [OF net_ethernet_send_safe]\<close>)
  qed
  have ident: "net_ok (s\<lparr>net_ipv4_identification := x\<rparr>)" for x using ok by (simp add: net_ok_def)
  have mtu: "dev_registered (devs s d) \<Longrightarrow> dev_mtu (devs s d) \<le> 1500"
    using net_okD(2) [OF ok, of d] by (simp add: dev_ok_def)
  show ?thesis
    unfolding net_ipv4_send_on_def Let_def
    by (intro safe_if; (simp add: ok)?; auto split: prod.split option.split intro!: deliver [unfolded Let_def] ident simp: ok dest: mtu)
qed

lemma net_ipv4_route_lookup_device:
  assumes "net_ipv4_route_lookup dst s = (r, Some route)"
  shows "rt_device route \<noteq> None"
proof -
  define P where "P = (\<lambda>best :: (net_ipv4_route \<times> u8) option. \<forall>r p. best = Some (r, p) \<longrightarrow> rt_device r \<noteq> None)"
  have "P (lookup_route_step store dst slot best)" if "P best" for store slot best
    using that by (auto simp: P_def lookup_route_step_def Let_def split: option.splits if_splits)
  then have static: "P (fold (lookup_route_step store dst) slots best)" if "P best" for store slots best
    using that by (induction slots arbitrary: best) simp_all
  have "P (lookup_device_step store dst d best)" if "P best" for store d best
    using that by (auto simp: P_def lookup_device_step_def connected_route_def Let_def split: option.splits if_splits)
  then have connected: "P (fold (lookup_device_step store dst) ds best)" if "P best" for store ds best
    using that by (induction ds arbitrary: best) simp_all
  have "P (fold (lookup_device_step (devs s) dst) (net_devices s)
      (fold (lookup_route_step (devs s) dst) (net_ipv4_routes s) None))"
    by (intro connected static) (simp add: P_def)
  then show ?thesis
    using assms by (auto simp: net_ipv4_route_lookup_def P_def Let_def split: if_splits option.splits)
qed

lemma net_ipv4_send_safe: "net_ok s \<Longrightarrow> keeps (net_ipv4_send src dst protocol payload s)"
  using net_ipv4_route_lookup_device [of dst s] net_ipv4_send_on_safe
  by (auto simp: net_ipv4_send_def Let_def split: prod.split option.split)

section \<open>Input\<close>

lemma bind_load_at: "i < length p \<Longrightarrow> (\<And>x. safe (f x) P) \<Longrightarrow> safe (Option.bind (load_at p i) f) P"
  by simp

lemma bind_read_be16: "i + 1 < length p \<Longrightarrow> (\<And>x. safe (f x) P) \<Longrightarrow> safe (Option.bind (net_read_be16 p i) f) P"
  by (simp add: net_read_be16_def)

lemma bind_load_mac: "i + 5 < length p \<Longrightarrow> (\<And>x. safe (f x) P) \<Longrightarrow> safe (Option.bind (load_mac p i) f) P"
  by (simp add: load_mac_def)

lemma bind_load_ipv4: "i + 3 < length p \<Longrightarrow> (\<And>x. safe (f x) P) \<Longrightarrow> safe (Option.bind (load_ipv4 p i) f) P"
  by (simp add: load_ipv4_def)

lemmas bind_loads = bind_load_at bind_read_be16 bind_load_mac bind_load_ipv4

lemma cache_protocol_address_safe:
  assumes "net_ok s"
  shows "safe (cache_protocol_address d a m s) net_ok"
proof -
  have "net_ok (upd_entry (slot_for d a s) (\<lambda>_. \<lparr>ae_state = NET_ARP_ENTRY_VALID, ae_device = Some d,
      ae_protocol = a, ae_hardware = m, ae_age = 0, ae_last_request_age = 0\<rparr>) s)"
    if "net_ipv4_addr_is_unicast a" "\<not> net_mac_addr_is_zero m" "\<not> net_mac_addr_is_multicast m"
    using assms that by (intro learn_ok) (auto simp: entry_ok_def)
  then show ?thesis
    unfolding cache_protocol_address_def Let_def slot_for_def
    using assms net_ipv4_notify_arp_resolved_safe by (intro safe_if) auto
qed

lemma net_arp_input_safe:
  assumes "net_ok s"
  shows "keeps (net_arp_input d m packet s)"
proof -
  have send: "keeps (net_ethernet_send d dst ethertype p t)" if "net_ok t" for t dst ethertype p
    using safe_mono [OF net_ethernet_send_safe [OF that]] by fastforce
  have reply: "keeps (Option.bind (cache_protocol_address d a h s) (\<lambda>s. Some (NET_OK, s)))" for a h
    by (rule safe_bind [OF cache_protocol_address_safe [OF assms]]) simp
  have request: "keeps (Option.bind (if c then cache_protocol_address d a h s else Some s)
      (\<lambda>t. net_ethernet_send d dst ethertype (p t) t))" for c a h dst ethertype p
    by (rule safe_bind [where Q = net_ok]) (use assms cache_protocol_address_safe send in auto)
  show ?thesis
    unfolding net_arp_input_def Let_def
    by (intro safe_if bind_loads reply request) (simp_all add: assms)
qed

lemma net_icmp_input_safe:
  assumes "net_ok s"
  shows "keeps (net_icmp_input d src dst packet s)"
proof -
  have reply: "keeps (do { reply \<leftarrow> store_at packet 0 v; reply \<leftarrow> net_write_be16 reply 2 0;
      reply \<leftarrow> net_write_be16 reply 2 (net_checksum_compute reply); net_ipv4_send_on d dst src pr reply s })"
    if "8 \<le> length packet" for v pr
  proof (rule safe_bind [where Q = "\<lambda>q. length q = length packet"])
    fix q :: "u8 list"
    assume q: "length q = length packet"
    show "keeps (do { reply \<leftarrow> net_write_be16 q 2 0;
      reply \<leftarrow> net_write_be16 reply 2 (net_checksum_compute reply); net_ipv4_send_on d dst src pr reply s })"
      by (rule safe_bind [OF net_write_be16_safe], use q that in simp,
          rule safe_bind [OF net_write_be16_safe], use q that in simp,
          rule net_ipv4_send_on_safe [OF assms])
  qed (use that in \<open>auto simp: store_at_def\<close>)
  have log: "net_ok (s\<lparr>echo_replies := x\<rparr>)" for x using assms by (simp add: net_ok_def)
  show ?thesis
    unfolding net_icmp_input_def Let_def
    by (intro safe_if bind_loads reply) (auto simp: assms log)
qed

text \<open>
  The interface between IPv4 and the protocols above it: a handler accepts every payload, does not
  fault and keeps the invariant of the stack.
\<close>

locale protocol_handlers =
  fixes other :: net_handlers
  assumes handler_safe: "net_ok s \<Longrightarrow> safe (other n d src dst payload s) (\<lambda>(r, t). net_ok t)"
begin

lemma call_handler_safe: "net_ok s \<Longrightarrow> keeps (call_handler other h d src dst payload s)"
  by (cases h) (simp_all add: call_handler_def handler_safe net_icmp_input_safe)

lemma net_ipv4_input_safe:
  assumes "net_ok s"
  shows "keeps (net_ipv4_input other d m packet s)"
  unfolding net_ipv4_input_def Let_def
  by (intro safe_if bind_loads)
    (auto simp: assms split: option.split intro: call_handler_safe [OF assms])

lemma net_ethernet_input_safe:
  assumes "net_ok s"
  shows "keeps (net_ethernet_input other d frame s)"
  unfolding net_ethernet_input_def Let_def
  by (intro safe_if bind_loads net_arp_input_safe net_ipv4_input_safe) (simp_all add: assms)

lemma net_ok_upd_stats: "net_ok s \<Longrightarrow> net_ok (upd_stats d f s)"
proof -
  have "sends s [] (upd_stats d f s)"
    by (auto simp: sends_def upd_stats_def upd_dev_def dev_alike_def)
  then show "net_ok s \<Longrightarrow> net_ok (upd_stats d f s)" by (rule net_ok_sends [rotated])
qed

lemma net_device_receive_safe:
  assumes "net_ok s"
  shows "keeps (net_device_receive other d frame s)"
  unfolding net_device_receive_def
  by (intro safe_if safe_bind [OF net_ethernet_input_safe [OF assms]])
    (auto simp: assms intro: net_ok_upd_stats)

end

interpretation icmp: protocol_handlers "\<lambda>n. net_icmp_input"
  by unfold_locales (rule net_icmp_input_safe)

end
