(* ===== verification/Net_History.thy ===== *)
theory Net_History
  imports Net_Inv
begin

text \<open>
  Histories of the network stack: every sequence of its operations, with arbitrary frames from the
  wire and arbitrary results of the drivers, runs without a fault and keeps the invariant.
\<close>

unbundle bit_operations_syntax

section \<open>Histories\<close>

datatype net_op =
    Register dref string net_mac_addr nat bool
  | Unregister dref
  | Set_Default dref
  | Configure dref net_ipv4_addr net_ipv4_addr net_ipv4_addr
  | Clear dref
  | Registry_Reset
  | Receive dref "u8 list"
  | Transmit dref net_mac_addr u16 "u8 list"
  | Send net_ipv4_addr net_ipv4_addr u8 "u8 list"
  | Send_On dref net_ipv4_addr net_ipv4_addr u8 "u8 list"
  | Echo_Request net_ipv4_addr net_ipv4_addr u16 u16 "u8 list"
  | Resolve dref net_ipv4_addr
  | Arp_Tick u32
  | Ipv4_Tick u32
  | Arp_Reset
  | Ipv4_Reset
  | Icmp_Init
  | Set_Reply_Handler bool
  | Route_Add net_ipv4_addr net_ipv4_addr net_ipv4_addr dref u16
  | Route_Remove net_ipv4_addr net_ipv4_addr dref
  | Register_Protocol u8 net_ipv4_protocol_fn
  | Unregister_Protocol u8

fun net_exec :: "net_handlers \<Rightarrow> net_op \<Rightarrow> net_state \<Rightarrow> net_state option" where
  "net_exec other (Register d name mac mtu tx) s = Some (snd (net_device_register d name mac mtu tx s))"
| "net_exec other (Unregister d) s = Some (snd (net_device_unregister d s))"
| "net_exec other (Set_Default d) s = Some (snd (net_device_set_default d s))"
| "net_exec other (Configure d a m g) s = Some (snd (net_device_configure_ipv4 d a m g s))"
| "net_exec other (Clear d) s = Some (net_device_clear_ipv4 d s)"
| "net_exec other Registry_Reset s = Some (net_device_registry_reset s)"
| "net_exec other (Receive d frame) s = map_option snd (net_device_receive other d frame s)"
| "net_exec other (Transmit d dst ethertype payload) s = map_option snd (net_ethernet_send d dst ethertype payload s)"
| "net_exec other (Send src dst protocol payload) s = map_option snd (net_ipv4_send src dst protocol payload s)"
| "net_exec other (Send_On d src dst protocol payload) s =
     map_option snd (net_ipv4_send_on d src dst protocol payload s)"
| "net_exec other (Echo_Request src dst ident sequence payload) s =
     map_option snd (net_icmp_send_echo_request src dst ident sequence payload s)"
| "net_exec other (Resolve d a) s = map_option (snd \<circ> snd) (net_arp_resolve d a s)"
| "net_exec other (Arp_Tick n) s = net_arp_tick n s"
| "net_exec other (Ipv4_Tick n) s = net_ipv4_tick n s"
| "net_exec other Arp_Reset s = Some (net_arp_reset s)"
| "net_exec other Ipv4_Reset s = Some (net_ipv4_reset s)"
| "net_exec other Icmp_Init s = Some (snd (net_icmp_init s))"
| "net_exec other (Set_Reply_Handler b) s = Some (net_icmp_set_echo_reply_handler b s)"
| "net_exec other (Route_Add network netmask gateway d metric) s =
     Some (snd (net_ipv4_route_add network netmask gateway d metric s))"
| "net_exec other (Route_Remove network netmask d) s = Some (snd (net_ipv4_route_remove network netmask d s))"
| "net_exec other (Register_Protocol protocol h) s = Some (snd (net_ipv4_register_protocol protocol h s))"
| "net_exec other (Unregister_Protocol protocol) s = Some (snd (net_ipv4_unregister_protocol protocol s))"

text \<open>The static storage at boot, with any drivers.\<close>

definition blank_device :: net_device where
  "blank_device = \<lparr>dev_name = [], dev_mac = Mac 0 0 0 0 0 0, dev_mtu = 0, dev_transmit = False,
     dev_ipv4 = no_ipv4, dev_stats = no_stats, dev_registered = False\<rparr>"

definition net_boot :: "((dref \<times> u8 list) list \<Rightarrow> net_status) \<Rightarrow> net_state" where
  "net_boot drivers =
     \<lparr>devs = (\<lambda>_. blank_device), net_devices = [], net_default_device = None,
      net_arp_cache = replicate 16 \<lparr>ae_state = NET_ARP_ENTRY_EMPTY, ae_device = None,
        ae_protocol = ipv4_zero, ae_hardware = Mac 0 0 0 0 0 0, ae_age = 0, ae_last_request_age = 0\<rparr>,
      net_ipv4_routes = replicate 8 \<lparr>rs_route = \<lparr>rt_network = ipv4_zero, rt_netmask = ipv4_zero,
        rt_gateway = ipv4_zero, rt_device = None, rt_metric = 0\<rparr>, rs_used = False\<rparr>,
      net_ipv4_handlers = replicate 8 \<lparr>hs_protocol = 0, hs_handler = Other_Handler 0, hs_used = False\<rparr>,
      net_ipv4_pending = replicate 4 \<lparr>pp_device = None, pp_next_hop = ipv4_zero, pp_packet = [],
        pp_age = 0, pp_used = False\<rparr>,
      net_ipv4_identification = 0, net_icmp_reply_handler = False, echo_replies = [], wire = [],
      driver = drivers\<rparr>"

lemma net_boot_ok: "net_ok (net_boot drivers)"
  by (simp add: net_ok_def net_boot_def registry_ok_def dev_ok_def blank_device_def cache_ok_def
      entry_ok_def same_key_def pending_ok_def)

subsection \<open>Registry operations\<close>

lemma remove_device_Some:
  "distinct ds \<Longrightarrow> remove_device d ds = Some es \<Longrightarrow>
   d \<in> set ds \<and> distinct es \<and> set es = set ds - {d} \<and> Suc (length es) = length ds"
  by (induction ds arbitrary: es) (fastforce split: if_splits)+

lemma net_ok_upd_dev:
  assumes "net_ok s" "\<And>v. dev_registered (f v) = dev_registered v" "dev_ok (f (devs s d))"
  shows "net_ok (upd_dev d f s)"
proof -
  have "dev_registered (devs (upd_dev d f s) e) = dev_registered (devs s e)" for e
    using assms(2) by (simp add: upd_dev_def)
  then have "registry_ok (upd_dev d f s) = registry_ok s"
    unfolding registry_ok_def by (simp add: upd_dev_def cong: option.case_cong)
  then show ?thesis using assms by (auto simp: net_ok_def upd_dev_def)
qed

lemma register_ok:
  assumes ok: "net_ok s"
  shows "net_ok (snd (net_device_register d name mac mtu tx s))"
proof -
  define r where "r = fst (net_device_register d name mac mtu tx s)"
  show ?thesis
  proof (cases "r = NET_OK")
    case False
    then have "snd (net_device_register d name mac mtu tx s) = s"
      by (auto simp: r_def net_device_register_def Let_def)
    then show ?thesis using ok by simp
  next
    case True
    have reg: "registry_ok s" using net_okD(1) [OF ok] .
    from True show ?thesis
      using ok reg unfolding r_def net_device_register_def
      by (auto simp: Let_def net_ok_def registry_ok_def dev_ok_def upd_dev_def device_is_in_registry_def
          find_index_None split: if_splits option.splits)
  qed
qed

lemma unregister_ok:
  assumes ok: "net_ok s"
  shows "net_ok (snd (net_device_unregister d s))"
proof (cases "remove_device d (net_devices s)")
  case None
  then show ?thesis using ok by (simp add: net_device_unregister_def)
next
  case (Some es)
  have reg: "registry_ok s" using net_okD(1) [OF ok] .
  have es: "d \<in> set (net_devices s)" "distinct es" "set es = set (net_devices s) - {d}"
    "Suc (length es) = length (net_devices s)"
    using remove_device_Some [OF _ Some] reg by (auto simp: registry_ok_def)
  let ?t = "snd (net_device_unregister d s)"
  have "registry_ok ?t"
    using reg es by (cases es) (auto simp: net_device_unregister_def Some Let_def registry_ok_def upd_dev_def
      split: option.splits)
  moreover have "dev_ok (devs ?t e)" for e
    using net_okD(2) [OF ok, of e] by (auto simp: net_device_unregister_def Some Let_def upd_dev_def dev_ok_def)
  ultimately show ?thesis
    using ok by (simp add: net_ok_def net_device_unregister_def Some Let_def upd_dev_def)
qed

lemma configure_ok: "net_ok s \<Longrightarrow> net_ok (snd (net_device_configure_ipv4 d a m g s))"
  using net_okD(2) [of s d]
  by (auto simp: net_device_configure_ipv4_def Let_def dev_ok_def intro: net_ok_upd_dev)

lemma clear_ok: "net_ok s \<Longrightarrow> net_ok (net_device_clear_ipv4 d s)"
  using net_okD(2) [of s d] unfolding net_device_clear_ipv4_def
  by (intro net_ok_upd_dev) (auto simp: dev_ok_def)

lemma set_default_ok: "net_ok s \<Longrightarrow> net_ok (snd (net_device_set_default d s))"
  unfolding net_device_set_default_def
  by (cases "device_is_in_registry d s")
    (auto simp: net_ok_def registry_ok_def device_is_in_registry_def find_index_None)

lemma fold_unregister:
  "fold (\<lambda>d. upd_dev d (\<lambda>v. v\<lparr>dev_registered := False\<rparr>)) ds s =
     s\<lparr>devs := (\<lambda>e. if e \<in> set ds then (devs s e)\<lparr>dev_registered := False\<rparr> else devs s e)\<rparr>"
proof (induction ds arbitrary: s)
  case (Cons d ds)
  show ?case
    unfolding fold.simps comp_apply Cons by (auto simp: upd_dev_def fun_eq_iff intro!: net_state.equality)
qed simp

lemma registry_reset_ok:
  assumes "net_ok s"
  shows "net_ok (net_device_registry_reset s)"
proof -
  have "registry_ok s" using net_okD(1) [OF assms] .
  then have "dev_registered (devs s e) \<Longrightarrow> e \<in> set (net_devices s)" for e by (simp add: registry_ok_def)
  then show ?thesis
    using assms by (auto simp: net_device_registry_reset_def fold_unregister net_ok_def registry_ok_def dev_ok_def)
qed

subsection \<open>Tables\<close>

lemma net_ok_tables:
  "net_ok s \<Longrightarrow> length rs = 8 \<Longrightarrow> net_ok (s\<lparr>net_ipv4_routes := rs\<rparr>)"
  "net_ok s \<Longrightarrow> length hs = 8 \<Longrightarrow> net_ok (s\<lparr>net_ipv4_handlers := hs\<rparr>)"
  "net_ok s \<Longrightarrow> net_ok (s\<lparr>net_icmp_reply_handler := b\<rparr>)"
  by (simp_all add: net_ok_def)

lemma route_add_ok: "net_ok s \<Longrightarrow> net_ok (snd (net_ipv4_route_add network netmask gateway d metric s))"
  by (auto simp: net_ipv4_route_add_def Let_def net_okD intro!: net_ok_tables split: option.split)

lemma route_remove_ok: "net_ok s \<Longrightarrow> net_ok (snd (net_ipv4_route_remove network netmask d s))"
  by (auto simp: net_ipv4_route_remove_def Let_def net_okD intro!: net_ok_tables split: option.split)

lemma register_protocol_ok: "net_ok s \<Longrightarrow> net_ok (snd (net_ipv4_register_protocol protocol h s))"
  by (auto simp: net_ipv4_register_protocol_def net_okD intro!: net_ok_tables split: option.split)

lemma unregister_protocol_ok: "net_ok s \<Longrightarrow> net_ok (snd (net_ipv4_unregister_protocol protocol s))"
  by (auto simp: net_ipv4_unregister_protocol_def net_okD intro!: net_ok_tables split: option.split)

lemma icmp_init_ok: "net_ok s \<Longrightarrow> net_ok (snd (net_icmp_init s))"
  using unregister_protocol_ok [of s 1]
  by (auto simp: net_icmp_init_def split: prod.split intro!: register_protocol_ok net_ok_tables)

lemma resets_ok: "net_ok s \<Longrightarrow> net_ok (net_arp_reset s)" "net_ok s \<Longrightarrow> net_ok (net_ipv4_reset s)"
  by (auto simp: net_ok_def net_arp_reset_def net_ipv4_reset_def cache_ok_def entry_ok_def same_key_def
      pending_ok_def nth_map)

lemma echo_request_safe:
  assumes "net_ok s"
  shows "keeps (net_icmp_send_echo_request src dst ident sequence payload s)"
  unfolding net_icmp_send_echo_request_def Let_def
  by (intro safe_if safe_bind [OF net_write_be16_safe] net_ipv4_send_safe)
    (simp_all add: assms icmp_echo_def)

lemma safe_map_option: "safe (map_option f m) P = safe m (\<lambda>x. P (f x))"
  by (cases m) (simp_all add: safe_def)

context protocol_handlers
begin

lemma net_exec_safe:
  assumes "net_ok s"
  shows "safe (net_exec other op s) net_ok"
proof -
  have *: "keeps m \<Longrightarrow> safe m (\<lambda>x. net_ok (snd x))" for m :: "('a \<times> net_state) option"
    by (simp add: case_prod_unfold)
  show ?thesis
    using assms
    by (cases op)
      (auto intro!: * net_device_receive_safe net_ipv4_send_safe net_ipv4_send_on_safe echo_request_safe
        net_arp_tick_safe net_ipv4_tick_safe register_ok unregister_ok set_default_ok configure_ok clear_ok
        registry_reset_ok resets_ok icmp_init_ok route_add_ok route_remove_ok register_protocol_ok
        unregister_protocol_ok net_ok_tables
        intro: safe_mono [OF net_ethernet_send_safe] safe_mono [OF net_arp_resolve_safe]
        simp: net_icmp_set_echo_reply_handler_def safe_map_option comp_def)
qed

lemma net_history_ok: "net_ok s \<Longrightarrow> safe (foldM (net_exec other) ops s) net_ok"
  by (rule safe_foldM) (auto intro: net_exec_safe)

end

section \<open>Safety of the stack\<close>



end
