(* ===== verification/Net_Delivery.thy ===== *)
theory Net_Delivery
  imports Net_History
begin

text \<open>
  Delivery across the layers: a datagram sent by one stack reaches the protocol handler of another
  unchanged, an ARP reply releases the datagrams that wait for it, and an echo request is answered
  with its own content.
\<close>

unbundle bit_operations_syntax

section \<open>Writing and reading packets\<close>

lemma net_write_be16_eq:
  "i + 1 < length p \<Longrightarrow> net_write_be16 p i v = Some (take i p @ be16 v @ drop (i + 2) p)"
  by (simp add: net_write_be16_def be16_def upd_conv_take_nth_drop list_update_append Cons_nth_drop_Suc [symmetric])

definition ipv4_packet :: "u16 \<Rightarrow> u8 \<Rightarrow> net_ipv4_addr \<Rightarrow> net_ipv4_addr \<Rightarrow> u8 list \<Rightarrow> u8 list" where
  "ipv4_packet ident protocol src dst payload =
     (let h = ipv4_header_zero (length payload) ident protocol src dst in
      take 10 h @ be16 (net_checksum_compute h) @ drop 12 h @ payload)"

lemma read_be16_append: "length xs = i \<Longrightarrow> net_read_be16 (xs @ be16 v @ ys) i = Some v"
  by (simp add: net_read_be16_def be16_def nth_append)

lemma load_at_append: "length xs = i \<Longrightarrow> load_at (xs @ y # ys) i = Some y"
  by (simp add: nth_append)

lemma load_ipv4_append: "length xs = i \<Longrightarrow> load_ipv4 (xs @ ipv4_bytes a @ ys) i = Some a"
  by (cases a) (simp add: load_ipv4_def nth_append)

lemma load_mac_append: "length xs = i \<Longrightarrow> load_mac (xs @ mac_bytes m @ ys) i = Some m"
  by (cases m) (simp add: load_mac_def nth_append)

lemma ipv4_header_zero_split:
  "take 10 (ipv4_header_zero n ident protocol src dst) =
     [0x45, 0] @ be16 (of_nat (20 + n)) @ be16 ident @ be16 0x4000 @ [64, protocol]"
  "drop 12 (ipv4_header_zero n ident protocol src dst) = ipv4_bytes src @ ipv4_bytes dst"
  "ipv4_header_zero n ident protocol src dst =
     ([0x45, 0] @ be16 (of_nat (20 + n)) @ be16 ident @ be16 0x4000 @ [64, protocol]) @ be16 0
       @ ipv4_bytes src @ ipv4_bytes dst"
  by (simp_all add: ipv4_header_zero_def)

lemma ipv4_packet_parts:
  assumes "20 + length payload < 65536" and p_def: "p = ipv4_packet ident protocol src dst payload @ pad"
  shows "load_at p 0 = Some 0x45" "net_read_be16 p 2 = Some (of_nat (20 + length payload))"
    "net_read_be16 p 6 = Some 0x4000" "load_at p 8 = Some 64" "load_at p 9 = Some protocol"
    "load_ipv4 p 12 = Some src" "load_ipv4 p 16 = Some dst" "net_checksum_is_valid (take 20 p)"
    "drop 20 p = payload @ pad" "length p = 20 + length payload + length pad"
proof -
  define h where "h = ipv4_header_zero (length payload) ident protocol src dst"
  define c where "c = net_checksum_compute h"
  define n :: u16 where "n = of_nat (20 + length payload)"
  define front where "front = [0x45, 0] @ be16 n @ be16 ident @ be16 0x4000 @ [64, protocol]"
  have h: "h = front @ be16 0 @ ipv4_bytes src @ ipv4_bytes dst"
    unfolding h_def front_def n_def by (rule ipv4_header_zero_split(3))
  have p: "p = front @ be16 c @ ipv4_bytes src @ ipv4_bytes dst @ payload @ pad"
    unfolding p_def ipv4_packet_def Let_def ipv4_header_zero_split(1,2) front_def n_def c_def h_def by simp
  have len: "length front = 10" by (simp add: front_def)
  have "take 20 p = front @ be16 (net_checksum_compute (front @ be16 0 @ ipv4_bytes src @ ipv4_bytes dst))
      @ ipv4_bytes src @ ipv4_bytes dst"
    using len by (simp add: p c_def h)
  moreover have "net_checksum_is_valid \<dots>"
    using len by (intro net_checksum_insert) simp_all
  ultimately show "net_checksum_is_valid (take 20 p)" by (simp only:)
  show "drop 20 p = payload @ pad" "length p = 20 + length payload + length pad"
    using len by (simp_all add: p)
  show "load_ipv4 p 12 = Some src"
    using load_ipv4_append [of "front @ be16 c" 12] len by (simp add: p)
  show "load_ipv4 p 16 = Some dst"
    using load_ipv4_append [of "front @ be16 c @ ipv4_bytes src" 16] len by (simp add: p)
  show "load_at p 0 = Some 0x45" using load_at_append [of "[]" 0] by (simp add: p front_def)
  show "load_at p 8 = Some 64"
    using load_at_append [of "[0x45, 0] @ be16 n @ be16 ident @ be16 0x4000" 8] by (simp add: p front_def)
  show "load_at p 9 = Some protocol"
    using load_at_append [of "[0x45, 0] @ be16 n @ be16 ident @ be16 0x4000 @ [64]" 9] by (simp add: p front_def)
  show "net_read_be16 p 6 = Some 0x4000"
    using read_be16_append [of "[0x45, 0] @ be16 n @ be16 ident" 6 "0x4000"] by (simp add: p front_def)
  show "net_read_be16 p 2 = Some (of_nat (20 + length payload))"
    using read_be16_append [of "[0x45, 0]" 2 n] unfolding p front_def n_def [symmetric] by simp
qed

lemma ethernet_frame_parts:
  assumes f_def: "f = ethernet_frame dst src ethertype payload"
  shows "load_mac f 0 = Some dst" "load_mac f 6 = Some src" "net_read_be16 f 12 = Some ethertype"
    "drop 14 f = payload @ replicate (46 - length payload) 0"
  using load_mac_append [of "[]" 0 dst] load_mac_append [of "mac_bytes dst" 6 src]
    read_be16_append [of "mac_bytes dst @ mac_bytes src" 12 ethertype]
  by (simp_all add: f_def ethernet_frame_def)

section \<open>End to end\<close>

lemma net_arp_lookup_cong:
  assumes "dev_alike (devs t d) (devs s d)" "net_arp_cache t = net_arp_cache s"
  shows "net_arp_lookup d a t = net_arp_lookup d a s"
  unfolding net_arp_lookup_def find_entry_def is_directed_broadcast_def dev_alikeD [OF assms(1)] assms(2) Let_def ..

lemma send_on_resolved:
  assumes reg: "dev_registered (devs s d)" and mtu: "dev_mtu (devs s d) \<le> 1500"
    and cfg: "cfg_configured (dev_ipv4 (devs s d))" "cfg_address (dev_ipv4 (devs s d)) = src"
    and src: "net_ipv4_addr_is_unicast src"
    and dst: "net_ipv4_addr_is_unicast dst" and protocol: "protocol \<noteq> 0"
    and len: "length payload + 20 \<le> dev_mtu (devs s d)"
    and hop: "next_hop_for_device d dst s = (NET_OK, Some hop)"
    and mac: "net_arp_lookup d hop s = Some m"
  shows "net_ipv4_send_on d src dst protocol payload s =
    net_ethernet_send d m NET_ETHERTYPE_IPV4 (ipv4_packet (net_ipv4_identification s) protocol src dst payload)
      (s\<lparr>net_ipv4_identification := net_ipv4_identification s + 1\<rparr>)"
proof -
  let ?s = "s\<lparr>net_ipv4_identification := net_ipv4_identification s + 1\<rparr>"
  have "net_arp_lookup d hop ?s = Some m"
    using mac net_arp_lookup_cong [of ?s d s hop] by (simp add: dev_alike_def)
  then have resolve: "net_arp_resolve d hop ?s = Some (NET_OK, Some m, ?s)"
    using reg by (simp add: net_arp_resolve_def)
  have zero: "\<not> net_ipv4_addr_is_zero src" using src by (cases src) (simp add: net_ipv4_addr_is_zero_def)
  have stored: "net_write_be16 (ipv4_header_zero (length payload) ident protocol src dst) 10 c =
      Some (take 10 (ipv4_header_zero (length payload) ident protocol src dst) @ be16 c
        @ drop 12 (ipv4_header_zero (length payload) ident protocol src dst))" for ident c
    by (simp add: net_write_be16_eq)
  show ?thesis
    using assms zero resolve
    by (simp add: net_ipv4_send_on_def Let_def stored ipv4_packet_def)
qed

lemma ipv4_input_delivers:
  assumes reg: "dev_registered (devs t e)"
    and mac: "\<not> net_mac_addr_is_zero m" "\<not> net_mac_addr_is_multicast m"
    and fits: "20 + length payload \<le> dev_mtu (devs t e)" "46 \<le> dev_mtu (devs t e)" "dev_mtu (devs t e) \<le> 1500"
    and cfg: "cfg_configured (dev_ipv4 (devs t e))" "cfg_address (dev_ipv4 (devs t e)) = dst"
    and src: "net_ipv4_addr_is_unicast src" and protocol: "protocol \<noteq> 0"
    and handler: "find_index (\<lambda>h. hs_used h \<and> hs_protocol h = protocol) (net_ipv4_handlers t) = Some i"
  shows "net_ipv4_input other e m (ipv4_packet ident protocol src dst payload @ replicate (26 - length payload) 0) t =
    call_handler other (hs_handler (net_ipv4_handlers t ! i)) e src dst payload t"
proof -
  define p where "p = ipv4_packet ident protocol src dst payload @ replicate (26 - length payload) 0"
  have small: "20 + length payload < 65536" using fits by linarith
  note parts = ipv4_packet_parts [OF small p_def]
  have len: "\<not> length p < 20" "\<not> dev_mtu (devs t e) < length p" "\<not> length p < 20 + length payload"
    using fits by (auto simp: parts)
  have total: "unat (of_nat (20 + length payload) :: u16) = 20 + length payload"
    using small by (simp only: unat_of_nat take_bit_nat_eq_self) (simp add: take_bit_nat_eq_self)
  have ihl: "drop_bit 4 (0x45 :: u8) = 4" "unat ((0x45 :: u8) AND 0x0f) * 4 = 20" "\<not> (0x45 :: u8) AND 0x0f < 5"
    "(0x4000 :: u16) AND 0xbfff = 0" by code_simp+
  show ?thesis
    unfolding p_def [symmetric] net_ipv4_input_def Let_def parts(1-7) bind.simps ihl total
    using reg mac len cfg src protocol handler
    by (simp add: parts(8,9))
qed

text \<open>C25. End to end: when the sender's device has its own unicast address and the next hop towards a
  unicast destination is resolved to the receiver's hardware address, \<open>net_ipv4_send_on\<close> hands the
  driver exactly one frame, and a stack whose device has that hardware address and the destination
  address passes the payload, without header, padding or change, with the same source, destination
  and protocol to the handler registered for the protocol.\<close>

theorem ipv4_end_to_end:
  assumes s: "net_ok s" "dev_registered (devs s d)"
    and cfg: "cfg_configured (dev_ipv4 (devs s d))" "cfg_address (dev_ipv4 (devs s d)) = src"
    and addr: "net_ipv4_addr_is_unicast src" "net_ipv4_addr_is_unicast dst" "protocol \<noteq> 0"
    and len: "length payload + 20 \<le> dev_mtu (devs s d)" "length payload + 20 \<le> dev_mtu (devs t e)"
    and hop: "next_hop_for_device d dst s = (NET_OK, Some hop)"
    and resolved: "net_arp_lookup d hop s = Some (dev_mac (devs t e))"
    and t: "net_ok t" "dev_registered (devs t e)"
    and tcfg: "cfg_configured (dev_ipv4 (devs t e))" "cfg_address (dev_ipv4 (devs t e)) = dst"
    and handler: "find_index (\<lambda>h. hs_used h \<and> hs_protocol h = protocol) (net_ipv4_handlers t) = Some i"
  shows "\<exists>r s' frame. net_ipv4_send_on d src dst protocol payload s = Some (r, s')
    \<and> wire s' = wire s @ [(d, frame)]
    \<and> net_ethernet_input other e frame t =
        call_handler other (hs_handler (net_ipv4_handlers t ! i)) e src dst payload t"
proof -
  define packet where "packet = ipv4_packet (net_ipv4_identification s) protocol src dst payload"
  define frame where "frame = ethernet_frame (dev_mac (devs t e)) (dev_mac (devs s d)) NET_ETHERTYPE_IPV4 packet"
  have sdev: "dev_mtu (devs s d) \<le> 1500" "dev_transmit (devs s d)" "576 \<le> dev_mtu (devs s d)"
    "\<not> net_mac_addr_is_zero (dev_mac (devs s d))" "\<not> net_mac_addr_is_multicast (dev_mac (devs s d))"
    using net_okD(2) [OF s(1), of d] s(2) by (simp_all add: dev_ok_def)
  have tdev: "dev_mtu (devs t e) \<le> 1500" "576 \<le> dev_mtu (devs t e)"
    "\<not> net_mac_addr_is_zero (dev_mac (devs t e))"
    using net_okD(2) [OF t(1), of e] t(2) by (simp_all add: dev_ok_def)
  have small: "20 + length payload < 65536" using len tdev by linarith
  have plen: "length packet = 20 + length payload"
    using ipv4_packet_parts(10) [OF small, of packet _ _ _ _ "[]"] by (simp add: packet_def)
  have flen: "14 \<le> length frame" "length frame \<le> 14 + dev_mtu (devs t e)" "length frame \<le> 14 + dev_mtu (devs s d)"
    using len sdev tdev plen by (auto simp: frame_def)
  have send: "\<exists>r s'. net_ipv4_send_on d src dst protocol payload s = Some (r, s') \<and> wire s' = wire s @ [(d, frame)]"
    using s sdev tdev plen len flen
    unfolding send_on_resolved [OF s(2) sdev(1) cfg addr len(1) hop resolved] packet_def [symmetric]
    by (auto simp: net_ethernet_send_def net_device_transmit_def frame_def [symmetric] Let_def upd_stats_def upd_dev_def)
  have "net_ethernet_input other e frame t =
      net_ipv4_input other e (dev_mac (devs s d)) (packet @ replicate (26 - length payload) 0) t"
    using flen sdev(4,5) plen ethernet_frame_parts [OF frame_def]
    by (simp add: net_ethernet_input_def)
  also have "\<dots> = call_handler other (hs_handler (net_ipv4_handlers t ! i)) e src dst payload t"
    unfolding packet_def
    by (rule ipv4_input_delivers) (use assms sdev tdev in auto)
  finally show ?thesis using send by blast
qed

section \<open>Address resolution\<close>

lemma arp_packet_parts:
  assumes p_def: "p = arp_packet operation sh sp th tp"
  shows "net_read_be16 p 0 = Some 1" "net_read_be16 p 2 = Some 0x0800" "load_at p 4 = Some 6"
    "load_at p 5 = Some 4" "net_read_be16 p 6 = Some operation" "load_mac p 8 = Some sh"
    "load_ipv4 p 14 = Some sp" "load_mac p 18 = Some th" "load_ipv4 p 24 = Some tp" "length p = 28"
  using read_be16_append [of "[]" 0 1] read_be16_append [of "be16 1" 2 "0x0800"]
    load_at_append [of "be16 1 @ be16 0x0800" 4 6] load_at_append [of "be16 1 @ be16 0x0800 @ [6]" 5 4]
    read_be16_append [of "be16 1 @ be16 0x0800 @ [6, 4]" 6 operation]
    load_mac_append [of "be16 1 @ be16 0x0800 @ [6, 4] @ be16 operation" 8 sh]
    load_ipv4_append [of "be16 1 @ be16 0x0800 @ [6, 4] @ be16 operation @ mac_bytes sh" 14 sp]
    load_mac_append [of "be16 1 @ be16 0x0800 @ [6, 4] @ be16 operation @ mac_bytes sh @ ipv4_bytes sp" 18 th]
    load_ipv4_append [of "be16 1 @ be16 0x0800 @ [6, 4] @ be16 operation @ mac_bytes sh @ ipv4_bytes sp @ mac_bytes th" 24 tp "[]"]
  by (simp_all add: p_def arp_packet_def)

lemma find_entry_unique:
  assumes "cache_ok (net_arp_cache s)" "i < 16" "entry_matches d a (net_arp_cache s ! i)"
  shows "find_entry d a s = Some i"
proof -
  have len: "length (net_arp_cache s) = 16" using assms(1) by (simp add: cache_ok_def)
  obtain j where j: "find_entry d a s = Some j"
    using find_entry_None [of d a s i] assms len by (cases "find_entry d a s") auto
  have "same_key (net_arp_cache s ! i) (net_arp_cache s ! j)" "j < 16"
    using find_entry_Some [OF j] assms len by (auto simp: same_key_def entry_matches_def)
  then show ?thesis using assms j by (auto simp: cache_ok_def)
qed

text \<open>The datagrams of \<open>d\<close> that wait for \<open>a\<close>.\<close>

definition waits_for :: "dref \<Rightarrow> net_ipv4_addr \<Rightarrow> net_ipv4_pending_packet \<Rightarrow> bool" where
  "waits_for d a p \<longleftrightarrow> pp_used p \<and> pp_device p = Some d \<and> pp_next_hop p = a"

definition released :: "dref \<Rightarrow> net_ipv4_addr \<Rightarrow> net_ipv4_pending_packet \<Rightarrow> net_ipv4_pending_packet" where
  "released d a p = (if waits_for d a p then p\<lparr>pp_used := False\<rparr> else p)"

definition release_frames ::
  "dref \<Rightarrow> net_ipv4_addr \<Rightarrow> net_mac_addr \<Rightarrow> net_mac_addr \<Rightarrow> net_ipv4_pending_packet list \<Rightarrow> (dref \<times> u8 list) list" where
  "release_frames d a m src ps =
     map (\<lambda>p. (d, ethernet_frame m src NET_ETHERTYPE_IPV4 (pp_packet p))) (filter (waits_for d a) ps)"

lemma safe_foldM_upt:
  assumes "P 0 s" "\<And>k t. k < n \<Longrightarrow> P k t \<Longrightarrow> safe (f k t) (P (Suc k))"
  shows "safe (foldM f [0..<n] s) (P n)"
proof -
  have "safe (foldM f [0..<k] s) (P k)" if "k \<le> n" for k
    using that
  proof (induction k)
    case (Suc k)
    then obtain t where "foldM f [0..<k] s = Some t" "P k t" by (auto simp: safe_def)
    moreover then obtain u where "f k t = Some u" "P (Suc k) u"
      using assms(2) [of k t] Suc.prems by (auto simp: safe_def)
    ultimately show ?case by (simp add: foldM_append)
  qed (use assms(1) in simp)
  then show ?thesis by simp
qed

text \<open>Sending a frame that the device takes.\<close>

lemma net_ethernet_send_frame:
  assumes "dev_registered (devs s d)" "dev_transmit (devs s d)" "\<not> net_mac_addr_is_zero m" "\<not> ethertype < 0x0600"
    and "length packet \<le> dev_mtu (devs s d)" "46 \<le> dev_mtu (devs s d)" "dev_mtu (devs s d) \<le> 1500"
  shows "safe (net_ethernet_send d m ethertype packet s)
    (\<lambda>(r, t). sends s [(d, ethernet_frame m (dev_mac (devs s d)) ethertype packet)] t)"
proof -
  let ?frame = "ethernet_frame m (dev_mac (devs s d)) ethertype packet"
  have "frame_ok (d, ?frame)" using assms by (simp add: frame_ok_def)
  then have "sends s [(d, ?frame)] (upd_stats d f (s\<lparr>wire := wire s @ [(d, ?frame)]\<rparr>))" for f
    by (auto simp: sends_def upd_stats_def upd_dev_def dev_alike_def)
  then show ?thesis
    using assms by (auto simp: net_ethernet_send_def net_device_transmit_def Let_def)
qed

lemma sends_pending:
  "sends (s\<lparr>net_ipv4_pending := ps\<rparr>) ws t \<Longrightarrow> sends t vs u \<Longrightarrow>
   sends (s\<lparr>net_ipv4_pending := qs\<rparr>) (ws @ vs) (u\<lparr>net_ipv4_pending := qs\<rparr>)"
  by (auto simp: sends_def dev_alike_def intro!: exI [of _ "devs u"])

lemma notify_releases:
  assumes ok: "net_ok s" and reg: "dev_registered (devs s d)"
    and fit: "\<forall>p \<in> set (net_ipv4_pending s). waits_for d a p \<longrightarrow> length (pp_packet p) \<le> dev_mtu (devs s d)"
    and m: "net_arp_lookup d a s = Some m"
  shows "safe (net_ipv4_notify_arp_resolved d a s) (\<lambda>t.
    sends (s\<lparr>net_ipv4_pending := map (released d a) (net_ipv4_pending s)\<rparr>)
      (release_frames d a m (dev_mac (devs s d)) (net_ipv4_pending s)) t)"
proof -
  define ps where "ps = net_ipv4_pending s"
  define mac where "mac = dev_mac (devs s d)"
  let ?P = "\<lambda>k t. sends (s\<lparr>net_ipv4_pending := map (released d a) (take k ps) @ drop k ps\<rparr>)
    (release_frames d a m mac (take k ps)) t"
  have dev: "dev_transmit (devs s d)" "46 \<le> dev_mtu (devs s d)" "dev_mtu (devs s d) \<le> 1500"
    using net_okD(2) [OF ok, of d] reg by (simp_all add: dev_ok_def)
  have step: "safe (notify_slot d a m k t) (?P (Suc k))" if k: "k < length ps" and t: "?P k t" for k t
  proof -
    define p where "p = ps ! k"
    have split: "take (Suc k) ps = take k ps @ [p]" "drop k ps = p # drop (Suc k) ps"
      using k by (simp_all add: take_Suc_conv_app_nth Cons_nth_drop_Suc p_def)
    have pend: "net_ipv4_pending t = map (released d a) (take k ps) @ p # drop (Suc k) ps"
      using sendsD(7) [OF t] by (simp add: split)
    have nth: "net_ipv4_pending t ! k = p" using k by (simp add: pend nth_append)
    have alike: "dev_alike (devs t d) (devs s d)" using sendsD(1) [OF t, of d] by simp
    show ?thesis
    proof (cases "waits_for d a p")
      case True
      have "safe (net_ethernet_send d m NET_ETHERTYPE_IPV4 (pp_packet p) t)
          (\<lambda>(r, u). sends t [(d, ethernet_frame m (dev_mac (devs t d)) NET_ETHERTYPE_IPV4 (pp_packet p))] u)"
        using reg dev fit True k net_arp_lookup_usable(2) [OF ok m]
        by (intro net_ethernet_send_frame) (auto simp: dev_alikeD [OF alike] p_def ps_def)
      then obtain r u where u: "net_ethernet_send d m NET_ETHERTYPE_IPV4 (pp_packet p) t = Some (r, u)"
        "sends t [(d, ethernet_frame m mac NET_ETHERTYPE_IPV4 (pp_packet p))] u"
        by (auto simp: safe_def dev_alikeD [OF alike] mac_def)
      have "sends (s\<lparr>net_ipv4_pending := map (released d a) (take (Suc k) ps) @ drop (Suc k) ps\<rparr>)
          (release_frames d a m mac (take (Suc k) ps)) (upd_pending k (\<lambda>p. p\<lparr>pp_used := False\<rparr>) u)"
      proof -
        have "net_ipv4_pending u = map (released d a) (take k ps) @ p # drop (Suc k) ps"
          using sendsD(7) [OF u(2)] pend by simp
        then have "upd_pending k (\<lambda>p. p\<lparr>pp_used := False\<rparr>) u =
            u\<lparr>net_ipv4_pending := map (released d a) (take (Suc k) ps) @ drop (Suc k) ps\<rparr>"
          using True k by (simp add: upd_pending_def nth_append list_update_append split released_def)
        moreover have "release_frames d a m mac (take (Suc k) ps) = release_frames d a m mac (take k ps)
            @ [(d, ethernet_frame m mac NET_ETHERTYPE_IPV4 (pp_packet p))]"
          using True by (simp add: release_frames_def split)
        ultimately show ?thesis using sends_pending [OF t u(2)] by simp
      qed
      then show ?thesis using True u by (simp add: notify_slot_def Let_def nth waits_for_def)
    next
      case False
      then have "?P (Suc k) t"
        using t by (simp add: split released_def release_frames_def)
      then show ?thesis using False by (auto simp: notify_slot_def Let_def nth waits_for_def)
    qed
  qed
  have "safe (foldM (notify_slot d a m) [0..<length ps] s) (?P (length ps))"
    by (rule safe_foldM_upt [where P = ?P, OF _ step]) (simp_all add: ps_def release_frames_def)
  then show ?thesis
    by (simp add: net_ipv4_notify_arp_resolved_def m ps_def mac_def)
qed

lemma unicast_not_zero: "net_ipv4_addr_is_unicast a \<Longrightarrow> \<not> net_ipv4_addr_is_zero a"
  by (cases a) (simp add: net_ipv4_addr_is_zero_def)

lemma arp_reply_learned:
  assumes ok: "net_ok s" and reg: "dev_registered (devs s d)" "cfg_configured (dev_ipv4 (devs s d))"
    and own: "cfg_address (dev_ipv4 (devs s d)) = own"
    and a: "net_ipv4_addr_is_unicast a" "a \<noteq> own" "\<not> is_directed_broadcast (devs s d) a"
    and hw: "\<not> net_mac_addr_is_zero hw" "\<not> net_mac_addr_is_multicast hw"
    and known: "find_entry d a s \<noteq> None"
    and fit: "\<forall>p \<in> set (net_ipv4_pending s). waits_for d a p \<longrightarrow> length (pp_packet p) \<le> dev_mtu (devs s d)"
  shows "safe (net_arp_input d hw (arp_packet NET_ARP_OPERATION_REPLY hw a (dev_mac (devs s d)) own) s)
    (\<lambda>(r, t). r = NET_OK \<and> net_ok t \<and> net_arp_lookup d a t = Some hw
      \<and> net_ipv4_pending t = map (released d a) (net_ipv4_pending s)
      \<and> wire t = wire s @ release_frames d a hw (dev_mac (devs s d)) (net_ipv4_pending s))"
proof -
  define e where "e = \<lparr>ae_state = NET_ARP_ENTRY_VALID, ae_device = Some d, ae_protocol = a,
    ae_hardware = hw, ae_age = 0, ae_last_request_age = 0\<rparr>"
  define i where "i = slot_for d a s"
  define s1 where "s1 = upd_entry i (\<lambda>_. e) s"
  have i: "i < 16" using slot_for_ok(1) [OF net_okD(3) [OF ok]] by (simp add: i_def)
  have s1: "net_ok s1"
    unfolding s1_def i_def using ok a hw by (intro learn_ok) (auto simp: e_def entry_ok_def)
  have nth: "net_arp_cache s1 ! i = e"
    using i net_okD(3) [OF ok] by (simp add: s1_def upd_entry_def cache_ok_def)
  have same: "devs s1 = devs s" "net_ipv4_pending s1 = net_ipv4_pending s" "wire s1 = wire s"
    by (simp_all add: s1_def upd_entry_def)
  have "find_entry d a s1 = Some i"
    by (rule find_entry_unique [OF net_okD(3) [OF s1] i]) (simp add: nth e_def entry_matches_def)
  moreover have "\<not> net_ipv4_addr_is_multicast a" "\<not> net_ipv4_addr_is_limited_broadcast a"
    using a(1) by (cases a; auto simp: net_ipv4_addr_is_limited_broadcast_def)+
  ultimately have lookup: "net_arp_lookup d a s1 = Some hw"
    using reg own a nth by (simp add: net_arp_lookup_def same e_def)
  have "safe (net_ipv4_notify_arp_resolved d a s1) (\<lambda>t.
      sends (s1\<lparr>net_ipv4_pending := map (released d a) (net_ipv4_pending s1)\<rparr>)
        (release_frames d a hw (dev_mac (devs s1 d)) (net_ipv4_pending s1)) t)"
    using s1 reg fit lookup by (intro notify_releases) (simp_all add: same)
  then obtain t where t: "net_ipv4_notify_arp_resolved d a s1 = Some t"
    "sends (s1\<lparr>net_ipv4_pending := map (released d a) (net_ipv4_pending s)\<rparr>)
        (release_frames d a hw (dev_mac (devs s d)) (net_ipv4_pending s)) t"
    by (auto simp: safe_def same)
  have learned: "cache_protocol_address d a hw s = Some t"
    using a(1) hw t(1) unfolding s1_def i_def slot_for_def e_def
    by (simp add: cache_protocol_address_def Let_def)
  moreover have "net_ok t"
    using net_ipv4_notify_arp_resolved_safe [OF s1, of d a] t(1) by simp
  moreover have "net_arp_lookup d a t = Some hw"
    using lookup net_arp_lookup_cong [of t d s1 a] sendsD(1,4) [OF t(2)] by simp
  ultimately have "net_arp_input d hw (arp_packet NET_ARP_OPERATION_REPLY hw a (dev_mac (devs s d)) own) s =
      Some (NET_OK, t)"
    using reg own a hw known arp_packet_parts [OF refl, of NET_ARP_OPERATION_REPLY hw a "dev_mac (devs s d)" own]
      unicast_not_zero [OF a(1)] by (simp add: net_arp_input_def)
  then show ?thesis
    using \<open>net_ok t\<close> \<open>net_arp_lookup d a t = Some hw\<close> sendsD(7,8) [OF t(2)] same by simp
qed

text \<open>C27. Address resolution releases what waits for it: a reply for an address the device has an entry for
  is accepted, the address resolves to the sender's hardware address from then on, every datagram
  of the device that waited for the address is handed to the driver once, in the order of the
  queue, in a frame to that hardware address, their slots are free again, and no other slot of the
  queue changes.\<close>

theorem arp_reply_releases:
  assumes "net_ok s" "dev_registered (devs s d)" "cfg_configured (dev_ipv4 (devs s d))"
    and "cfg_address (dev_ipv4 (devs s d)) = own"
    and "net_ipv4_addr_is_unicast a" "a \<noteq> own" "\<not> is_directed_broadcast (devs s d) a"
    and "\<not> net_mac_addr_is_zero hw" "\<not> net_mac_addr_is_multicast hw" "find_entry d a s \<noteq> None"
    and "\<forall>p \<in> set (net_ipv4_pending s). waits_for d a p \<longrightarrow> length (pp_packet p) \<le> dev_mtu (devs s d)"
  shows "\<exists>t. net_arp_input d hw (arp_packet NET_ARP_OPERATION_REPLY hw a (dev_mac (devs s d)) own) s = Some (NET_OK, t)
    \<and> net_arp_lookup d a t = Some hw
    \<and> net_ipv4_pending t = map (released d a) (net_ipv4_pending s)
    \<and> wire t = wire s @ release_frames d a hw (dev_mac (devs s d)) (net_ipv4_pending s)"
  using arp_reply_learned [OF assms] by (auto simp: safe_def)

text \<open>C28. A reply is accepted without having been asked for: when the cache holds a valid entry, so that no
  request is outstanding, a reply from any other hardware address replaces the entry, and
  datagrams go to that address afterwards. The interface promises that only solicited replies are
  learned.\<close>

theorem arp_reply_unsolicited:
  assumes "net_ok s" "dev_registered (devs s d)" "cfg_configured (dev_ipv4 (devs s d))"
    and "cfg_address (dev_ipv4 (devs s d)) = own"
    and "net_ipv4_addr_is_unicast a" "a \<noteq> own" "\<not> is_directed_broadcast (devs s d) a"
    and "\<not> net_mac_addr_is_zero hw" "\<not> net_mac_addr_is_multicast hw"
    and "find_entry d a s = Some i" "ae_state (net_arp_cache s ! i) = NET_ARP_ENTRY_VALID"
      "ae_hardware (net_arp_cache s ! i) \<noteq> hw"
    and "\<forall>p \<in> set (net_ipv4_pending s). \<not> pp_used p"
  shows "net_arp_lookup d a s \<noteq> Some hw
    \<and> (\<exists>t. net_arp_input d hw (arp_packet NET_ARP_OPERATION_REPLY hw a (dev_mac (devs s d)) own) s = Some (NET_OK, t)
         \<and> net_arp_lookup d a t = Some hw)"
proof
  have "\<not> net_ipv4_addr_is_multicast a" "\<not> net_ipv4_addr_is_limited_broadcast a"
    using assms(5) by (cases a; auto simp: net_ipv4_addr_is_limited_broadcast_def)+
  then show "net_arp_lookup d a s \<noteq> Some hw" using assms by (simp add: net_arp_lookup_def)
  show "\<exists>t. net_arp_input d hw (arp_packet NET_ARP_OPERATION_REPLY hw a (dev_mac (devs s d)) own) s = Some (NET_OK, t)
         \<and> net_arp_lookup d a t = Some hw"
    using arp_reply_learned [OF assms(1-9)] assms(10,13) by (auto simp: safe_def waits_for_def)
qed

section \<open>Echo\<close>

text \<open>C29. A well-formed echo request to the device's address is answered by a datagram to the sender whose
  payload is the request with the type changed to reply: same identifier, sequence number and
  data, and a checksum that validates.\<close>

theorem echo_request_answered:
  assumes "cfg_configured (dev_ipv4 (devs s d))" "cfg_address (dev_ipv4 (devs s d)) = dst"
    and "packet = [8, 0] @ be16 c @ body" "4 \<le> length body" "length body \<le> 1476"
    and "net_checksum_is_valid packet"
  shows "\<exists>c'. net_icmp_input d src dst packet s =
      net_ipv4_send_on d dst src NET_IPV4_PROTOCOL_ICMP ([0, 0] @ be16 c' @ body) s
    \<and> net_checksum_is_valid ([0, 0] @ be16 c' @ body)"
proof -
  define c' where "c' = net_checksum_compute ([0, 0] @ be16 0 @ body)"
  have len: "length packet = 4 + length body" using assms(3) by simp
  have loads: "load_at packet 0 = Some 8" "load_at packet 1 = Some 0"
    using load_at_append [of "[]" 0 8] load_at_append [of "[8]" 1 0] assms(3) by simp_all
  have reads: "\<exists>v. net_read_be16 packet 4 = Some v" "\<exists>v. net_read_be16 packet 6 = Some v"
    using len assms(4) by (auto simp: net_read_be16_def load_at_def)
  have "store_at packet 0 0 = Some ([0, 0] @ be16 c @ body)" by (simp add: assms(3))
  moreover have "net_write_be16 ([0, 0] @ be16 x @ body) 2 y = Some ([0, 0] @ be16 y @ body)" for x y
    by (simp add: net_write_be16_eq)
  ultimately have "net_icmp_input d src dst packet s =
      net_ipv4_send_on d dst src NET_IPV4_PROTOCOL_ICMP ([0, 0] @ be16 c' @ body) s"
    using assms len loads reads unfolding c'_def by (auto simp: net_icmp_input_def)
  moreover have "net_checksum_is_valid ([0, 0] @ be16 c' @ body)"
    unfolding c'_def using assms(5) by (intro net_checksum_insert) simp_all
  ultimately show ?thesis by blast
qed

section \<open>Two hosts\<close>

text \<open>A host with one device and one valid entry in its cache, for the concrete instances.\<close>

definition host :: "net_mac_addr \<Rightarrow> net_ipv4_addr \<Rightarrow> net_mac_addr \<Rightarrow> net_ipv4_addr \<Rightarrow> net_state" where
  "host mac own peer_mac peer =
     (net_boot (\<lambda>_. NET_OK))
       \<lparr>devs := (\<lambda>_. blank_device)(0 := \<lparr>dev_name = ''eth0'', dev_mac = mac, dev_mtu = 1500,
          dev_transmit = True, dev_ipv4 = \<lparr>cfg_address = own, cfg_netmask = Ipv4 255 255 255 0,
            cfg_gateway = ipv4_zero, cfg_configured = True\<rparr>, dev_stats = no_stats, dev_registered = True\<rparr>),
        net_devices := [0], net_default_device := Some 0,
        net_arp_cache := (net_arp_cache (net_boot (\<lambda>_. NET_OK)))[0 :=
          \<lparr>ae_state = NET_ARP_ENTRY_VALID, ae_device = Some 0, ae_protocol = peer, ae_hardware = peer_mac,
           ae_age = 0, ae_last_request_age = 0\<rparr>],
        net_ipv4_handlers := (net_ipv4_handlers (net_boot (\<lambda>_. NET_OK)))[0 :=
          \<lparr>hs_protocol = 17, hs_handler = Other_Handler 0, hs_used = True\<rparr>]\<rparr>"

abbreviation (input) host1 :: net_state where
  "host1 \<equiv> host (Mac 2 0 0 0 0 1) (Ipv4 10 0 0 1) (Mac 2 0 0 0 0 2) (Ipv4 10 0 0 2)"
abbreviation (input) host2 :: net_state where
  "host2 \<equiv> host (Mac 2 0 0 0 0 2) (Ipv4 10 0 0 2) (Mac 2 0 0 0 0 1) (Ipv4 10 0 0 1)"

lemma host_ok:
  assumes "\<not> net_mac_addr_is_zero mac" "\<not> net_mac_addr_is_multicast mac"
    and "net_ipv4_addr_is_unicast peer" "\<not> net_mac_addr_is_zero peer_mac" "\<not> net_mac_addr_is_multicast peer_mac"
  shows "net_ok (host mac own peer_mac peer)"
proof -
  have "cache_ok ((net_arp_cache (net_boot (\<lambda>_. NET_OK)))[0 :=
          \<lparr>ae_state = NET_ARP_ENTRY_VALID, ae_device = Some 0, ae_protocol = peer, ae_hardware = peer_mac,
           ae_age = 0, ae_last_request_age = 0\<rparr>])"
    using assms net_okD(3) [OF net_boot_ok]
    by (intro cache_ok_update) (auto simp: entry_ok_def same_key_def net_boot_def)
  then show ?thesis
    using net_boot_ok [of "\<lambda>_. NET_OK"] assms
    by (simp add: host_def net_ok_def registry_ok_def dev_ok_def blank_device_def)
qed

theorem ipv4_end_to_end_witness:
  "\<exists>r s frame. net_ipv4_send_on 0 (Ipv4 10 0 0 1) (Ipv4 10 0 0 2) 17 [1, 2, 3] host1 = Some (r, s)
    \<and> wire s = wire host1 @ [(0, frame)]
    \<and> net_ethernet_input (\<lambda>n d src dst payload t. Some (int (length payload), t)) 0 frame host2 = Some (3, host2)"
proof -
  have "net_ok host1" "net_ok host2" by (intro host_ok; simp add: net_mac_addr_is_zero_def)+
  moreover have "next_hop_for_device 0 (Ipv4 10 0 0 2) host1 = (NET_OK, Some (Ipv4 10 0 0 2))"
    "net_arp_lookup 0 (Ipv4 10 0 0 2) host1 = Some (dev_mac (devs host2 0))"
    "find_index (\<lambda>h. hs_used h \<and> hs_protocol h = 17) (net_ipv4_handlers host2) = Some 0"
    by code_simp+
  moreover have "hs_handler (net_ipv4_handlers host2 ! 0) = Other_Handler 0"
    "dev_registered (devs host1 0)" "dev_registered (devs host2 0)" "dev_mtu (devs host1 0) = 1500"
    "dev_mtu (devs host2 0) = 1500" "cfg_configured (dev_ipv4 (devs host1 0))" "cfg_configured (dev_ipv4 (devs host2 0))"
    "cfg_address (dev_ipv4 (devs host1 0)) = Ipv4 10 0 0 1" "cfg_address (dev_ipv4 (devs host2 0)) = Ipv4 10 0 0 2"
    by (simp_all add: host_def net_boot_def)
  ultimately show ?thesis
    using ipv4_end_to_end [of host1 0 "Ipv4 10 0 0 1" "Ipv4 10 0 0 2" 17 "[1, 2, 3]" host2 0 "Ipv4 10 0 0 2" 0
        "\<lambda>n d src dst payload t. Some (int (length payload), t)"]
    by (simp add: call_handler_def)
qed

theorem arp_reply_releases_witness:
  "\<exists>t. net_arp_input 0 (Mac 2 0 0 0 0 2)
      (arp_packet 2 (Mac 2 0 0 0 0 2) (Ipv4 10 0 0 2) (Mac 2 0 0 0 0 1) (Ipv4 10 0 0 1))
      (upd_pending 0 (\<lambda>_. \<lparr>pp_device = Some 0, pp_next_hop = Ipv4 10 0 0 2, pp_packet = [7],
         pp_age = 0, pp_used = True\<rparr>) host1) = Some (NET_OK, t)
    \<and> wire t = [(0, ethernet_frame (Mac 2 0 0 0 0 2) (Mac 2 0 0 0 0 1) NET_ETHERTYPE_IPV4 [7])]"
proof -
  let ?s = "upd_pending 0 (\<lambda>_. \<lparr>pp_device = Some 0, pp_next_hop = Ipv4 10 0 0 2, pp_packet = [7],
    pp_age = 0, pp_used = True\<rparr>) host1"
  have ok: "net_ok ?s"
    by (intro upd_pending_ok host_ok) (simp_all add: net_mac_addr_is_zero_def pending_ok_def)
  have facts: "dev_registered (devs ?s 0)" "cfg_configured (dev_ipv4 (devs ?s 0))"
    "cfg_address (dev_ipv4 (devs ?s 0)) = Ipv4 10 0 0 1" "dev_mac (devs ?s 0) = Mac 2 0 0 0 0 1"
    "\<forall>p \<in> set (net_ipv4_pending ?s). waits_for 0 (Ipv4 10 0 0 2) p \<longrightarrow> length (pp_packet p) \<le> dev_mtu (devs ?s 0)"
    "wire ?s = []"
    by (auto simp: upd_pending_def host_def net_boot_def waits_for_def dest!: subsetD [OF set_update_subset_insert])
  have eval: "find_entry 0 (Ipv4 10 0 0 2) ?s \<noteq> None" "\<not> is_directed_broadcast (devs ?s 0) (Ipv4 10 0 0 2)"
    "release_frames 0 (Ipv4 10 0 0 2) (Mac 2 0 0 0 0 2) (Mac 2 0 0 0 0 1) (net_ipv4_pending ?s) =
       [(0, ethernet_frame (Mac 2 0 0 0 0 2) (Mac 2 0 0 0 0 1) NET_ETHERTYPE_IPV4 [7])]"
    by code_simp+
  show ?thesis
    using arp_reply_releases [OF ok facts(1-3) _ _ eval(2) _ _ eval(1) facts(5), of "Mac 2 0 0 0 0 2"]
    by (auto simp: facts(4,6) eval(3) net_mac_addr_is_zero_def)
qed

theorem arp_reply_unsolicited_witness:
  "net_arp_lookup 0 (Ipv4 10 0 0 2) host1 \<noteq> Some (Mac 2 0 0 0 0 9)
    \<and> (\<exists>t. net_arp_input 0 (Mac 2 0 0 0 0 9)
        (arp_packet 2 (Mac 2 0 0 0 0 9) (Ipv4 10 0 0 2) (Mac 2 0 0 0 0 1) (Ipv4 10 0 0 1)) host1 = Some (NET_OK, t)
       \<and> net_arp_lookup 0 (Ipv4 10 0 0 2) t = Some (Mac 2 0 0 0 0 9))"
proof -
  have ok: "net_ok host1" by (intro host_ok) (simp_all add: net_mac_addr_is_zero_def)
  have facts: "dev_registered (devs host1 0)" "cfg_configured (dev_ipv4 (devs host1 0))"
    "cfg_address (dev_ipv4 (devs host1 0)) = Ipv4 10 0 0 1" "dev_mac (devs host1 0) = Mac 2 0 0 0 0 1"
    "ae_state (net_arp_cache host1 ! 0) = NET_ARP_ENTRY_VALID" "ae_hardware (net_arp_cache host1 ! 0) = Mac 2 0 0 0 0 2"
    "\<forall>p \<in> set (net_ipv4_pending host1). \<not> pp_used p"
    by (simp_all add: host_def net_boot_def)
  have eval: "find_entry 0 (Ipv4 10 0 0 2) host1 = Some 0" "\<not> is_directed_broadcast (devs host1 0) (Ipv4 10 0 0 2)"
    by code_simp+
  show ?thesis
    using arp_reply_unsolicited [OF ok facts(1-3) _ _ eval(2) _ _ eval(1) facts(5) _ facts(7), of "Mac 2 0 0 0 0 9"]
    by (simp add: facts(4,6) net_mac_addr_is_zero_def)
qed

theorem echo_request_answered_witness:
  "\<exists>c. net_icmp_input 0 (Ipv4 10 0 0 2) (Ipv4 10 0 0 1)
       ([8, 0] @ be16 (net_checksum_compute ([8, 0] @ be16 0 @ [0, 1, 0, 2, 5])) @ [0, 1, 0, 2, 5]) host1 =
     net_ipv4_send_on 0 (Ipv4 10 0 0 1) (Ipv4 10 0 0 2) 1 ([0, 0] @ be16 c @ [0, 1, 0, 2, 5]) host1
   \<and> net_checksum_is_valid ([0, 0] @ be16 c @ [0, 1, 0, 2, 5])"
proof (rule echo_request_answered [OF _ _ refl])
  show "net_checksum_is_valid ([8, 0] @ be16 (net_checksum_compute ([8, 0] @ be16 0 @ [0, 1, 0, 2, 5])) @ [0, 1, 0, 2, 5])"
    by (rule net_checksum_insert) simp_all
qed (simp_all add: host_def net_boot_def)

end
