(* ===== verification/Net_Udp.thy ===== *)
theory Net_Udp
  imports Net_Checksum Ring
begin

text \<open>
  UDP over IPv4, \<open>kernel/net/net_udp.c\<close>: handles with generations, bindings, sending, and a bounded
  receive queue per endpoint. The stack's \<open>ipv4_send\<close> callback is not part of UDP: the segments given
  to it are recorded in \<open>us_sent\<close> and \<open>us_result\<close> gives its result from the segments so far; the
  notifications are recorded in \<open>us_notified\<close>. A payload array is the list of its first
  \<open>length\<close> bytes.
\<close>

unbundle bit_operations_syntax

section \<open>State\<close>

abbreviation (input) NET_UDP_IPV4_PROTOCOL :: u8 where "NET_UDP_IPV4_PROTOCOL \<equiv> 17"
abbreviation (input) NET_UDP_MAX_ENDPOINTS :: nat where "NET_UDP_MAX_ENDPOINTS \<equiv> 16"
abbreviation (input) NET_UDP_QUEUE_DEPTH :: nat where "NET_UDP_QUEUE_DEPTH \<equiv> 8"
abbreviation (input) NET_UDP_MAX_PAYLOAD :: nat where "NET_UDP_MAX_PAYLOAD \<equiv> 1472"
abbreviation (input) NET_UDP_EPHEMERAL_FIRST :: u16 where "NET_UDP_EPHEMERAL_FIRST \<equiv> 49152"
abbreviation (input) NET_UDP_EPHEMERAL_LAST :: u16 where "NET_UDP_EPHEMERAL_LAST \<equiv> 65535"
abbreviation (input) UDP_HEADER_SIZE :: nat where "UDP_HEADER_SIZE \<equiv> 8"
abbreviation (input) UDP_HANDLE_TAG :: u32 where "UDP_HANDLE_TAG \<equiv> 0xd0000000"
abbreviation (input) UDP_HANDLE_TAG_MASK :: u32 where "UDP_HANDLE_TAG_MASK \<equiv> 0xf0000000"
abbreviation (input) UDP_HANDLE_GENERATION_MASK :: u32 where "UDP_HANDLE_GENERATION_MASK \<equiv> 0x000fffff"
abbreviation (input) UDP_HANDLE_SLOT_MASK :: u32 where "UDP_HANDLE_SLOT_MASK \<equiv> 0xff"

abbreviation (input) NET_UDP_OK :: int where "NET_UDP_OK \<equiv> 0"
abbreviation (input) NET_UDP_ERR_INVALID :: int where "NET_UDP_ERR_INVALID \<equiv> - 1"
abbreviation (input) NET_UDP_ERR_NO_SLOT :: int where "NET_UDP_ERR_NO_SLOT \<equiv> - 2"
abbreviation (input) NET_UDP_ERR_BAD_HANDLE :: int where "NET_UDP_ERR_BAD_HANDLE \<equiv> - 3"
abbreviation (input) NET_UDP_ERR_ADDRESS_IN_USE :: int where "NET_UDP_ERR_ADDRESS_IN_USE \<equiv> - 4"
abbreviation (input) NET_UDP_ERR_NOT_BOUND :: int where "NET_UDP_ERR_NOT_BOUND \<equiv> - 5"
abbreviation (input) NET_UDP_ERR_MESSAGE_TOO_LARGE :: int where "NET_UDP_ERR_MESSAGE_TOO_LARGE \<equiv> - 6"
abbreviation (input) NET_UDP_ERR_BAD_CHECKSUM :: int where "NET_UDP_ERR_BAD_CHECKSUM \<equiv> - 7"
abbreviation (input) NET_UDP_ERR_BAD_LENGTH :: int where "NET_UDP_ERR_BAD_LENGTH \<equiv> - 8"
abbreviation (input) NET_UDP_ERR_NO_ENDPOINT :: int where "NET_UDP_ERR_NO_ENDPOINT \<equiv> - 9"
abbreviation (input) NET_UDP_ERR_QUEUE_FULL :: int where "NET_UDP_ERR_QUEUE_FULL \<equiv> - 10"
abbreviation (input) NET_UDP_ERR_WOULD_BLOCK :: int where "NET_UDP_ERR_WOULD_BLOCK \<equiv> - 11"
abbreviation (input) NET_UDP_ERR_BUFFER_TOO_SMALL :: int where "NET_UDP_ERR_BUFFER_TOO_SMALL \<equiv> - 12"
abbreviation (input) NET_UDP_ERR_IO :: int where "NET_UDP_ERR_IO \<equiv> - 13"

record net_udp_address =
  ua_address :: u32
  ua_port :: u16

record net_udp_config =
  uc_local_address :: u32
  uc_allow_zero_checksum :: bool
  uc_ipv4_send :: bool

record net_udp_stats =
  st_received :: u64
  st_transmitted :: u64
  st_dropped_bad_length :: u64
  st_dropped_bad_checksum :: u64
  st_dropped_oversize :: u64
  st_dropped_no_endpoint :: u64
  st_dropped_queue_full :: u64

record net_udp_queued_datagram =
  dg_source :: net_udp_address
  dg_destination_address :: u32
  dg_payload :: "u8 list"

record net_udp_endpoint =
  ep_generation :: u32
  ep_active :: bool
  ep_bound :: bool
  ep_local_address :: u32
  ep_local_port :: u16
  ep_queue_head :: u8
  ep_queue_count :: u8
  ep_notify :: bool
  ep_queue :: "net_udp_queued_datagram list"

record udp_packet =
  up_source :: u32
  up_destination :: u32
  up_protocol :: u8
  up_segment :: "u8 list"

record net_udp_stack =
  us_config :: net_udp_config
  us_stats :: net_udp_stats
  us_next_ephemeral :: u16
  us_endpoints :: "net_udp_endpoint list"
  us_sent :: "udp_packet list"
  us_result :: "udp_packet list \<Rightarrow> int"
  us_notified :: "u32 list"

definition zero_datagram :: net_udp_queued_datagram where
  "zero_datagram = \<lparr>dg_source = \<lparr>ua_address = 0, ua_port = 0\<rparr>, dg_destination_address = 0, dg_payload = []\<rparr>"

text \<open>An endpoint whose memory has been zeroed, up to the generation.\<close>

definition zero_endpoint :: "u32 \<Rightarrow> net_udp_endpoint" where
  "zero_endpoint generation =
     \<lparr>ep_generation = generation, ep_active = False, ep_bound = False, ep_local_address = 0,
      ep_local_port = 0, ep_queue_head = 0, ep_queue_count = 0, ep_notify = False,
      ep_queue = replicate NET_UDP_QUEUE_DEPTH zero_datagram\<rparr>"

definition upd_endpoint :: "nat \<Rightarrow> (net_udp_endpoint \<Rightarrow> net_udp_endpoint) \<Rightarrow> net_udp_stack \<Rightarrow> net_udp_stack" where
  "upd_endpoint i f s = s\<lparr>us_endpoints := (us_endpoints s)[i := f (us_endpoints s ! i)]\<rparr>"

definition count_stat :: "(net_udp_stats \<Rightarrow> net_udp_stats) \<Rightarrow> net_udp_stack \<Rightarrow> net_udp_stack" where
  "count_stat f s = s\<lparr>us_stats := f (us_stats s)\<rparr>"

section \<open>Handles and bindings\<close>

definition next_generation :: "u32 \<Rightarrow> u32" where
  "next_generation generation =
     (let generation = (generation + 1) AND UDP_HANDLE_GENERATION_MASK in
      if generation = 0 then 1 else generation)"

definition make_handle :: "nat \<Rightarrow> u32 \<Rightarrow> u32" where
  "make_handle slot generation =
     UDP_HANDLE_TAG OR push_bit 8 (generation AND UDP_HANDLE_GENERATION_MASK) OR of_nat (slot + 1)"

definition lookup_endpoint :: "net_udp_stack \<Rightarrow> u32 \<Rightarrow> nat option" where
  "lookup_endpoint s handle =
     (if handle AND UDP_HANDLE_TAG_MASK \<noteq> UDP_HANDLE_TAG then None
      else
        let encoded_slot = handle AND UDP_HANDLE_SLOT_MASK in
        if encoded_slot = 0 \<or> encoded_slot > of_nat NET_UDP_MAX_ENDPOINTS then None
        else
          let generation = drop_bit 8 handle AND UDP_HANDLE_GENERATION_MASK;
              slot = unat (encoded_slot - 1);
              endpoint = us_endpoints s ! slot in
          if \<not> ep_active endpoint \<or> ep_generation endpoint \<noteq> generation then None else Some slot)"

definition conflicts_with :: "u32 \<Rightarrow> u16 \<Rightarrow> net_udp_endpoint \<Rightarrow> bool" where
  "conflicts_with address port other \<longleftrightarrow>
     ep_active other \<and> ep_bound other \<and> ep_local_port other = port \<and>
     (address = 0 \<or> ep_local_address other = 0 \<or> address = ep_local_address other)"

definition binding_conflicts :: "net_udp_stack \<Rightarrow> nat \<Rightarrow> u32 \<Rightarrow> u16 \<Rightarrow> bool" where
  "binding_conflicts s candidate address port \<longleftrightarrow>
     list_ex (\<lambda>i. i \<noteq> candidate \<and> conflicts_with address port (us_endpoints s ! i))
       [0..<NET_UDP_MAX_ENDPOINTS]"

definition next_port :: "u16 \<Rightarrow> u16" where
  "next_port port = (if port = NET_UDP_EPHEMERAL_LAST then NET_UDP_EPHEMERAL_FIRST else port + 1)"

fun ephemeral_from :: "nat \<Rightarrow> net_udp_stack \<Rightarrow> nat \<Rightarrow> u32 \<Rightarrow> u16 \<Rightarrow> u16 option" where
  "ephemeral_from n s candidate address port =
     (if n = 0 then None
      else if \<not> binding_conflicts s candidate address port then Some port
      else ephemeral_from (n - 1) s candidate address (next_port port))"

declare ephemeral_from.simps [simp del]

definition choose_ephemeral :: "nat \<Rightarrow> u32 \<Rightarrow> net_udp_stack \<Rightarrow> int \<times> u16 \<times> net_udp_stack" where
  "choose_ephemeral candidate address s =
     (let range = 65535 - 49152 + 1;
          port = us_next_ephemeral s;
          port = (if port < NET_UDP_EPHEMERAL_FIRST then NET_UDP_EPHEMERAL_FIRST else port) in
      case ephemeral_from range s candidate address port of
        None \<Rightarrow> (NET_UDP_ERR_ADDRESS_IN_USE, 0, s)
      | Some port \<Rightarrow> (NET_UDP_OK, port, s\<lparr>us_next_ephemeral := next_port port\<rparr>))"

definition net_udp_init :: "net_udp_config option \<Rightarrow> (udp_packet list \<Rightarrow> int) \<Rightarrow> net_udp_stack" where
  "net_udp_init config result =
     \<lparr>us_config = (case config of
          None \<Rightarrow> \<lparr>uc_local_address = 0, uc_allow_zero_checksum = False, uc_ipv4_send = False\<rparr>
        | Some config \<Rightarrow> config),
      us_stats = \<lparr>st_received = 0, st_transmitted = 0, st_dropped_bad_length = 0,
        st_dropped_bad_checksum = 0, st_dropped_oversize = 0, st_dropped_no_endpoint = 0,
        st_dropped_queue_full = 0\<rparr>,
      us_next_ephemeral = NET_UDP_EPHEMERAL_FIRST,
      us_endpoints = replicate NET_UDP_MAX_ENDPOINTS (zero_endpoint 1),
      us_sent = [], us_result = result, us_notified = []\<rparr>"

definition net_udp_set_local_address :: "u32 \<Rightarrow> net_udp_stack \<Rightarrow> net_udp_stack" where
  "net_udp_set_local_address address s = s\<lparr>us_config := (us_config s)\<lparr>uc_local_address := address\<rparr>\<rparr>"

definition net_udp_open :: "bool \<Rightarrow> net_udp_stack \<Rightarrow> int \<times> u32 option \<times> net_udp_stack" where
  "net_udp_open notify s =
     (case find_index (\<lambda>e. \<not> ep_active e) (us_endpoints s) of
        None \<Rightarrow> (NET_UDP_ERR_NO_SLOT, None, s)
      | Some i \<Rightarrow>
          let generation = ep_generation (us_endpoints s ! i);
              generation = (if generation = 0 then 1 else generation) in
          (NET_UDP_OK, Some (make_handle i generation),
           upd_endpoint i (\<lambda>_. (zero_endpoint generation)\<lparr>ep_active := True, ep_notify := notify\<rparr>) s))"

definition net_udp_close :: "u32 \<Rightarrow> net_udp_stack \<Rightarrow> int \<times> net_udp_stack" where
  "net_udp_close handle s =
     (case lookup_endpoint s handle of
        None \<Rightarrow> (NET_UDP_ERR_BAD_HANDLE, s)
      | Some i \<Rightarrow> (NET_UDP_OK, upd_endpoint i (\<lambda>e. zero_endpoint (next_generation (ep_generation e))) s))"

definition net_udp_bind :: "u32 \<Rightarrow> u32 \<Rightarrow> u16 \<Rightarrow> net_udp_stack \<Rightarrow> int \<times> net_udp_stack" where
  "net_udp_bind handle local_address local_port s =
     (case lookup_endpoint s handle of
        None \<Rightarrow> (NET_UDP_ERR_BAD_HANDLE, s)
      | Some i \<Rightarrow>
          if ep_bound (us_endpoints s ! i) then (NET_UDP_ERR_INVALID, s)
          else
            let (result, port, s) =
              (if local_port = 0 then choose_ephemeral i local_address s
               else if binding_conflicts s i local_address local_port
               then (NET_UDP_ERR_ADDRESS_IN_USE, local_port, s) else (NET_UDP_OK, local_port, s)) in
            if result \<noteq> NET_UDP_OK then (result, s)
            else (NET_UDP_OK, upd_endpoint i (\<lambda>e. e\<lparr>ep_local_address := local_address,
                    ep_local_port := port, ep_bound := True\<rparr>) s))"

definition net_udp_get_local :: "u32 \<Rightarrow> net_udp_stack \<Rightarrow> int \<times> net_udp_address option" where
  "net_udp_get_local handle s =
     (case lookup_endpoint s handle of
        None \<Rightarrow> (NET_UDP_ERR_BAD_HANDLE, None)
      | Some i \<Rightarrow>
          let e = us_endpoints s ! i in
          if \<not> ep_bound e then (NET_UDP_ERR_NOT_BOUND, None)
          else (NET_UDP_OK, Some \<lparr>ua_address = ep_local_address e, ua_port = ep_local_port e\<rparr>))"

definition net_udp_pending :: "u32 \<Rightarrow> net_udp_stack \<Rightarrow> int \<times> nat" where
  "net_udp_pending handle s =
     (case lookup_endpoint s handle of
        None \<Rightarrow> (NET_UDP_ERR_BAD_HANDLE, 0)
      | Some i \<Rightarrow> (NET_UDP_OK, unat (ep_queue_count (us_endpoints s ! i))))"

section \<open>Segments\<close>

fun sum_words :: "u32 \<Rightarrow> u8 list \<Rightarrow> u32" where
  "sum_words acc (a # b # rest) = sum_words (acc + checksum_word a b) rest"
| "sum_words acc [a] = acc + push_bit 8 (ucast a)"
| "sum_words acc [] = acc"

definition net_udp_checksum_ipv4 :: "u32 \<Rightarrow> u32 \<Rightarrow> u8 list \<Rightarrow> u16" where
  "net_udp_checksum_ipv4 source destination segment =
     (if length segment > 65535 then 0xffff
      else
        let sum = (drop_bit 16 source AND 0xffff) + (source AND 0xffff)
                + (drop_bit 16 destination AND 0xffff) + (destination AND 0xffff)
                + ucast NET_UDP_IPV4_PROTOCOL + of_nat (length segment) in
        ucast (NOT (checksum_fold (sum_words sum segment)) AND 0xffff))"

definition udp_segment :: "u16 \<Rightarrow> u16 \<Rightarrow> u16 \<Rightarrow> u8 list \<Rightarrow> u8 list" where
  "udp_segment source_port destination_port checksum payload =
     be16 source_port @ be16 destination_port @ be16 (of_nat (UDP_HEADER_SIZE + length payload))
       @ be16 checksum @ payload"

definition net_udp_sendto :: "u32 \<Rightarrow> u32 \<Rightarrow> u16 \<Rightarrow> u8 list \<Rightarrow> net_udp_stack \<Rightarrow> int \<times> net_udp_stack" where
  "net_udp_sendto handle destination_address destination_port payload s =
     (case lookup_endpoint s handle of
        None \<Rightarrow> (NET_UDP_ERR_BAD_HANDLE, s)
      | Some i \<Rightarrow>
          if destination_address = 0 \<or> destination_port = 0 then (NET_UDP_ERR_INVALID, s)
          else if length payload > NET_UDP_MAX_PAYLOAD then (NET_UDP_ERR_MESSAGE_TOO_LARGE, s)
          else
            let (result, s) = (if \<not> ep_bound (us_endpoints s ! i) then net_udp_bind handle 0 0 s
                               else (NET_UDP_OK, s)) in
            if result \<noteq> NET_UDP_OK then (result, s)
            else if \<not> uc_ipv4_send (us_config s) then (NET_UDP_ERR_IO, s)
            else
              let e = us_endpoints s ! i;
                  source_address = (if ep_local_address e \<noteq> 0 then ep_local_address e
                                    else uc_local_address (us_config s));
                  checksum = net_udp_checksum_ipv4 source_address destination_address
                    (udp_segment (ep_local_port e) destination_port 0 payload);
                  segment = udp_segment (ep_local_port e) destination_port
                    (if checksum = 0 then 0xffff else checksum) payload;
                  s = s\<lparr>us_sent := us_sent s @ [\<lparr>up_source = source_address,
                    up_destination = destination_address, up_protocol = NET_UDP_IPV4_PROTOCOL,
                    up_segment = segment\<rparr>]\<rparr>;
                  result = us_result s (us_sent s) in
              if result = NET_UDP_OK
              then (NET_UDP_OK, count_stat (\<lambda>t. t\<lparr>st_transmitted := st_transmitted t + 1\<rparr>) s)
              else (if result < 0 then result else NET_UDP_ERR_IO, s))"

fun destination_from :: "u32 \<Rightarrow> u16 \<Rightarrow> net_udp_endpoint list \<Rightarrow> nat \<Rightarrow> nat option \<Rightarrow> nat option" where
  "destination_from address port [] i wildcard = wildcard"
| "destination_from address port (e # es) i wildcard =
     (if \<not> ep_active e \<or> \<not> ep_bound e \<or> ep_local_port e \<noteq> port
      then destination_from address port es (i + 1) wildcard
      else if ep_local_address e = address then Some i
      else destination_from address port es (i + 1) (if ep_local_address e = 0 then Some i else wildcard))"

definition find_destination :: "net_udp_stack \<Rightarrow> u32 \<Rightarrow> u16 \<Rightarrow> nat option" where
  "find_destination s address port = destination_from address port (us_endpoints s) 0 None"

definition net_udp_receive :: "u32 \<Rightarrow> u32 \<Rightarrow> u8 list \<Rightarrow> net_udp_stack \<Rightarrow> (int \<times> net_udp_stack) option" where
  "net_udp_receive source_address destination_address segment s =
     (if length segment < UDP_HEADER_SIZE \<or> length segment > 65535
      then Some (NET_UDP_ERR_BAD_LENGTH, count_stat (\<lambda>t. t\<lparr>st_dropped_bad_length := st_dropped_bad_length t + 1\<rparr>) s)
      else do {
        wire_length \<leftarrow> net_read_be16 segment 4;
        if unat wire_length < UDP_HEADER_SIZE \<or> unat wire_length \<noteq> length segment
        then Some (NET_UDP_ERR_BAD_LENGTH, count_stat (\<lambda>t. t\<lparr>st_dropped_bad_length := st_dropped_bad_length t + 1\<rparr>) s)
        else if length segment - UDP_HEADER_SIZE > NET_UDP_MAX_PAYLOAD
        then Some (NET_UDP_ERR_MESSAGE_TOO_LARGE, count_stat (\<lambda>t. t\<lparr>st_dropped_oversize := st_dropped_oversize t + 1\<rparr>) s)
        else do {
          wire_checksum \<leftarrow> net_read_be16 segment 6;
          if (if wire_checksum = 0 then \<not> uc_allow_zero_checksum (us_config s)
              else net_udp_checksum_ipv4 source_address destination_address segment \<noteq> 0)
          then Some (NET_UDP_ERR_BAD_CHECKSUM, count_stat (\<lambda>t. t\<lparr>st_dropped_bad_checksum := st_dropped_bad_checksum t + 1\<rparr>) s)
          else do {
            source_port \<leftarrow> net_read_be16 segment 0;
            destination_port \<leftarrow> net_read_be16 segment 2;
            (case (if destination_port = 0 then None else find_destination s destination_address destination_port) of
               None \<Rightarrow> Some (NET_UDP_ERR_NO_ENDPOINT,
                 count_stat (\<lambda>t. t\<lparr>st_dropped_no_endpoint := st_dropped_no_endpoint t + 1\<rparr>) s)
             | Some i \<Rightarrow>
                 let e = us_endpoints s ! i in
                 if ep_queue_count e = of_nat NET_UDP_QUEUE_DEPTH
                 then Some (NET_UDP_ERR_QUEUE_FULL,
                   count_stat (\<lambda>t. t\<lparr>st_dropped_queue_full := st_dropped_queue_full t + 1\<rparr>) s)
                 else do {
                   queue \<leftarrow> store_at (ep_queue e)
                     ((unat (ep_queue_head e) + unat (ep_queue_count e)) mod NET_UDP_QUEUE_DEPTH)
                     \<lparr>dg_source = \<lparr>ua_address = source_address, ua_port = source_port\<rparr>,
                      dg_destination_address = destination_address,
                      dg_payload = drop UDP_HEADER_SIZE segment\<rparr>;
                   let s = upd_endpoint i (\<lambda>e. e\<lparr>ep_queue := queue, ep_queue_count := ep_queue_count e + 1\<rparr>) s;
                   let s = count_stat (\<lambda>t. t\<lparr>st_received := st_received t + 1\<rparr>) s;
                   Some (NET_UDP_OK,
                     if ep_notify e then s\<lparr>us_notified := us_notified s @ [make_handle i (ep_generation e)]\<rparr> else s)
                 })
          }
        }
      })"

text \<open>
  \<open>capacity\<close> is the size of the caller's buffer; a null buffer, which the code accepts with capacity
  0 only, is a buffer of size 0. The result carries the reported length, the bytes copied and the source.
\<close>

definition net_udp_recvfrom ::
  "u32 \<Rightarrow> nat \<Rightarrow> net_udp_stack \<Rightarrow> (int \<times> nat \<times> (u8 list \<times> net_udp_address) option \<times> net_udp_stack) option" where
  "net_udp_recvfrom handle capacity s =
     (case lookup_endpoint s handle of
        None \<Rightarrow> Some (NET_UDP_ERR_BAD_HANDLE, 0, None, s)
      | Some i \<Rightarrow>
          let e = us_endpoints s ! i in
          if ep_queue_count e = 0 then Some (NET_UDP_ERR_WOULD_BLOCK, 0, None, s)
          else do {
            datagram \<leftarrow> load_at (ep_queue e) (unat (ep_queue_head e));
            let size = length (dg_payload datagram);
            if capacity < size then Some (NET_UDP_ERR_BUFFER_TOO_SMALL, size, None, s)
            else do {
              queue \<leftarrow> store_at (ep_queue e) (unat (ep_queue_head e)) zero_datagram;
              Some (NET_UDP_OK, size, Some (dg_payload datagram, dg_source datagram),
                upd_endpoint i (\<lambda>e. e\<lparr>ep_queue := queue,
                  ep_queue_head := of_nat ((unat (ep_queue_head e) + 1) mod NET_UDP_QUEUE_DEPTH),
                  ep_queue_count := ep_queue_count e - 1\<rparr>) s)
            }
          })"

end
