(* ===== verification/Net_Udp_Inv.thy ===== *)
theory Net_Udp_Inv
  imports Net_Udp
begin

text \<open>
  The invariant of a UDP stack; handles and their generations; binding keeps bindings free of conflicts.
\<close>

unbundle bit_operations_syntax

section \<open>The invariant\<close>

definition endpoint_ok :: "net_udp_endpoint \<Rightarrow> bool" where
  "endpoint_ok e \<longleftrightarrow>
     0 < unat (ep_generation e) \<and> unat (ep_generation e) < 1048576 \<and>
     length (ep_queue e) = NET_UDP_QUEUE_DEPTH \<and> unat (ep_queue_head e) < NET_UDP_QUEUE_DEPTH \<and>
     unat (ep_queue_count e) \<le> NET_UDP_QUEUE_DEPTH \<and>
     (\<forall>d \<in> set (ep_queue e). length (dg_payload d) \<le> NET_UDP_MAX_PAYLOAD) \<and>
     (ep_bound e \<longrightarrow> ep_active e \<and> ep_local_port e \<noteq> 0)"

definition separate :: "net_udp_endpoint \<Rightarrow> net_udp_endpoint \<Rightarrow> bool" where
  "separate e f \<longleftrightarrow> (ep_active e \<and> ep_bound e \<longrightarrow> \<not> conflicts_with (ep_local_address e) (ep_local_port e) f)"

definition udp_ok :: "net_udp_stack \<Rightarrow> bool" where
  "udp_ok s \<longleftrightarrow>
     length (us_endpoints s) = NET_UDP_MAX_ENDPOINTS \<and>
     NET_UDP_EPHEMERAL_FIRST \<le> us_next_ephemeral s \<and>
     (\<forall>i < NET_UDP_MAX_ENDPOINTS. endpoint_ok (us_endpoints s ! i)) \<and>
     (\<forall>i < NET_UDP_MAX_ENDPOINTS. \<forall>j < NET_UDP_MAX_ENDPOINTS. i \<noteq> j \<longrightarrow>
        separate (us_endpoints s ! i) (us_endpoints s ! j))"

definition udp_queue :: "net_udp_endpoint \<Rightarrow> net_udp_queued_datagram list" where
  "udp_queue e = ring (ep_queue e) (unat (ep_queue_head e)) (unat (ep_queue_count e))"

lemma udp_okD:
  assumes "udp_ok s"
  shows "length (us_endpoints s) = 16"
    and "i < 16 \<Longrightarrow> endpoint_ok (us_endpoints s ! i)"
    and "i < 16 \<Longrightarrow> j < 16 \<Longrightarrow> i \<noteq> j \<Longrightarrow> separate (us_endpoints s ! i) (us_endpoints s ! j)"
  using assms by (simp_all add: udp_ok_def)

lemma separate_sym: "separate e f \<Longrightarrow> separate f e"
  by (auto simp: separate_def conflicts_with_def)

lemma endpoint_ok_zero: "0 < unat g \<Longrightarrow> unat g < 1048576 \<Longrightarrow> endpoint_ok (zero_endpoint g)"
  by (simp add: endpoint_ok_def zero_endpoint_def zero_datagram_def)

lemma udp_ok_endpoint:
  assumes "udp_ok s" "i < 16" "endpoint_ok (f (us_endpoints s ! i))"
    and "\<And>j. j < 16 \<Longrightarrow> j \<noteq> i \<Longrightarrow> separate (f (us_endpoints s ! i)) (us_endpoints s ! j)"
  shows "udp_ok (upd_endpoint i f s)"
  using assms separate_sym
  by (auto simp: udp_ok_def upd_endpoint_def nth_list_update)

lemma udp_ok_fields [simp]:
  "udp_ok (count_stat f s) = udp_ok s"
  "udp_ok (us_sent_update g s) = udp_ok s"
  "udp_ok (us_notified_update h s) = udp_ok s"
  "udp_ok (us_config_update c s) = udp_ok s"
  by (simp_all add: udp_ok_def count_stat_def)

lemma fields_simps [simp]:
  "us_endpoints (count_stat f s) = us_endpoints s"
  "us_config (count_stat f s) = us_config s"
  "us_endpoints (upd_endpoint i u s) = (us_endpoints s)[i := u (us_endpoints s ! i)]"
  "us_config (upd_endpoint i u s) = us_config s"
  "us_sent (upd_endpoint i u s) = us_sent s"
  "us_sent (count_stat f s) = us_sent s"
  by (simp_all add: count_stat_def upd_endpoint_def)

lemma same_binding_separate:
  "ep_active f = ep_active e \<Longrightarrow> ep_bound f = ep_bound e \<Longrightarrow> ep_local_address f = ep_local_address e \<Longrightarrow>
   ep_local_port f = ep_local_port e \<Longrightarrow> separate e g \<Longrightarrow> separate f g"
  by (simp add: separate_def)

lemma unbound_separate: "\<not> ep_bound e \<Longrightarrow> separate e f"
  by (simp add: separate_def)

section \<open>Handles\<close>

lemma mask20: "(0xfffff :: u32) = mask 20"
  by (simp add: mask_eq_exp_minus_1)

lemma unat_next_generation: "unat (next_generation g) = (if unat (g + 1) mod 1048576 = 0 then 1 else unat (g + 1) mod 1048576)"
proof -
  have "unat ((g + 1) AND 0xfffff) = unat (g + 1) mod 1048576" using unat_mask_and [of "g + 1" 20] by (simp add: mask20)
  moreover have "(g + 1) AND 0xfffff = 0 \<longleftrightarrow> unat ((g + 1) AND 0xfffff) = 0" by (simp only: unat_eq_0)
  ultimately show ?thesis by (simp add: next_generation_def Let_def)
qed

text \<open>The generations run through 1, ..., 1048575 and start again.\<close>

lemma next_generation_cycle:
  assumes "0 < unat g" "unat g < 1048576"
  shows "unat (next_generation g) = unat g mod 1048575 + 1"
proof -
  have "unat (g + 1) = unat g + 1" using assms by (simp add: unat_word_ariths)
  then show ?thesis using assms by (cases "unat g = 1048575") (simp_all add: unat_next_generation)
qed

lemma next_generation_range:
  "0 < unat g \<Longrightarrow> unat g < 1048576 \<Longrightarrow> 0 < unat (next_generation g) \<and> unat (next_generation g) < 1048576"
  using mod_less_divisor [of 1048575 "unat g"] by (simp add: next_generation_cycle)

lemma lookup_endpoint_Some:
  assumes "lookup_endpoint s h = Some i"
  shows "i < 16" "ep_active (us_endpoints s ! i)"
    "ep_generation (us_endpoints s ! i) = drop_bit 8 h AND 0xfffff"
    "i = unat ((h AND 0xff) - 1)"
proof -
  show "ep_active (us_endpoints s ! i)" "ep_generation (us_endpoints s ! i) = drop_bit 8 h AND 0xfffff"
    and i: "i = unat ((h AND 0xff) - 1)"
    using assms by (auto simp: lookup_endpoint_def Let_def split: if_splits)
  have "h AND 0xff \<noteq> 0" "h AND 0xff \<le> 16" using assms by (auto simp: lookup_endpoint_def Let_def split: if_splits)
  then have "unat (h AND 0xff) \<noteq> 0" "unat (h AND 0xff) \<le> 16" by (simp_all add: unat_eq_0 word_le_nat_alt)
  then show "i < 16" unfolding i by (subst unat_sub) (simp_all add: word_le_nat_alt)
qed

lemma unat_slot: "i < 16 \<Longrightarrow> unat (of_nat (i + 1) :: u32) = i + 1"
  unfolding unat_of_nat by (simp del: of_nat_Suc of_nat_add add: take_bit_nat_eq_self)

lemma handle_parts:
  assumes "i < 16" "unat g < 1048576"
  shows "make_handle i g AND 0xf0000000 = 0xd0000000" "make_handle i g AND 0xff = of_nat (i + 1)"
    "drop_bit 8 (make_handle i g) AND 0xfffff = g"
proof -
  define x :: u32 where "x = of_nat (i + 1)"
  have "unat x = i + 1" unfolding x_def using assms(1) by (rule unat_slot)
  then have "unat x < 2 ^ 8" using assms(1) by simp
  then have "x = take_bit 8 x" by (simp add: word_unat_eq_iff unsigned_take_bit_eq take_bit_nat_eq_self)
  then have x: "bit x n \<Longrightarrow> n < 8" for n by (metis bit_take_bit_iff)
  have "g = take_bit 20 g" using assms(2) by (simp add: word_unat_eq_iff unsigned_take_bit_eq take_bit_nat_eq_self)
  then have g: "bit g n \<Longrightarrow> n < 20" for n by (metis bit_take_bit_iff)
  define tag :: u32 where "tag = 0xd0000000"
  have "take_bit 28 tag = 0" by (simp add: tag_def)
  then have t: "bit tag n \<Longrightarrow> 28 \<le> n" for n by (metis bit_take_bit_iff bit_0_eq bot_apply bot_bool_def not_le)
  have c: "(0xf0000000 :: u32) = push_bit 28 (mask 4)" "(0xff :: u32) = mask 8"
    by (simp_all add: mask_eq_exp_minus_1 push_bit_eq_mult)
  note h = make_handle_def x_def [symmetric] tag_def [symmetric] c mask20
  show "make_handle i g AND 0xf0000000 = 0xd0000000" unfolding h
    by (rule bit_word_eqI) (auto simp: bit_simps dest: x g t)
  show "make_handle i g AND 0xff = of_nat (i + 1)" unfolding h
    by (rule bit_word_eqI) (auto simp: bit_simps dest: x g t)
  show "drop_bit 8 (make_handle i g) AND 0xfffff = g" unfolding h
    by (rule bit_word_eqI) (auto simp: bit_simps dest: x g t)
qed

lemma lookup_make_handle:
  assumes "i < 16" "unat g < 1048576"
  shows "lookup_endpoint s (make_handle i g) =
    (if ep_active (us_endpoints s ! i) \<and> ep_generation (us_endpoints s ! i) = g then Some i else None)"
proof -
  define x :: u32 where "x = of_nat (i + 1)"
  have u: "unat x = i + 1" unfolding x_def using assms(1) by (rule unat_slot)
  then have "x \<noteq> 0" "\<not> 16 < x" using assms(1) by (auto simp: word_less_nat_alt)
  moreover have "unat (x - 1) = i" using u by (subst unat_sub) (simp_all add: word_le_nat_alt)
  ultimately show ?thesis
    unfolding lookup_endpoint_def handle_parts [OF assms] Let_def x_def [symmetric] by simp
qed

section \<open>Bindings\<close>

lemma binding_conflicts_iff:
  "binding_conflicts s i a p \<longleftrightarrow> (\<exists>j < 16. j \<noteq> i \<and> conflicts_with a p (us_endpoints s ! j))"
  by (auto simp: binding_conflicts_def list_ex_iff)

lemma next_port_range: "49152 \<le> p \<Longrightarrow> 49152 \<le> next_port p"
proof -
  assume p: "49152 \<le> p"
  show ?thesis
  proof (cases "p = 65535")
    case False
    then have "unat p \<noteq> 65535" by (simp add: word_unat_eq_iff)
    then have "unat (p + 1) = unat p + 1" using u16_less [of p] by (simp add: unat_word_ariths)
    then show ?thesis using p False by (simp add: next_port_def word_le_nat_alt)
  qed (simp add: next_port_def)
qed

lemma ephemeral_from_Some:
  "ephemeral_from n s i a p = Some q \<Longrightarrow> 49152 \<le> p \<Longrightarrow> 49152 \<le> q \<and> \<not> binding_conflicts s i a q"
proof (induction n arbitrary: p)
  case (Suc n)
  then show ?case
    using next_port_range by (subst (asm) (2) ephemeral_from.simps) (auto split: if_splits)
qed (simp add: ephemeral_from.simps)

lemma choose_ephemeral_ok:
  assumes "choose_ephemeral i a s = (r, p, t)"
  shows "us_endpoints t = us_endpoints s \<and> us_config t = us_config s \<and> us_sent t = us_sent s \<and> us_result t = us_result s
    \<and> (udp_ok s \<longrightarrow> udp_ok t) \<and> (r = 0 \<longrightarrow> 49152 \<le> p \<and> \<not> binding_conflicts s i a p)"
proof -
  define q where "q = (if us_next_ephemeral s < 49152 then 49152 else us_next_ephemeral s)"
  have q: "49152 \<le> q" by (simp add: q_def not_less)
  show ?thesis
  proof (cases "ephemeral_from 16384 s i a q")
    case None
    then show ?thesis using assms by (auto simp: choose_ephemeral_def Let_def q_def)
  next
    case (Some v)
    then show ?thesis
      using assms ephemeral_from_Some [OF Some q] next_port_range [of v]
      by (auto simp: choose_ephemeral_def Let_def q_def udp_ok_def)
  qed
qed

definition bound_to :: "u32 \<Rightarrow> u16 \<Rightarrow> net_udp_endpoint \<Rightarrow> net_udp_endpoint" where
  "bound_to a p e = e\<lparr>ep_local_address := a, ep_local_port := p, ep_bound := True\<rparr>"

lemma net_udp_bind_cases:
  assumes "net_udp_bind h a p s = (r, t)"
  obtains "r \<noteq> 0" "us_endpoints t = us_endpoints s" "us_config t = us_config s" "us_sent t = us_sent s" "udp_ok s \<longrightarrow> udp_ok t"
  | i q u where "r = 0" "lookup_endpoint s h = Some i" "\<not> ep_bound (us_endpoints s ! i)"
    "q \<noteq> 0" "p \<noteq> 0 \<longrightarrow> q = p" "p = 0 \<longrightarrow> 49152 \<le> q" "\<not> binding_conflicts s i a q"
    "us_endpoints u = us_endpoints s" "us_config u = us_config s" "us_sent u = us_sent s" "us_result u = us_result s"
    "udp_ok s \<longrightarrow> udp_ok u" "t = upd_endpoint i (bound_to a q) u"
proof (cases "lookup_endpoint s h")
  case None
  then show ?thesis using assms that(1) by (simp add: net_udp_bind_def)
next
  case (Some i)
  show ?thesis
  proof (cases "ep_bound (us_endpoints s ! i)")
    case True
    then show ?thesis using assms Some that(1) by (simp add: net_udp_bind_def)
  next
    case unbound: False
    show ?thesis
    proof (cases "p = 0")
      case True
      obtain r' q u where c: "choose_ephemeral i a s = (r', q, u)" by (cases "choose_ephemeral i a s")
      note ok = choose_ephemeral_ok [OF c]
      show ?thesis
      proof (cases "r' = 0")
        case r: True
        then have "q \<noteq> 0" using ok by auto
        then show ?thesis using that(2) [of i q u] assms Some unbound True c ok r
          by (simp add: net_udp_bind_def bound_to_def [abs_def])
      next
        case False
        then show ?thesis using that(1) assms Some unbound True c ok by (simp add: net_udp_bind_def)
      qed
    next
      case False
      then show ?thesis
        using that(1) that(2) [of i p s] assms Some unbound
        by (auto simp: net_udp_bind_def bound_to_def [abs_def] split: if_splits)
    qed
  qed
qed

lemma net_udp_bind_ok:
  assumes "udp_ok s" "net_udp_bind h a p s = (r, t)"
  shows "udp_ok t"
  using assms(2)
proof (cases rule: net_udp_bind_cases)
  case 1
  then show ?thesis using assms(1) by simp
next
  case (2 i q u)
  note lookup = lookup_endpoint_Some [OF 2(2)]
  show ?thesis unfolding 2(13)
  proof (rule udp_ok_endpoint)
    show "endpoint_ok (bound_to a q (us_endpoints u ! i))"
      using udp_okD(2) [OF assms(1) lookup(1)] lookup(2) 2 by (simp add: endpoint_ok_def bound_to_def)
    show "separate (bound_to a q (us_endpoints u ! i)) (us_endpoints u ! j)" if "j < 16" "j \<noteq> i" for j
      using 2 that by (auto simp: separate_def bound_to_def binding_conflicts_iff)
  qed (use 2 assms(1) lookup in auto)
qed

end
