(* ===== verification/Net_Udp_Ops.thy ===== *)
theory Net_Udp_Ops
  imports Net_Udp_Inv
begin

text \<open>
  The operations of the UDP stack keep the invariant, an endpoint's ring is a bounded queue, and at
  most one endpoint accepts a datagram.
\<close>

unbundle bit_operations_syntax

section \<open>Operations keep the invariant\<close>

lemma net_udp_init_ok: "udp_ok (net_udp_init config result)"
proof -
  have "endpoint_ok (zero_endpoint 1)" by (rule endpoint_ok_zero) simp_all
  moreover have "separate (zero_endpoint 1) (zero_endpoint 1)" by (simp add: unbound_separate zero_endpoint_def)
  ultimately show ?thesis unfolding udp_ok_def net_udp_init_def
    by (simp del: replicate.simps)
qed

lemma net_udp_open_ok:
  assumes "udp_ok s" "net_udp_open notify s = (r, h, t)"
  shows "udp_ok t"
proof (cases "find_index (\<lambda>e. \<not> ep_active e) (us_endpoints s)")
  case (Some i)
  have i: "i < 16" using find_index_Some [OF Some] udp_okD(1) [OF assms(1)] by simp
  note ok = udp_okD(2) [OF assms(1) i]
  have "udp_ok (upd_endpoint i (\<lambda>_. (zero_endpoint (ep_generation (us_endpoints s ! i)))\<lparr>ep_active := True, ep_notify := notify\<rparr>) s)"
    using ok by (intro udp_ok_endpoint [OF assms(1) i])
      (auto simp: endpoint_ok_def zero_endpoint_def zero_datagram_def intro!: unbound_separate)
  moreover have "ep_generation (us_endpoints s ! i) \<noteq> 0" using ok by (auto simp: endpoint_ok_def)
  ultimately show ?thesis using assms(2) Some by (auto simp: net_udp_open_def Let_def)
qed (use assms in \<open>simp add: net_udp_open_def\<close>)

lemma net_udp_close_ok:
  assumes "udp_ok s" "net_udp_close h s = (r, t)"
  shows "udp_ok t"
proof (cases "lookup_endpoint s h")
  case (Some i)
  note i = lookup_endpoint_Some(1) [OF Some]
  have "udp_ok (upd_endpoint i (\<lambda>e. zero_endpoint (next_generation (ep_generation e))) s)"
    using udp_okD(2) [OF assms(1) i] next_generation_range
    by (intro udp_ok_endpoint [OF assms(1) i] endpoint_ok_zero unbound_separate)
      (simp_all add: endpoint_ok_def zero_endpoint_def)
  then show ?thesis using assms(2) Some by (auto simp: net_udp_close_def)
qed (use assms in \<open>simp add: net_udp_close_def\<close>)

definition outgoing :: "net_udp_stack \<Rightarrow> net_udp_endpoint \<Rightarrow> u32 \<Rightarrow> u16 \<Rightarrow> u8 list \<Rightarrow> udp_packet" where
  "outgoing s e dst port payload =
     (let src = (if ep_local_address e \<noteq> 0 then ep_local_address e else uc_local_address (us_config s));
          c = net_udp_checksum_ipv4 src dst (udp_segment (ep_local_port e) port 0 payload)
      in \<lparr>up_source = src, up_destination = dst, up_protocol = 17,
          up_segment = udp_segment (ep_local_port e) port (if c = 0 then 0xffff else c) payload\<rparr>)"

lemma net_udp_sendto_ok:
  assumes "udp_ok s" "net_udp_sendto h dst port payload s = (r, t)"
  shows "udp_ok t"
    and "r = 0 \<Longrightarrow> \<exists>i. lookup_endpoint s h = Some i \<and> port \<noteq> 0 \<and> length payload \<le> 1472 \<and>
      us_sent t = us_sent s @ [outgoing t (us_endpoints t ! i) dst port payload]"
proof -
  have "udp_ok t \<and> (r = 0 \<longrightarrow> (\<exists>i. lookup_endpoint s h = Some i \<and> port \<noteq> 0 \<and> length payload \<le> 1472 \<and>
      us_sent t = us_sent s @ [outgoing t (us_endpoints t ! i) dst port payload]))"
  proof (cases "lookup_endpoint s h")
    case (Some i)
    obtain r' u where u: "(if \<not> ep_bound (us_endpoints s ! i) then net_udp_bind h 0 0 s else (0, s)) = (r', u)"
      by (cases "if \<not> ep_bound (us_endpoints s ! i) then net_udp_bind h 0 0 s else (0, s)")
    have "udp_ok u \<and> us_sent u = us_sent s"
    proof (cases "ep_bound (us_endpoints s ! i)")
      case False
      then have b: "net_udp_bind h 0 0 s = (r', u)" using u by simp
      from b have "us_sent u = us_sent s" by (cases rule: net_udp_bind_cases) simp_all
      then show ?thesis using net_udp_bind_ok [OF assms(1) b] by simp
    qed (use u assms in auto)
    then show ?thesis
      using assms Some unfolding net_udp_sendto_def
      by (auto simp: u Let_def outgoing_def split: if_splits)
  qed (use assms in \<open>simp add: net_udp_sendto_def\<close>)
  then show "udp_ok t" and "r = 0 \<Longrightarrow> \<exists>i. lookup_endpoint s h = Some i \<and> port \<noteq> 0 \<and> length payload \<le> 1472 \<and>
      us_sent t = us_sent s @ [outgoing t (us_endpoints t ! i) dst port payload]" by blast+
qed

section \<open>Queues\<close>

definition enqueue :: "net_udp_queued_datagram \<Rightarrow> net_udp_endpoint \<Rightarrow> net_udp_endpoint" where
  "enqueue d e = e\<lparr>ep_queue := (ep_queue e)[(unat (ep_queue_head e) + unat (ep_queue_count e)) mod NET_UDP_QUEUE_DEPTH := d],
     ep_queue_count := ep_queue_count e + 1\<rparr>"

definition dequeue :: "net_udp_endpoint \<Rightarrow> net_udp_endpoint" where
  "dequeue e = e\<lparr>ep_queue := (ep_queue e)[unat (ep_queue_head e) := zero_datagram],
     ep_queue_head := of_nat ((unat (ep_queue_head e) + 1) mod NET_UDP_QUEUE_DEPTH),
     ep_queue_count := ep_queue_count e - 1\<rparr>"

lemma enqueue_ok:
  assumes "endpoint_ok e" "ep_queue_count e \<noteq> 8" "length (dg_payload d) \<le> 1472"
  shows "endpoint_ok (enqueue d e)" "udp_queue (enqueue d e) = udp_queue e @ [d]"
proof -
  have n: "unat (ep_queue_count e) < 8" using assms by (auto simp: endpoint_ok_def word_unat_eq_iff)
  then have c: "unat (ep_queue_count e + 1) = Suc (unat (ep_queue_count e))" by (simp add: unat_word_ariths)
  show "endpoint_ok (enqueue d e)"
    using assms n c set_update_subset_insert by (fastforce simp: endpoint_ok_def enqueue_def)
  show "udp_queue (enqueue d e) = udp_queue e @ [d]"
    using assms(1) n ring_put_one [of "unat (ep_queue_count e)" "ep_queue e" "unat (ep_queue_head e)" d]
    by (simp add: udp_queue_def enqueue_def c endpoint_ok_def)
qed

lemma ring_other_slot:
  assumes "n < length buf"
  shows "ring (buf[h mod length buf := x]) ((h + 1) mod length buf) n = ring buf ((h + 1) mod length buf) n"
proof -
  have "((h + 1) mod length buf + i) mod length buf \<noteq> h mod length buf" if "i < n" for i
  proof
    assume "((h + 1) mod length buf + i) mod length buf = h mod length buf"
    then have eq: "(h + (1 + i)) mod length buf = (h + 0) mod length buf"
      by (metis mod_add_left_eq add.assoc add_0_right)
    have "1 + i < length buf" "0 < length buf" using assms that by linarith+
    from ring_slots_distinct [OF this eq] show False by simp
  qed
  then have "buf[h mod length buf := x] ! (((h + 1) mod length buf + i) mod length buf) =
      buf ! (((h + 1) mod length buf + i) mod length buf)" if "i < n" for i
    using that by (metis nth_list_update_neq)
  then show ?thesis unfolding ring_def length_list_update by (intro map_cong refl) simp
qed

lemma dequeue_ok:
  assumes "endpoint_ok e" "ep_queue_count e \<noteq> 0"
  shows "endpoint_ok (dequeue e)"
    "udp_queue e = ep_queue e ! unat (ep_queue_head e) # udp_queue (dequeue e)"
proof -
  define h n where "h = unat (ep_queue_head e)" and "n = unat (ep_queue_count e) - 1"
  have q: "length (ep_queue e) = 8" "h < 8" "unat (ep_queue_count e) = Suc n" "n < 8"
    using assms by (auto simp: endpoint_ok_def h_def n_def unat_gt_0)
  have c: "unat (ep_queue_count e - 1) = n" using q by (subst unat_sub) (simp_all add: word_le_nat_alt)
  have "(h + 1) mod 8 < 8" by simp
  then have hd: "unat (of_nat ((h + 1) mod 8) :: u8) = (h + 1) mod 8"
    unfolding unat_of_nat by (intro mod_less) simp
  show "endpoint_ok (dequeue e)"
    using assms(1) q(2,4) hd c set_update_subset_insert [of "ep_queue e" h zero_datagram]
    by (auto simp: endpoint_ok_def dequeue_def h_def zero_datagram_def)
  have "drop 1 (udp_queue e) = udp_queue (dequeue e)"
    using ring_drop [of 1 "Suc n" "ep_queue e" h] ring_other_slot [of n "ep_queue e" h zero_datagram] q hd c
    by (simp add: udp_queue_def dequeue_def h_def)
  moreover have "udp_queue e \<noteq> [] \<and> hd (udp_queue e) = ep_queue e ! h"
    using q by (auto simp: udp_queue_def h_def ring_def hd_map hd_append simp flip: h_def)
  ultimately show "udp_queue e = ep_queue e ! unat (ep_queue_head e) # udp_queue (dequeue e)"
    by (metis drop0 drop_Suc list.collapse One_nat_def h_def)
qed

lemma length_udp_queue: "length (udp_queue e) = unat (ep_queue_count e)"
  by (simp add: udp_queue_def)

lemma queue_binding_simps [simp]:
  "ep_active (enqueue d e) = ep_active e" "ep_bound (enqueue d e) = ep_bound e"
  "ep_local_address (enqueue d e) = ep_local_address e" "ep_local_port (enqueue d e) = ep_local_port e"
  "ep_generation (enqueue d e) = ep_generation e"
  "ep_active (dequeue e) = ep_active e" "ep_bound (dequeue e) = ep_bound e"
  "ep_local_address (dequeue e) = ep_local_address e" "ep_local_port (dequeue e) = ep_local_port e"
  "ep_generation (dequeue e) = ep_generation e"
  by (simp_all add: enqueue_def dequeue_def)

section \<open>Demultiplexing\<close>

definition accepts :: "u32 \<Rightarrow> u16 \<Rightarrow> net_udp_endpoint \<Rightarrow> bool" where
  "accepts a p e \<longleftrightarrow> ep_active e \<and> ep_bound e \<and> ep_local_port e = p \<and> (ep_local_address e = a \<or> ep_local_address e = 0)"

lemma destination_from_Some:
  "destination_from a p es k w = Some i \<Longrightarrow> w = Some i \<or> (\<exists>j < length es. i = k + j \<and> accepts a p (es ! j))"
proof (induction es arbitrary: k w)
  case (Cons e es)
  have "w = Some i \<or> i = k \<and> accepts a p e \<or> (\<exists>j < length es. i = Suc k + j \<and> accepts a p (es ! j))"
    using Cons.prems Cons.IH [of "k + 1"] by (auto simp: accepts_def split: if_splits)
  then show ?case
  proof (elim disjE exE conjE)
    assume "i = k" "accepts a p e"
    then show ?thesis by (intro disjI2 exI [of _ 0]) simp
  next
    fix j assume "j < length es" "i = Suc k + j" "accepts a p (es ! j)"
    then show ?thesis by (intro disjI2 exI [of _ "Suc j"]) simp
  qed simp
qed simp

lemma destination_from_None:
  "destination_from a p es k w = None \<Longrightarrow> w = None \<and> (\<forall>e \<in> set es. \<not> accepts a p e)"
proof (induction es arbitrary: k w)
  case (Cons e es)
  consider "\<not> accepts a p e" "destination_from a p es (k + 1) w = None"
    | "destination_from a p es (k + 1) (Some k) = None"
    using Cons.prems by (auto simp: accepts_def split: if_splits)
  then show ?case using Cons.IH by cases auto
qed simp

lemma accepts_unique:
  assumes "udp_ok s" "i < 16" "j < 16" "accepts a p (us_endpoints s ! i)" "accepts a p (us_endpoints s ! j)"
  shows "i = j"
proof (rule ccontr)
  assume "i \<noteq> j"
  from udp_okD(3) [OF assms(1-3) this] show False
    using assms(4,5) by (auto simp: accepts_def separate_def conflicts_with_def)
qed

lemma find_destination_iff:
  assumes "udp_ok s"
  shows "find_destination s a p = Some i \<longleftrightarrow> i < 16 \<and> accepts a p (us_endpoints s ! i)"
proof
  assume "find_destination s a p = Some i"
  then show "i < 16 \<and> accepts a p (us_endpoints s ! i)"
    using destination_from_Some [of a p "us_endpoints s" 0 None i] udp_okD(1) [OF assms]
    by (auto simp: find_destination_def)
next
  assume i: "i < 16 \<and> accepts a p (us_endpoints s ! i)"
  show "find_destination s a p = Some i"
  proof (cases "find_destination s a p")
    case None
    then show ?thesis
      using destination_from_None [of a p "us_endpoints s" 0 None] i udp_okD(1) [OF assms]
      by (auto simp: find_destination_def)
  next
    case (Some j)
    then have "j < 16 \<and> accepts a p (us_endpoints s ! j)"
      using destination_from_Some [of a p "us_endpoints s" 0 None j] udp_okD(1) [OF assms]
      by (auto simp: find_destination_def)
    then show ?thesis using accepts_unique [OF assms] i Some by blast
  qed
qed

end
