(* ===== verification/Net_Udp_Recv.thy ===== *)
theory Net_Udp_Recv
  imports Net_Udp_Ops
begin

text \<open>
  The checksum of RFC 768, and what receiving a segment and taking a datagram do to the queues.
\<close>

unbundle bit_operations_syntax

section \<open>The checksum\<close>

definition pseudo_header :: "u32 \<Rightarrow> u32 \<Rightarrow> nat \<Rightarrow> u8 list" where
  "pseudo_header src dst n =
     be16 (ucast (drop_bit 16 src)) @ be16 (ucast src) @ be16 (ucast (drop_bit 16 dst)) @ be16 (ucast dst)
       @ be16 17 @ be16 (of_nat n)"

lemma sum_words_eq: "sum_words acc xs = acc + of_nat (word_sum xs)"
proof (induction acc xs rule: sum_words.induct)
  case (1 acc a b rest)
  then show ?case using of_nat_checksum_word [of a b] by (simp add: add.assoc)
next
  case (2 acc a)
  then show ?case using of_nat_checksum_word [of a 0] by (simp add: checksum_word_def)
qed simp

lemma mask16: "(0xffff :: u32) = mask 16"
  by (simp add: mask_eq_exp_minus_1)

lemma unat_half: "unat (ucast (w::u32) :: u16) = unat (w AND 0xffff)"
proof -
  have "unat (w AND 0xffff) = unat w mod 65536" using unat_mask_and [of w 16] by (simp add: mask_eq_exp_minus_1)
  moreover have "unat (ucast w :: u16) = unat w mod 65536" by (simp add: unsigned_ucast_eq take_bit_nat_def)
  ultimately show ?thesis by simp
qed

lemma word_sum_pseudo:
  assumes "n \<le> 65535"
  shows "word_sum (pseudo_header src dst n) =
    unat (drop_bit 16 src AND 0xffff) + unat (src AND 0xffff) + unat (drop_bit 16 dst AND 0xffff)
      + unat (dst AND 0xffff) + 17 + n"
proof -
  have "unat (of_nat n :: u16) = n" unfolding unat_of_nat using assms by (intro mod_less) simp
  moreover have "word_sum (be16 v) = unat v" for v using word_sum_be16 [of v "[]"] by simp
  ultimately show ?thesis unfolding pseudo_header_def word_sum_be16 unat_half by simp
qed

lemma length_pseudo [simp]: "length (pseudo_header src dst n) = 12"
  by (simp add: pseudo_header_def)

lemma udp_checksum_rfc:
  assumes "length segment \<le> 65535"
  shows "net_udp_checksum_ipv4 src dst segment = rfc1071 (pseudo_header src dst (length segment) @ segment)"
proof -
  define data where "data = pseudo_header src dst (length segment) @ segment"
  define acc where "acc = (drop_bit 16 src AND 0xffff) + (src AND 0xffff) + (drop_bit 16 dst AND 0xffff)
      + (dst AND 0xffff) + ucast (17::u8) + (of_nat (length segment) :: u32)"
  have "acc = of_nat (word_sum (pseudo_header src dst (length segment)))"
    unfolding acc_def word_sum_pseudo [OF assms] by (simp add: of_nat_unat)
  then have sum: "sum_words acc segment = of_nat (word_sum data)"
    by (simp add: sum_words_eq data_def word_sum_append)
  have "(length data + 1) div 2 \<le> 65537" using assms by (simp add: data_def)
  then have "word_sum data < 4294967296" using word_sum_le [of data] by linarith
  then have u: "unat (checksum_fold (sum_words acc segment)) = ones_complement (word_sum data)"
    by (simp add: sum unat_checksum_fold unat_of_nat take_bit_nat_eq_self)
  have "ucast (NOT (checksum_fold (sum_words acc segment)) AND 0xffff) = (ucast (NOT (checksum_fold (sum_words acc segment))) :: u16)"
    unfolding mask16 by (rule bit_word_eqI) (simp add: bit_simps)
  also have "\<dots> = of_nat (65535 - ones_complement (word_sum data))"
    using u ones_complement_le by (subst ucast_not) simp_all
  finally show ?thesis
    using assms unfolding net_udp_checksum_ipv4_def rfc1071_def data_def acc_def Let_def by simp
qed

lemma udp_segment_valid:
  assumes "length payload \<le> 1472" "c = net_udp_checksum_ipv4 src dst (udp_segment sp dp 0 payload)"
  shows "net_udp_checksum_ipv4 src dst (udp_segment sp dp (if c = 0 then 0xffff else c) payload) = 0"
proof -
  define n where "n = 8 + length payload"
  define S where "S = word_sum (pseudo_header src dst n @ udp_segment sp dp 0 payload)"
  have len: "length (udp_segment sp dp v payload) = n" for v by (simp add: udp_segment_def n_def)
  have n: "n \<le> 65535" using assms(1) by (simp add: n_def)
  have S: "word_sum (pseudo_header src dst n @ udp_segment sp dp v payload) = S + unat v" for v
    unfolding S_def udp_segment_def by (simp add: word_sum_append word_sum_be16)
  have S0: "S \<noteq> 0" unfolding S_def word_sum_append [of "pseudo_header src dst n", simplified] word_sum_pseudo [OF n] by simp
  have "unat c = 65535 - ones_complement S"
    unfolding assms(2) using udp_checksum_rfc [of "udp_segment sp dp 0 payload"] n by (simp add: len unat_rfc1071 S_def)
  then have "65535 dvd S + unat (if c = 0 then 0xffff else c)"
    using ones_complement_complete [of S] by (auto simp: dvd_add_left_iff)
  then show ?thesis
    using n S0 by (simp add: udp_checksum_rfc len rfc1071_eq_0 ones_complement_full S)
qed

section \<open>Receiving\<close>

definition delivers :: "u32 \<Rightarrow> u32 \<Rightarrow> u8 list \<Rightarrow> u16 \<Rightarrow> nat \<Rightarrow> net_udp_stack \<Rightarrow> net_udp_stack \<Rightarrow> bool" where
  "delivers src dst segment sp i s t \<longleftrightarrow>
     (let d = \<lparr>dg_source = \<lparr>ua_address = src, ua_port = sp\<rparr>, dg_destination_address = dst, dg_payload = drop 8 segment\<rparr>
      in udp_ok t \<and> us_endpoints t = (us_endpoints s)[i := enqueue d (us_endpoints s ! i)] \<and>
         udp_queue (us_endpoints t ! i) = udp_queue (us_endpoints s ! i) @ [d])"

lemma enqueue_delivers:
  assumes "udp_ok s" "i < 16" "ep_queue_count (us_endpoints s ! i) \<noteq> 8" "length (dg_payload d) \<le> 1472"
  shows "udp_ok (upd_endpoint i (enqueue d) s)"
    "udp_queue (enqueue d (us_endpoints s ! i)) = udp_queue (us_endpoints s ! i) @ [d]"
proof -
  note enq = enqueue_ok [OF udp_okD(2) [OF assms(1,2)] assms(3,4)]
  have "separate (enqueue d (us_endpoints s ! i)) (us_endpoints s ! j)" if "j < 16" "j \<noteq> i" for j
    by (rule same_binding_separate [OF _ _ _ _ udp_okD(3) [OF assms(1,2) that(1) that(2) [symmetric]]]) simp_all
  with enq(1) show "udp_ok (upd_endpoint i (enqueue d) s)" by (intro udp_ok_endpoint [OF assms(1,2)])
  show "udp_queue (enqueue d (us_endpoints s ! i)) = udp_queue (us_endpoints s ! i) @ [d]" by (rule enq(2))
qed

text \<open>What happens to a segment that an endpoint accepts.\<close>

lemma net_udp_receive_accepted:
  assumes "udp_ok s" "\<not> (length segment < 8 \<or> 65535 < length segment)"
    and parts: "net_read_be16 segment 0 = Some sp" "net_read_be16 segment 2 = Some dp"
      "net_read_be16 segment 4 = Some wl" "net_read_be16 segment 6 = Some wc"
    and dest: "dp \<noteq> 0" "i < 16" "accepts dst dp (us_endpoints s ! i)"
  shows "if unat wl < 8 \<or> unat wl \<noteq> length segment \<or> length segment - 8 > 1472 \<or>
      (if wc = 0 then \<not> uc_allow_zero_checksum (us_config s) else net_udp_checksum_ipv4 src dst segment \<noteq> 0) \<or>
      ep_queue_count (us_endpoints s ! i) = 8
    then \<exists>r f. net_udp_receive src dst segment s = Some (r, count_stat f s) \<and> r \<noteq> 0
    else \<exists>t. net_udp_receive src dst segment s = Some (0, t) \<and> delivers src dst segment sp i s t"
    (is "if ?drops then _ else _")
proof -
  define e where "e = us_endpoints s ! i"
  define d where "d = \<lparr>dg_source = \<lparr>ua_address = src, ua_port = sp\<rparr>, dg_destination_address = dst, dg_payload = drop 8 segment\<rparr>"
  have to: "(if dp = 0 then None else find_destination s dst dp) = Some i"
    using find_destination_iff [OF assms(1)] dest by simp
  have "endpoint_ok e" using udp_okD(2) [OF assms(1) dest(2)] by (simp add: e_def)
  then have store: "store_at (ep_queue e) ((unat (ep_queue_head e) + unat (ep_queue_count e)) mod 8) d =
      Some (ep_queue (enqueue d e))"
    by (simp add: endpoint_ok_def enqueue_def)
  have upd: "upd_endpoint i (\<lambda>e'. e'\<lparr>ep_queue := ep_queue (enqueue d e), ep_queue_count := ep_queue_count e' + 1\<rparr>) s =
      upd_endpoint i (enqueue d) s"
    by (simp add: upd_endpoint_def enqueue_def e_def)
  note eq = net_udp_receive_def [of src dst segment s, unfolded parts bind.simps to option.case Let_def,
      folded e_def d_def, unfolded store bind.simps upd]
  show ?thesis
  proof (cases ?drops)
    case True
    then have "\<exists>r f. net_udp_receive src dst segment s = Some (r, count_stat f s) \<and> r \<noteq> 0"
      using assms(2) unfolding eq e_def [symmetric] by (cases "wc = 0") (auto split: if_split)
    then show ?thesis using True by simp
  next
    case False
    define t where "t = count_stat (\<lambda>t. t\<lparr>st_received := st_received t + 1\<rparr>) (upd_endpoint i (enqueue d) s)"
    define u where "u = (if ep_notify e then t\<lparr>us_notified := us_notified t @ [make_handle i (ep_generation e)]\<rparr> else t)"
    have recv: "net_udp_receive src dst segment s = Some (0, u)"
      using False assms(2) unfolding eq e_def [symmetric] u_def t_def by simp
    have c: "ep_queue_count (us_endpoints s ! i) \<noteq> 8" using False by blast
    have "length (dg_payload d) \<le> 1472" using False by (simp add: d_def)
    note put = enqueue_delivers [OF assms(1) dest(2) c this]
    have es: "us_endpoints u = (us_endpoints s)[i := enqueue d (us_endpoints s ! i)]" by (simp add: u_def t_def)
    have "udp_ok u" using put(1) by (simp add: u_def t_def)
    moreover have "us_endpoints u ! i = enqueue d e" using es dest(2) udp_okD(1) [OF assms(1)] by (simp add: e_def)
    ultimately have "delivers src dst segment sp i s u"
      unfolding delivers_def d_def [symmetric] Let_def using es put(2) by (simp add: e_def)
    then show ?thesis using False recv by simp
  qed
qed

lemma net_udp_receive_total:
  assumes "udp_ok s"
  shows "\<exists>r t. net_udp_receive src dst segment s = Some (r, t) \<and> udp_ok t \<and>
    (if r = 0
     then \<exists>i dp sp. i < 16 \<and> accepts dst dp (us_endpoints s ! i) \<and> delivers src dst segment sp i s t
     else us_endpoints t = us_endpoints s)"
proof (cases "length segment < 8 \<or> 65535 < length segment")
  case False
  have "net_read_be16 segment k = Some (join_be16 (segment ! k) (segment ! (k + 1)))" if "k \<le> 6" for k
    using False that by (simp add: net_read_be16_def)
  then obtain sp dp wl wc where parts: "net_read_be16 segment 0 = Some sp" "net_read_be16 segment 2 = Some dp"
    "net_read_be16 segment 4 = Some wl" "net_read_be16 segment 6 = Some wc" by force
  show ?thesis
  proof (cases "if dp = 0 then None else find_destination s dst dp")
    case None
    then show ?thesis
      using assms False unfolding net_udp_receive_def [of src dst segment s, unfolded parts bind.simps] by auto
  next
    case (Some i)
    then have i: "dp \<noteq> 0" "i < 16" "accepts dst dp (us_endpoints s ! i)"
      using find_destination_iff [OF assms] by (auto split: if_splits)
    from net_udp_receive_accepted [OF assms False parts i, of src]
    consider r f where "net_udp_receive src dst segment s = Some (r, count_stat f s)" "r \<noteq> 0"
      | t where "net_udp_receive src dst segment s = Some (0, t)" "delivers src dst segment sp i s t"
      by (metis (no_types, lifting))
    then show ?thesis
    proof cases
      case 1
      then show ?thesis using assms by simp
    next
      case (2 t)
      then have "udp_ok t" by (simp add: delivers_def Let_def)
      then show ?thesis using 2 i by auto
    qed
  qed
qed (use assms in \<open>auto simp: net_udp_receive_def\<close>)

lemma udp_segment_parts:
  "net_read_be16 (udp_segment sp dp c payload) 0 = Some sp" "net_read_be16 (udp_segment sp dp c payload) 2 = Some dp"
  "net_read_be16 (udp_segment sp dp c payload) 4 = Some (of_nat (8 + length payload))"
  "net_read_be16 (udp_segment sp dp c payload) 6 = Some c" "drop 8 (udp_segment sp dp c payload) = payload"
  "length (udp_segment sp dp c payload) = 8 + length payload"
  by (simp_all add: udp_segment_def net_read_be16_def be16_def)

lemma unat_segment_length: "length payload \<le> 1472 \<Longrightarrow> unat (of_nat (8 + length payload) :: u16) = 8 + length payload"
  unfolding unat_of_nat by (intro mod_less) simp

lemma net_udp_recvfrom_eq:
  assumes "udp_ok s"
  shows "net_udp_recvfrom h capacity s =
    (case lookup_endpoint s h of
       None \<Rightarrow> Some (- 3, 0, None, s)
     | Some i \<Rightarrow>
         (case udp_queue (us_endpoints s ! i) of
            [] \<Rightarrow> Some (- 11, 0, None, s)
          | d # _ \<Rightarrow>
              if capacity < length (dg_payload d) then Some (- 12, length (dg_payload d), None, s)
              else Some (0, length (dg_payload d), Some (dg_payload d, dg_source d), upd_endpoint i dequeue s)))"
proof (cases "lookup_endpoint s h")
  case (Some i)
  define e where "e = us_endpoints s ! i"
  have ok: "endpoint_ok e" using udp_okD(2) [OF assms lookup_endpoint_Some(1) [OF Some]] by (simp add: e_def)
  show ?thesis
  proof (cases "ep_queue_count e = 0")
    case True
    then have "udp_queue e = []" using length_udp_queue [of e] by simp
    then show ?thesis using Some True by (simp add: net_udp_recvfrom_def e_def)
  next
    case False
    have "unat (ep_queue_head e) < length (ep_queue e)" using ok by (simp add: endpoint_ok_def)
    moreover have "upd_endpoint i (\<lambda>e'. e'\<lparr>ep_queue := (ep_queue e)[unat (ep_queue_head e) := zero_datagram],
        ep_queue_head := of_nat ((unat (ep_queue_head e') + 1) mod 8), ep_queue_count := ep_queue_count e' - 1\<rparr>) s =
        upd_endpoint i dequeue s"
      unfolding upd_endpoint_def dequeue_def e_def ..
    ultimately show ?thesis
      using False unfolding net_udp_recvfrom_def Some option.case Let_def e_def [symmetric] dequeue_ok(2) [OF ok False] list.case
      by simp
  qed
qed (simp add: net_udp_recvfrom_def)

lemma dequeue_keeps:
  assumes "udp_ok s" "lookup_endpoint s h = Some i" "udp_queue (us_endpoints s ! i) = d # q"
  shows "udp_ok (upd_endpoint i dequeue s)" "udp_queue (dequeue (us_endpoints s ! i)) = q"
proof -
  note i = lookup_endpoint_Some(1) [OF assms(2)]
  have "ep_queue_count (us_endpoints s ! i) \<noteq> 0"
    using assms(3) length_udp_queue [of "us_endpoints s ! i"] by auto
  note deq = dequeue_ok [OF udp_okD(2) [OF assms(1) i] this]
  show "udp_queue (dequeue (us_endpoints s ! i)) = q" using deq(2) assms(3) by simp
  show "udp_ok (upd_endpoint i dequeue s)"
    using deq(1) udp_okD(3) [OF assms(1) i] by (intro udp_ok_endpoint [OF assms(1) i] same_binding_separate [of "dequeue e" e for e]) simp_all
qed

lemma net_udp_recvfrom_ok:
  assumes "udp_ok s"
  shows "\<exists>r n m t. net_udp_recvfrom h capacity s = Some (r, n, m, t) \<and> udp_ok t"
proof (cases "lookup_endpoint s h")
  case (Some i)
  then show ?thesis
    using assms dequeue_keeps(1) [OF assms Some]
    by (cases "udp_queue (us_endpoints s ! i)") (simp_all add: net_udp_recvfrom_eq)
qed (use assms in \<open>simp add: net_udp_recvfrom_eq\<close>)

end
