(* ===== verification/Net_Udp_Props.thy ===== *)
theory Net_Udp_Props
  imports Net_Udp_Recv
begin

text \<open>
  Histories of operations on a UDP stack, the life of a handle, ephemeral ports, and the properties of
  the stack.
\<close>

unbundle bit_operations_syntax

section \<open>Histories\<close>

datatype udp_op =
    Set_local u32
  | Open bool
  | Close u32
  | Bind u32 u32 u16
  | Sendto u32 u32 u16 "u8 list"
  | Receive u32 u32 "u8 list"
  | Recvfrom u32 nat

fun udp_exec :: "udp_op \<Rightarrow> net_udp_stack \<Rightarrow> net_udp_stack option" where
  "udp_exec (Set_local a) s = Some (net_udp_set_local_address a s)"
| "udp_exec (Open notify) s = Some (snd (snd (net_udp_open notify s)))"
| "udp_exec (Close h) s = Some (snd (net_udp_close h s))"
| "udp_exec (Bind h a p) s = Some (snd (net_udp_bind h a p s))"
| "udp_exec (Sendto h a p payload) s = Some (snd (net_udp_sendto h a p payload s))"
| "udp_exec (Receive src dst segment) s = map_option snd (net_udp_receive src dst segment s)"
| "udp_exec (Recvfrom h capacity) s = map_option (\<lambda>r. snd (snd (snd r))) (net_udp_recvfrom h capacity s)"

fun is_close :: "udp_op \<Rightarrow> bool" where
  "is_close (Close _) = True"
| "is_close _ = False"

lemma udp_exec_ok:
  assumes "udp_ok s"
  shows "\<exists>t. udp_exec op s = Some t \<and> udp_ok t"
proof (cases op)
  case (Open n)
  then show ?thesis using net_udp_open_ok [OF assms] by (cases "net_udp_open n s") simp
next
  case (Close h)
  then show ?thesis using net_udp_close_ok [OF assms] by (cases "net_udp_close h s") simp
next
  case (Bind h a p)
  then show ?thesis using net_udp_bind_ok [OF assms] by (cases "net_udp_bind h a p s") simp
next
  case (Sendto h a p payload)
  then show ?thesis using net_udp_sendto_ok(1) [OF assms] by (cases "net_udp_sendto h a p payload s") simp
next
  case (Receive src dst segment)
  then show ?thesis using net_udp_receive_total [OF assms, of src dst segment] by auto
next
  case (Recvfrom h n)
  then show ?thesis using net_udp_recvfrom_ok [OF assms, of h n] by auto
qed (use assms in \<open>simp add: net_udp_set_local_address_def\<close>)

lemma udp_history_ok: "udp_ok s \<Longrightarrow> \<exists>t. foldM udp_exec ops s = Some t \<and> udp_ok t"
proof (induction ops arbitrary: s)
  case (Cons op ops)
  then show ?case using udp_exec_ok [OF Cons.prems, of op] by auto
qed simp

text \<open>Only closing an endpoint changes its generation.\<close>

lemma generation_update:
  "ep_generation e = ep_generation (es ! i) \<Longrightarrow> ep_generation (es[i := e] ! j) = ep_generation (es ! j)"
  by (cases "i < length es") (simp_all add: nth_list_update list_update_beyond)

lemma zero_generation: "ep_generation (zero_endpoint g) = g"
  by (simp add: zero_endpoint_def)

lemma generation_nonzero: "endpoint_ok e \<Longrightarrow> ep_generation e \<noteq> 0"
  by (auto simp: endpoint_ok_def)

lemma bind_generation:
  assumes "net_udp_bind h a p s = (r, t)"
  shows "ep_generation (us_endpoints t ! j) = ep_generation (us_endpoints s ! j)"
  using assms by (cases rule: net_udp_bind_cases) (simp_all add: generation_update bound_to_def)

lemma open_generation:
  assumes "udp_ok s" "net_udp_open n s = (r, h, t)"
  shows "ep_generation (us_endpoints t ! j) = ep_generation (us_endpoints s ! j)"
proof (cases "find_index (\<lambda>e. \<not> ep_active e) (us_endpoints s)")
  case (Some i)
  define g where "g = ep_generation (us_endpoints s ! i)"
  have "i < 16" using find_index_Some [OF Some] udp_okD(1) [OF assms(1)] by simp
  then have "g \<noteq> 0" using generation_nonzero [OF udp_okD(2) [OF assms(1)]] by (simp add: g_def)
  then have "t = upd_endpoint i (\<lambda>_. (zero_endpoint g)\<lparr>ep_active := True, ep_notify := n\<rparr>) s"
    using assms(2) by (simp add: net_udp_open_def Some Let_def g_def)
  then show ?thesis by (simp add: generation_update zero_generation g_def)
qed (use assms(2) in \<open>simp add: net_udp_open_def\<close>)

lemma sendto_endpoints:
  "us_endpoints (snd (net_udp_sendto h a p payload s)) \<in> {us_endpoints s, us_endpoints (snd (net_udp_bind h 0 0 s))}"
  by (cases "net_udp_bind h 0 0 s"; cases "lookup_endpoint s h")
    (simp_all add: net_udp_sendto_def Let_def)

lemma close_generation:
  assumes "j < length (us_endpoints s)" "net_udp_close h s = (r, t)"
  shows "ep_generation (us_endpoints t ! j) =
    (if lookup_endpoint s h = Some j then next_generation (ep_generation (us_endpoints s ! j))
     else ep_generation (us_endpoints s ! j))"
proof (cases "lookup_endpoint s h")
  case (Some i)
  then have "t = upd_endpoint i (\<lambda>e. zero_endpoint (next_generation (ep_generation e))) s"
    using assms(2) by (simp add: net_udp_close_def)
  then show ?thesis using assms(1) Some by (cases "i = j") (simp_all add: zero_generation)
qed (use assms(2) in \<open>simp add: net_udp_close_def\<close>)

lemma udp_exec_generation:
  assumes "udp_ok s" "udp_exec op s = Some t" "j < 16"
  shows "ep_generation (us_endpoints t ! j) = ep_generation (us_endpoints s ! j) \<or>
    is_close op \<and> ep_generation (us_endpoints t ! j) = next_generation (ep_generation (us_endpoints s ! j))"
proof (cases op)
  case (Open n)
  then show ?thesis using assms(2) open_generation [OF assms(1)] by (cases "net_udp_open n s") auto
next
  case (Close h)
  have "j < length (us_endpoints s)" using udp_okD(1) [OF assms(1)] assms(3) by simp
  then show ?thesis using assms(2) Close close_generation [of j s h] by (cases "net_udp_close h s") simp
next
  case (Bind h a p)
  then show ?thesis using assms(2) bind_generation by (cases "net_udp_bind h a p s") auto
next
  case (Sendto h a p payload)
  obtain r u where "net_udp_bind h 0 0 s = (r, u)" by (cases "net_udp_bind h 0 0 s")
  then show ?thesis using assms(2) Sendto sendto_endpoints [of h a p payload s] bind_generation by auto
next
  case (Receive src dst segment)
  obtain r where "net_udp_receive src dst segment s = Some (r, t)" using assms(2) Receive by auto
  then have "us_endpoints t = us_endpoints s \<or> (\<exists>i d. us_endpoints t = (us_endpoints s)[i := enqueue d (us_endpoints s ! i)])"
    using net_udp_receive_total [OF assms(1), of src dst segment] by (auto simp: delivers_def Let_def split: if_splits)
  then show ?thesis by (auto simp: generation_update)
next
  case (Recvfrom h n)
  then have "us_endpoints t = us_endpoints s \<or> (\<exists>i. us_endpoints t = (us_endpoints s)[i := dequeue (us_endpoints s ! i)])"
    using assms(2) by (auto simp: net_udp_recvfrom_eq [OF assms(1)] split: option.splits list.splits if_splits)
  then show ?thesis by (auto simp: generation_update)
qed (use assms(2) in \<open>auto simp: net_udp_set_local_address_def\<close>)

lemma generation_after:
  assumes "udp_ok s" "foldM udp_exec ops s = Some t" "j < 16"
  shows "\<exists>k \<le> length (filter is_close ops).
    unat (ep_generation (us_endpoints t ! j)) = (unat (ep_generation (us_endpoints s ! j)) - 1 + k) mod 1048575 + 1"
  using assms(1,2)
proof (induction ops arbitrary: s)
  case Nil
  then have "unat (ep_generation (us_endpoints s ! j)) - 1 < 1048575" "0 < unat (ep_generation (us_endpoints s ! j))"
    using udp_okD(2) [OF Nil(1) assms(3)] by (auto simp: endpoint_ok_def)
  then show ?case using Nil by simp
next
  case (Cons op ops)
  obtain u where u: "udp_exec op s = Some u" "udp_ok u" using udp_exec_ok [OF Cons.prems(1)] by blast
  then obtain k where k: "k \<le> length (filter is_close ops)"
    "unat (ep_generation (us_endpoints t ! j)) = (unat (ep_generation (us_endpoints u ! j)) - 1 + k) mod 1048575 + 1"
    using Cons.IH [of u] Cons.prems by auto
  define g where "g = ep_generation (us_endpoints s ! j)"
  have g: "0 < unat g" "unat g < 1048576" using udp_okD(2) [OF Cons.prems(1) assms(3)] by (simp_all add: endpoint_ok_def g_def)
  from udp_exec_generation [OF Cons.prems(1) u(1) assms(3)] show ?case
  proof
    assume "ep_generation (us_endpoints u ! j) = ep_generation (us_endpoints s ! j)"
    then show ?thesis using k by (intro exI [of _ k]) auto
  next
    assume c: "is_close op \<and> ep_generation (us_endpoints u ! j) = next_generation (ep_generation (us_endpoints s ! j))"
    have "unat g - 1 + (k + 1) = unat g + k" using g by linarith
    then have "(unat g mod 1048575 + k) mod 1048575 = (unat g - 1 + (k + 1)) mod 1048575"
      by (simp only: mod_add_left_eq)
    then have "unat (ep_generation (us_endpoints t ! j)) = (unat g - 1 + (k + 1)) mod 1048575 + 1"
      using k(2) c next_generation_cycle [OF g] by (simp only: g_def add_diff_cancel_right')
    moreover have "k + 1 \<le> length (filter is_close (op # ops))" using k(1) c by simp
    ultimately show ?thesis unfolding g_def by blast
  qed
qed

section \<open>Ephemeral ports\<close>

text \<open>The \<open>n\<close>-th port the search tries after \<open>p\<close>, counting from the first ephemeral port.\<close>

lemma unat_next_port:
  assumes "49152 \<le> unat p"
  shows "unat (next_port p) = 49152 + (unat p - 49152 + 1) mod 16384"
proof (cases "unat p = 65535")
  case True
  then have "p = 65535" by (simp add: word_unat_eq_iff)
  then show ?thesis by (simp add: next_port_def)
next
  case False
  then have p: "unat p < 65535" "p \<noteq> 65535" using u16_less [of p] by auto
  then have "unat (p + 1) = unat p + 1" by (simp add: unat_word_ariths)
  moreover have "(unat p - 49152 + 1) mod 16384 = unat p - 49152 + 1" using p assms by (intro mod_less) linarith
  ultimately show ?thesis using p assms by (simp add: next_port_def)
qed

lemma unat_next_ports:
  "49152 \<le> unat p \<Longrightarrow> unat ((next_port ^^ n) p) = 49152 + (unat p - 49152 + n) mod 16384"
proof (induction n)
  case 0
  then have "unat p - 49152 < 16384" using u16_less [of p] by linarith
  then show ?case using 0 by simp
next
  case (Suc n)
  then have "49152 \<le> unat ((next_port ^^ n) p)" by linarith
  from unat_next_port [OF this] Suc show ?case by (simp add: mod_Suc_eq)
qed

lemma ephemeral_from_None:
  "ephemeral_from n s i a p = None \<Longrightarrow> k < n \<Longrightarrow> binding_conflicts s i a ((next_port ^^ k) p)"
proof (induction n arbitrary: p k)
  case (Suc n)
  then have c: "binding_conflicts s i a p" "ephemeral_from n s i a (next_port p) = None"
    by (subst (asm) (2) ephemeral_from.simps, simp split: if_splits)+
  then show ?case using Suc.IH [OF c(2)] Suc.prems(2) by (cases k) (simp_all add: funpow_swap1)
qed simp

text \<open>Sixteen different ports cannot all be taken by fifteen other endpoints.\<close>

lemma ephemeral_exists:
  assumes "i < 16" "49152 \<le> p"
  shows "ephemeral_from 16384 s i a p \<noteq> None"
proof
  assume none: "ephemeral_from 16384 s i a p = None"
  define port where "port k = (next_port ^^ k) p" for k
  have "49152 \<le> unat p" using assms(2) by (simp add: word_le_nat_alt)
  note up = unat_next_ports [OF this, folded port_def]
  have "inj_on port {..<16}"
  proof (rule inj_onI)
    fix k l assume k: "k \<in> {..<16}" "l \<in> {..<16}" and "port k = port l"
    then have eq: "(unat p - 49152 + k) mod 16384 = (unat p - 49152 + l) mod 16384" using up [of k] up [of l] by simp
    have "k < 16384" "l < 16384" using k by simp_all
    then show "k = l" using ring_slots_distinct [OF _ _ eq] by blast
  qed
  then have "card (port ` {..<16}) = 16" by (simp add: card_image)
  moreover have "port ` {..<16} \<subseteq> (\<lambda>j. ep_local_port (us_endpoints s ! j)) ` ({..<16} - {i})"
  proof
    fix q assume "q \<in> port ` {..<16}"
    then obtain k where "k < 16" "q = port k" by auto
    then have "binding_conflicts s i a q" using ephemeral_from_None [OF none, of k] by (simp add: port_def)
    then show "q \<in> (\<lambda>j. ep_local_port (us_endpoints s ! j)) ` ({..<16} - {i})"
      by (auto simp: binding_conflicts_iff conflicts_with_def)
  qed
  from card_mono [OF _ this] have "card (port ` {..<16}) \<le> card ({..<16} - {i})"
    using card_image_le [of "{..<16} - {i}"] by (meson finite_Diff finite_imageI finite_lessThan le_trans)
  ultimately show False using assms(1) by simp
qed

lemma choose_ephemeral_succeeds:
  assumes "i < 16"
  obtains p t where "choose_ephemeral i a s = (0, p, t)"
proof -
  define q where "q = (if us_next_ephemeral s < 49152 then 49152 else us_next_ephemeral s)"
  have "49152 \<le> q" by (simp add: q_def not_less)
  from ephemeral_exists [OF assms this, of s a] obtain p where "ephemeral_from 16384 s i a q = Some p" by blast
  then show ?thesis using that by (simp add: choose_ephemeral_def Let_def q_def)
qed

section \<open>Sending\<close>

text \<open>After a successful \<open>net_udp_sendto\<close> the handle denotes the same endpoint, now bound.\<close>

lemma lookup_endpoint_cong:
  assumes "lookup_endpoint s h = Some i" "ep_active (us_endpoints t ! i)"
    "ep_generation (us_endpoints t ! i) = ep_generation (us_endpoints s ! i)"
  shows "lookup_endpoint t h = Some i"
  using assms(1) assms(2,3) lookup_endpoint_Some(2-4) [OF assms(1)]
  unfolding lookup_endpoint_def [of t] Let_def lookup_endpoint_def [of s]
  by (simp split: if_split_asm)

lemma net_udp_bind_bound:
  assumes "udp_ok s" "lookup_endpoint s h = Some i" "net_udp_bind h a p s = (0, t)"
  shows "lookup_endpoint t h = Some i \<and> ep_bound (us_endpoints t ! i) \<and> ep_local_address (us_endpoints t ! i) = a
    \<and> (p = 0 \<longrightarrow> 49152 \<le> ep_local_port (us_endpoints t ! i))"
  using assms(3)
proof (cases rule: net_udp_bind_cases)
  case (2 j q u)
  then have "us_endpoints t ! i = bound_to a q (us_endpoints s ! i)"
    using assms(2) lookup_endpoint_Some(1) [OF assms(2)] udp_okD(1) [OF assms(1)] by simp
  then show ?thesis
    using lookup_endpoint_cong [OF assms(2), of t] lookup_endpoint_Some(2) [OF assms(2)] 2 by (simp add: bound_to_def)
qed simp

lemma net_udp_sendto_bound:
  assumes "udp_ok s" "lookup_endpoint s h = Some i" "net_udp_sendto h dst port payload s = (0, t)"
  shows "lookup_endpoint t h = Some i \<and> ep_bound (us_endpoints t ! i)"
proof (cases "ep_bound (us_endpoints s ! i)")
  case True
  then have "us_endpoints t = us_endpoints s"
    using assms(2,3) by (auto simp: net_udp_sendto_def Let_def split: if_splits)
  then show ?thesis
    using True lookup_endpoint_cong [OF assms(2), of t] lookup_endpoint_Some(2) [OF assms(2)] by simp
next
  case False
  obtain r u where b: "net_udp_bind h 0 0 s = (r, u)" by (cases "net_udp_bind h 0 0 s")
  then have u: "r = 0" "us_endpoints t = us_endpoints u"
    using False assms(2,3) by (auto simp: net_udp_sendto_def Let_def split: if_splits)
  from net_udp_bind_bound [OF assms(1,2) b [unfolded u(1)]] have bound: "lookup_endpoint u h = Some i" "ep_bound (us_endpoints u ! i)" by simp_all
  then show ?thesis using lookup_endpoint_cong [OF bound(1), of t] lookup_endpoint_Some(2) [OF bound(1)] u(2) by simp
qed

section \<open>Queues\<close>

lemma receive_queues:
  assumes "udp_ok s"
  shows "\<exists>r t. net_udp_receive src dst segment s = Some (r, t) \<and>
      (if r = 0
       then \<exists>i dp d. {j. j < 16 \<and> accepts dst dp (us_endpoints s ! j)} = {i} \<and> dg_payload d = drop 8 segment \<and>
         map udp_queue (us_endpoints t) = (map udp_queue (us_endpoints s))[i := udp_queue (us_endpoints s ! i) @ [d]]
       else map udp_queue (us_endpoints t) = map udp_queue (us_endpoints s))"
proof -
  obtain r t where rt: "net_udp_receive src dst segment s = Some (r, t)"
    "if r = 0 then \<exists>i dp sp. i < 16 \<and> accepts dst dp (us_endpoints s ! i) \<and> delivers src dst segment sp i s t
     else us_endpoints t = us_endpoints s"
    using net_udp_receive_total [OF assms] by blast
  have "\<exists>i dp d. {j. j < 16 \<and> accepts dst dp (us_endpoints s ! j)} = {i} \<and> dg_payload d = drop 8 segment \<and>
      map udp_queue (us_endpoints t) = (map udp_queue (us_endpoints s))[i := udp_queue (us_endpoints s ! i) @ [d]]"
    if stored: "r = 0"
  proof -
    obtain i dp sp where i: "i < 16" "accepts dst dp (us_endpoints s ! i)" "delivers src dst segment sp i s t"
      using rt(2) stored by auto
    define d where "d = \<lparr>dg_source = \<lparr>ua_address = src, ua_port = sp\<rparr>, dg_destination_address = dst, dg_payload = drop 8 segment\<rparr>"
    have "{j. j < 16 \<and> accepts dst dp (us_endpoints s ! j)} = {i}" using accepts_unique [OF assms] i(1,2) by blast
    moreover have "i < length (us_endpoints s)" using i(1) udp_okD(1) [OF assms] by simp
    then have "map udp_queue (us_endpoints t) = (map udp_queue (us_endpoints s))[i := udp_queue (us_endpoints s ! i) @ [d]]"
      using i(3) unfolding delivers_def Let_def d_def [symmetric] by (metis map_update nth_list_update_eq)
    moreover have "dg_payload d = drop 8 segment" by (simp add: d_def)
    ultimately show ?thesis by blast
  qed
  then show ?thesis using rt by auto
qed

section \<open>Properties\<close>

definition udp_host :: "u32 \<Rightarrow> net_udp_stack" where
  "udp_host a = the (foldM udp_exec [Open True, Bind 0xd0000101 0 53]
     (net_udp_init (Some \<lparr>uc_local_address = a, uc_allow_zero_checksum = False, uc_ipv4_send = True\<rparr>) (\<lambda>_. 0)))"

lemma udp_host_ok: "udp_ok (udp_host a)"
  using udp_history_ok [OF net_udp_init_ok] unfolding udp_host_def by (metis option.sel)

text \<open>C30. Every sequence of calls on a UDP stack, with arbitrary handles, addresses, ports, payloads, buffer
  sizes and received segments, runs without an access outside a queue or a segment, and keeps the
  invariant: sixteen endpoints with generations between 1 and 1048575, ring indices inside the queues,
  payloads of at most 1472 bytes, bound endpoints active with a port, and no two bindings that conflict.\<close>

theorem udp_history_safe: "\<exists>s. foldM udp_exec ops (net_udp_init config result) = Some s \<and> udp_ok s"
  by (rule udp_history_ok [OF net_udp_init_ok])

text \<open>C31. A datagram sent by \<open>net_udp_sendto\<close> and handed by the network to another stack arrives: if an
  endpoint there accepts the destination and its queue has room, \<open>net_udp_receive\<close> accepts the segment,
  its checksum included, and appends exactly the payload to the queue of that endpoint, with the
  sender's address and the port the sending handle is bound to.\<close>

theorem udp_roundtrip:
  assumes "udp_ok s" "udp_ok r" "net_udp_sendto h dst port payload s = (0, s')"
    and "i < 16" "accepts dst port (us_endpoints r ! i)" "ep_queue_count (us_endpoints r ! i) \<noteq> 8"
  shows "\<exists>p a r'. us_sent s' = us_sent s @ [p] \<and> net_udp_get_local h s' = (0, Some a) \<and>
    net_udp_receive (up_source p) (up_destination p) (up_segment p) r = Some (0, r') \<and>
    udp_queue (us_endpoints r' ! i) = udp_queue (us_endpoints r ! i) @
      [\<lparr>dg_source = \<lparr>ua_address = up_source p, ua_port = ua_port a\<rparr>, dg_destination_address = dst, dg_payload = payload\<rparr>]"
proof -
  obtain j where j: "lookup_endpoint s h = Some j" "port \<noteq> 0" "length payload \<le> 1472"
    "us_sent s' = us_sent s @ [outgoing s' (us_endpoints s' ! j) dst port payload]"
    using net_udp_sendto_ok(2) [OF assms(1,3)] by blast
  define e where "e = us_endpoints s' ! j"
  define p where "p = outgoing s' e dst port payload"
  define c where "c = net_udp_checksum_ipv4 (up_source p) dst (udp_segment (ep_local_port e) port 0 payload)"
  define w where "w = (if c = 0 then 0xffff else c)"
  have seg: "up_segment p = udp_segment (ep_local_port e) port w payload" "up_destination p = dst"
    by (simp_all add: p_def outgoing_def Let_def w_def c_def)
  have "net_udp_checksum_ipv4 (up_source p) dst (up_segment p) = 0"
    unfolding seg w_def by (rule udp_segment_valid [OF j(3) c_def])
  moreover have "w \<noteq> 0" by (simp add: w_def)
  moreover note parts = udp_segment_parts [of "ep_local_port e" port w payload, folded seg(1)]
  ultimately obtain r' where r': "net_udp_receive (up_source p) dst (up_segment p) r = Some (0, r')"
    "delivers (up_source p) dst (up_segment p) (ep_local_port e) i r r'"
    using net_udp_receive_accepted [OF assms(2) _ parts(1-4) j(2) assms(4,5), of "up_source p"] assms(6) j(3)
      parts(6) unat_segment_length [OF j(3)] by (simp del: of_nat_add) blast
  have "lookup_endpoint s' h = Some j" "ep_bound e"
    using net_udp_sendto_bound [OF assms(1) j(1) assms(3)] by (simp_all add: e_def)
  then have "net_udp_get_local h s' = (0, Some \<lparr>ua_address = ep_local_address e, ua_port = ep_local_port e\<rparr>)"
    by (simp add: net_udp_get_local_def Let_def e_def)
  moreover have "us_sent s' = us_sent s @ [p]" using j(4) by (simp add: p_def e_def)
  moreover have "udp_queue (us_endpoints r' ! i) = udp_queue (us_endpoints r ! i) @
      [\<lparr>dg_source = \<lparr>ua_address = up_source p, ua_port = ep_local_port e\<rparr>, dg_destination_address = dst, dg_payload = payload\<rparr>]"
    using r'(2) unfolding delivers_def Let_def parts(5) by blast
  ultimately show ?thesis using r'(1) seg(2) by (metis net_udp_address.select_convs(2))
qed

theorem udp_roundtrip_witness:
  "\<exists>p a r'. us_sent (snd (net_udp_sendto 0xd0000101 0x0a000002 53 [1, 2, 3] (udp_host 0x0a000001))) = [p] \<and>
    net_udp_get_local 0xd0000101 (snd (net_udp_sendto 0xd0000101 0x0a000002 53 [1, 2, 3] (udp_host 0x0a000001))) = (0, Some a) \<and>
    net_udp_receive (up_source p) (up_destination p) (up_segment p) (udp_host 0x0a000002) = Some (0, r') \<and>
    udp_queue (us_endpoints r' ! 0) =
      [\<lparr>dg_source = \<lparr>ua_address = up_source p, ua_port = ua_port a\<rparr>, dg_destination_address = 0x0a000002, dg_payload = [1, 2, 3]\<rparr>]"
proof -
  have "lookup_endpoint (udp_host 0x0a000001) 0xd0000101 = Some 0" by code_simp
  moreover have "ep_bound (us_endpoints (udp_host 0x0a000001) ! 0)" by code_simp
  moreover have "uc_ipv4_send (us_config (udp_host 0x0a000001))" by code_simp
  moreover have "us_result (udp_host 0x0a000001) ps = 0" for ps by code_simp
  ultimately have "fst (net_udp_sendto 0xd0000101 0x0a000002 53 [1, 2, 3] (udp_host 0x0a000001)) = 0"
    by (simp add: net_udp_sendto_def Let_def)
  then have send: "net_udp_sendto 0xd0000101 0x0a000002 53 [1, 2, 3] (udp_host 0x0a000001) =
    (0, snd (net_udp_sendto 0xd0000101 0x0a000002 53 [1, 2, 3] (udp_host 0x0a000001)))" by (simp add: prod_eq_iff)
  have acc: "accepts 0x0a000002 53 (us_endpoints (udp_host 0x0a000002) ! 0)" by code_simp
  have room: "ep_queue_count (us_endpoints (udp_host 0x0a000002) ! 0) \<noteq> 8" by code_simp
  have sent: "us_sent (udp_host 0x0a000001) = []" by code_simp
  have queue: "udp_queue (us_endpoints (udp_host 0x0a000002) ! 0) = []" by code_simp
  from udp_roundtrip [OF udp_host_ok udp_host_ok send _ acc room] show ?thesis unfolding sent queue append_Nil by simp
qed

text \<open>C33. A closed handle stays dead: after \<open>net_udp_close\<close> of a valid handle, every later lookup of it fails,
  whatever calls are made in between and however often its slot is reused, as long as they contain
  fewer than 1048574 calls of \<open>net_udp_close\<close>, the number after which the 20-bit generation of a slot
  can come back.\<close>

theorem udp_stale_handle:
  assumes "udp_ok s" "lookup_endpoint s h = Some i" "net_udp_close h s = (r, t)"
    and "foldM udp_exec ops t = Some u" "length (filter is_close ops) < 1048574"
  shows "lookup_endpoint u h = None"
proof (rule ccontr)
  assume "lookup_endpoint u h \<noteq> None"
  then obtain j where j: "lookup_endpoint u h = Some j" by blast
  note s = lookup_endpoint_Some [OF assms(2)] and u = lookup_endpoint_Some [OF j]
  have i: "j = i" using s(4) u(4) by simp
  define g where "g = ep_generation (us_endpoints s ! i)"
  have g: "0 < unat g" "unat g < 1048576" using udp_okD(2) [OF assms(1) s(1)] by (simp_all add: g_def endpoint_ok_def)
  have "ep_generation (us_endpoints t ! i) = next_generation g"
    using close_generation [OF _ assms(3), of i] s(1) assms(2) udp_okD(1) [OF assms(1)] by (simp add: g_def)
  then have t: "unat (ep_generation (us_endpoints t ! i)) - 1 = unat g mod 1048575"
    using next_generation_cycle [OF g] by simp
  from generation_after [OF net_udp_close_ok [OF assms(1,3)] assms(4) s(1)] obtain k
    where k: "k \<le> length (filter is_close ops)"
      "unat (ep_generation (us_endpoints u ! i)) = (unat g mod 1048575 + k) mod 1048575 + 1"
    unfolding t by blast
  have "ep_generation (us_endpoints u ! i) = g" using s(3) u(3) i by (simp add: g_def)
  then have "unat g - 1 = (unat g + k) mod 1048575" using k(2) by (simp only: mod_add_left_eq)
  moreover have "unat g + k = unat g - 1 + (k + 1)" "unat g - 1 < 1048575" using g by linarith+
  ultimately have "(unat g - 1 + 0) mod 1048575 = (unat g - 1 + (k + 1)) mod 1048575" by (simp only: mod_less add_0_right)
  moreover have "k + 1 < 1048575" using k(1) assms(5) by linarith
  ultimately have "0 = k + 1" by (intro ring_slots_distinct [of 0 1048575 "k + 1" "unat g - 1"]) simp_all
  then show False by simp
qed

theorem udp_stale_handle_witness:
  "lookup_endpoint (the (foldM udp_exec [Open True] (snd (net_udp_close 0xd0000101 (udp_host 1))))) 0xd0000101 = None"
proof -
  have l: "lookup_endpoint (udp_host 1) 0xd0000101 = Some 0" by code_simp
  have c: "net_udp_close 0xd0000101 (udp_host 1) =
    (fst (net_udp_close 0xd0000101 (udp_host 1)), snd (net_udp_close 0xd0000101 (udp_host 1)))" by simp
  have f: "foldM udp_exec [Open True] (snd (net_udp_close 0xd0000101 (udp_host 1))) =
    Some (the (foldM udp_exec [Open True] (snd (net_udp_close 0xd0000101 (udp_host 1)))))" by simp
  show ?thesis by (rule udp_stale_handle [OF udp_host_ok l c f]) simp
qed

text \<open>C34. Binding to port 0 always succeeds: an unbound endpoint gets a port of the ephemeral range that
  conflicts with no other binding, since fifteen other endpoints cannot occupy sixteen ports, and
  \<open>net_udp_get_local\<close> then reports it.\<close>

theorem udp_ephemeral_bind:
  assumes "udp_ok s" "lookup_endpoint s h = Some i" "\<not> ep_bound (us_endpoints s ! i)"
  shows "\<exists>p t. net_udp_bind h a 0 s = (0, t) \<and> udp_ok t \<and>
    net_udp_get_local h t = (0, Some \<lparr>ua_address = a, ua_port = p\<rparr>) \<and> 49152 \<le> p"
proof -
  obtain q u where "choose_ephemeral i a s = (0, q, u)"
    using choose_ephemeral_succeeds [OF lookup_endpoint_Some(1) [OF assms(2)]] by blast
  then obtain t where t: "net_udp_bind h a 0 s = (0, t)" using assms(2,3) by (simp add: net_udp_bind_def)
  then show ?thesis
    using net_udp_bind_bound [OF assms(1,2) t] net_udp_bind_ok [OF assms(1) t]
    by (auto simp: net_udp_get_local_def)
qed

theorem udp_ephemeral_bind_witness:
  "\<exists>p t. net_udp_bind 0xd0000102 0 0 (the (udp_exec (Open False) (udp_host 1))) = (0, t) \<and> udp_ok t \<and>
    net_udp_get_local 0xd0000102 t = (0, Some \<lparr>ua_address = 0, ua_port = p\<rparr>) \<and> 49152 \<le> p"
proof (rule udp_ephemeral_bind)
  show "udp_ok (the (udp_exec (Open False) (udp_host 1)))"
    using udp_exec_ok [OF udp_host_ok] by (metis option.sel)
  show "lookup_endpoint (the (udp_exec (Open False) (udp_host 1))) 0xd0000102 = Some 1" by code_simp
  show "\<not> ep_bound (us_endpoints (the (udp_exec (Open False) (udp_host 1))) ! 1)" by code_simp
qed



end
