(* ===== verification/Sha256.thy ===== *)
theory Sha256
  imports Prelude
begin

text \<open>
  SHA-256, \<open>kernel/core/sha256.c\<close>: the compression function, the context that takes data in pieces,
  and the final padding; and the hash as FIPS 180-4 defines it on a whole message.
\<close>

unbundle bit_operations_syntax

section \<open>Operations\<close>

abbreviation (input) NS_SHA256_BLOCK_BYTES :: nat where "NS_SHA256_BLOCK_BYTES \<equiv> 64"

record ns_sha256 =
  sha_state :: "u32 list"
  sha_total_bytes :: u64
  sha_block :: "u8 list"
  sha_block_bytes :: nat

text \<open>The table, row by row as the source lays it out.\<close>

definition round_constants :: "u32 list" where
  "round_constants = concat [
      [0x428a2f98, 0x71374491, 0xb5c0fbcf], [0xe9b5dba5, 0x3956c25b, 0x59f111f1], [0x923f82a4, 0xab1c5ed5, 0xd807aa98],
      [0x12835b01, 0x243185be, 0x550c7dc3], [0x72be5d74, 0x80deb1fe, 0x9bdc06a7], [0xc19bf174, 0xe49b69c1, 0xefbe4786],
      [0x0fc19dc6, 0x240ca1cc, 0x2de92c6f], [0x4a7484aa, 0x5cb0a9dc, 0x76f988da], [0x983e5152, 0xa831c66d, 0xb00327c8],
      [0xbf597fc7, 0xc6e00bf3, 0xd5a79147], [0x06ca6351, 0x14292967, 0x27b70a85], [0x2e1b2138, 0x4d2c6dfc, 0x53380d13],
      [0x650a7354, 0x766a0abb, 0x81c2c92e], [0x92722c85, 0xa2bfe8a1, 0xa81a664b], [0xc24b8b70, 0xc76c51a3, 0xd192e819],
      [0xd6990624, 0xf40e3585, 0x106aa070], [0x19a4c116, 0x1e376c08, 0x2748774c], [0x34b0bcb5, 0x391c0cb3, 0x4ed8aa4a],
      [0x5b9cca4f, 0x682e6ff3, 0x748f82ee], [0x78a5636f, 0x84c87814, 0x8cc70208], [0x90befffa, 0xa4506ceb, 0xbef9a3f7],
      [0xc67178f2]]"

definition rotate_right :: "u32 \<Rightarrow> nat \<Rightarrow> u32" where
  "rotate_right value amount = drop_bit amount value OR push_bit (32 - amount) value"

definition load_be32 :: "u8 list \<Rightarrow> nat \<Rightarrow> u32" where
  "load_be32 bytes at =
     push_bit 24 (ucast (bytes ! at)) OR push_bit 16 (ucast (bytes ! (at + 1)))
       OR push_bit 8 (ucast (bytes ! (at + 2))) OR ucast (bytes ! (at + 3))"

definition store_be32 :: "u32 \<Rightarrow> u8 list" where
  "store_be32 value =
     [ucast (drop_bit 24 value), ucast (drop_bit 16 value), ucast (drop_bit 8 value), ucast value]"

text \<open>The schedule is the part of the array written so far; a step writes the next word.\<close>

definition schedule_step :: "u32 list \<Rightarrow> u32 list" where
  "schedule_step schedule =
     (let index = length schedule;
          x = schedule ! (index - 15);
          y = schedule ! (index - 2);
          s0 = rotate_right x 7 XOR rotate_right x 18 XOR drop_bit 3 x;
          s1 = rotate_right y 17 XOR rotate_right y 19 XOR drop_bit 10 y in
      schedule @ [schedule ! (index - 16) + s0 + schedule ! (index - 7) + s1])"

definition schedule_of :: "u8 list \<Rightarrow> u32 list" where
  "schedule_of block = (schedule_step ^^ 48) (map (\<lambda>index. load_be32 block (index * 4)) [0..<16])"

type_synonym sha_vars = "u32 \<times> u32 \<times> u32 \<times> u32 \<times> u32 \<times> u32 \<times> u32 \<times> u32"

fun sha_round :: "u32 list \<Rightarrow> nat \<Rightarrow> sha_vars \<Rightarrow> sha_vars" where
  "sha_round schedule index (a, b, c, d, e, f, g, h) =
     (let sum1 = rotate_right e 6 XOR rotate_right e 11 XOR rotate_right e 25;
          choice = (e AND f) XOR (NOT e AND g);
          temporary1 = h + sum1 + choice + round_constants ! index + schedule ! index;
          sum0 = rotate_right a 2 XOR rotate_right a 13 XOR rotate_right a 22;
          majority = (a AND b) XOR (a AND c) XOR (b AND c);
          temporary2 = sum0 + majority in
      (temporary1 + temporary2, a, b, c, d + temporary1, e, f, g))"

definition compress :: "u32 list \<Rightarrow> u8 list \<Rightarrow> u32 list" where
  "compress state block =
     (let schedule = schedule_of block in
      case fold (sha_round schedule) [0..<64]
        (state ! 0, state ! 1, state ! 2, state ! 3, state ! 4, state ! 5, state ! 6, state ! 7) of
        (a, b, c, d, e, f, g, h) \<Rightarrow>
          [state ! 0 + a, state ! 1 + b, state ! 2 + c, state ! 3 + d,
           state ! 4 + e, state ! 5 + f, state ! 6 + g, state ! 7 + h])"

definition initial_state :: "u32 list" where
  "initial_state = [0x6a09e667, 0xbb67ae85, 0x3c6ef372, 0xa54ff53a, 0x510e527f, 0x9b05688c, 0x1f83d9ab, 0x5be0cd19]"

text \<open>The block buffer is not initialized: its content is that of the memory before.\<close>

definition ns_sha256_init :: "ns_sha256 \<Rightarrow> ns_sha256" where
  "ns_sha256_init context = context\<lparr>sha_state := initial_state, sha_total_bytes := 0, sha_block_bytes := 0\<rparr>"

text \<open>\<open>memcpy\<close> and \<open>memset\<close> into the block, \<open>None\<close> outside of it.\<close>

definition copy_into :: "u8 list \<Rightarrow> nat \<Rightarrow> u8 list \<Rightarrow> u8 list option" where
  "copy_into block at bytes =
     (if at + length bytes \<le> length block
      then Some (take at block @ bytes @ drop (at + length bytes) block) else None)"

text \<open>One turn of the loop of \<open>ns_sha256_update\<close>, which leaves the bytes that remain.\<close>

definition update_turn :: "ns_sha256 \<Rightarrow> u8 list \<Rightarrow> (ns_sha256 \<times> u8 list) option" where
  "update_turn context bytes =
     (if sha_block_bytes context > NS_SHA256_BLOCK_BYTES then None
      else do {
        let available = NS_SHA256_BLOCK_BYTES - sha_block_bytes context;
        let n = (if length bytes < available then length bytes else available);
        block \<leftarrow> copy_into (sha_block context) (sha_block_bytes context) (take n bytes);
        let context = context\<lparr>sha_block := block, sha_block_bytes := sha_block_bytes context + n\<rparr>;
        Some (if sha_block_bytes context = NS_SHA256_BLOCK_BYTES
              then context\<lparr>sha_state := compress (sha_state context) (sha_block context), sha_block_bytes := 0\<rparr>
              else context, drop n bytes)
      })"

definition update_measure :: "ns_sha256 \<times> u8 list \<Rightarrow> nat" where
  "update_measure = (\<lambda>(context, bytes). 2 * length bytes + (if sha_block_bytes context = 64 then 1 else 0))"

lemma update_turn_decreases:
  assumes "update_turn context bytes = Some (context', rest)" "bytes \<noteq> []"
  shows "update_measure (context', rest) < update_measure (context, bytes)"
proof -
  define n where "n = (if length bytes < 64 - sha_block_bytes context then length bytes else 64 - sha_block_bytes context)"
  have "sha_block_bytes context \<le> 64" "rest = drop n bytes" "sha_block_bytes context' \<noteq> 64"
    using assms(1) by (auto simp: update_turn_def n_def Let_def split: if_splits Option.bind_splits)
  moreover have "n \<le> length bytes" "n = 0 \<longrightarrow> sha_block_bytes context = 64"
    using assms(2) \<open>sha_block_bytes context \<le> 64\<close> by (auto simp: n_def split: if_splits)
  ultimately show ?thesis using assms(2) by (auto simp: update_measure_def)
qed

function update_loop :: "ns_sha256 \<Rightarrow> u8 list \<Rightarrow> ns_sha256 option" where
  "update_loop context bytes =
     (if bytes = [] then Some context
      else case update_turn context bytes of
        None \<Rightarrow> None
      | Some (context', rest) \<Rightarrow> update_loop context' rest)"
  by pat_completeness auto

termination update_loop
  by (relation "measure update_measure") (auto dest: update_turn_decreases)

declare update_loop.simps [simp del]

definition ns_sha256_update :: "ns_sha256 \<Rightarrow> u8 list \<Rightarrow> ns_sha256 option" where
  "ns_sha256_update context data =
     update_loop (context\<lparr>sha_total_bytes := sha_total_bytes context + of_nat (length data)\<rparr>) data"

definition store_bits :: "u64 \<Rightarrow> u8 list \<Rightarrow> u8 list" where
  "store_bits bits block = fold (\<lambda>index block. block[63 - index := ucast (drop_bit (index * 8) bits)]) [0..<8] block"

definition zero_context :: ns_sha256 where
  "zero_context = \<lparr>sha_state = replicate 8 0, sha_total_bytes = 0, sha_block = replicate 64 0, sha_block_bytes = 0\<rparr>"

definition ns_sha256_final :: "ns_sha256 \<Rightarrow> (u8 list \<times> ns_sha256) option" where
  "ns_sha256_final context = do {
     let bits = sha_total_bytes context * 8;
     block \<leftarrow> store_at (sha_block context) (sha_block_bytes context) 0x80;
     let n = sha_block_bytes context + 1;
     (state, block, n) \<leftarrow>
       (if n > 56 then do {
          block \<leftarrow> copy_into block n (replicate (NS_SHA256_BLOCK_BYTES - n) 0);
          Some (compress (sha_state context) block, block, 0)
        } else Some (sha_state context, block, n));
     block \<leftarrow> copy_into block n (replicate (56 - n) 0);
     let state = compress state (store_bits bits block);
     Some (concat (map (\<lambda>index. store_be32 (state ! index)) [0..<8]), zero_context)
   }"

section \<open>FIPS 180-4\<close>

text \<open>The message schedule as the standard defines it, by recursion on the index.\<close>

function W :: "u8 list \<Rightarrow> nat \<Rightarrow> u32" where
  "W block t =
     (if t < 16 then load_be32 block (4 * t)
      else (rotate_right (W block (t - 2)) 17 XOR rotate_right (W block (t - 2)) 19 XOR drop_bit 10 (W block (t - 2)))
        + W block (t - 7)
        + (rotate_right (W block (t - 15)) 7 XOR rotate_right (W block (t - 15)) 18 XOR drop_bit 3 (W block (t - 15)))
        + W block (t - 16))"
  by pat_completeness auto

termination W
  by (relation "measure snd") auto

declare W.simps [simp del]

text \<open>The working variables after \<open>t\<close> rounds, and the hash value after a block.\<close>

primrec working :: "u8 list \<Rightarrow> sha_vars \<Rightarrow> nat \<Rightarrow> sha_vars" where
  "working block v 0 = v"
| "working block v (Suc t) =
     (case working block v t of (a, b, c, d, e, f, g, h) \<Rightarrow>
       let T1 = h + (rotate_right e 6 XOR rotate_right e 11 XOR rotate_right e 25)
              + ((e AND f) XOR (NOT e AND g)) + round_constants ! t + W block t;
           T2 = (rotate_right a 2 XOR rotate_right a 13 XOR rotate_right a 22)
              + ((a AND b) XOR (a AND c) XOR (b AND c)) in
       (T1 + T2, a, b, c, d + T1, e, f, g))"

fun vars_list :: "sha_vars \<Rightarrow> u32 list" where
  "vars_list (a, b, c, d, e, f, g, h) = [a, b, c, d, e, f, g, h]"

fun list_vars :: "u32 list \<Rightarrow> sha_vars" where
  "list_vars s = (s ! 0, s ! 1, s ! 2, s ! 3, s ! 4, s ! 5, s ! 6, s ! 7)"

definition hash_block :: "u32 list \<Rightarrow> u8 list \<Rightarrow> u32 list" where
  "hash_block H block = map2 (+) (vars_list (list_vars H)) (vars_list (working block (list_vars H) 64))"

function hash_blocks :: "u32 list \<Rightarrow> u8 list \<Rightarrow> u32 list" where
  "hash_blocks H M = (if length M < 64 then H else hash_blocks (hash_block H (take 64 M)) (drop 64 M))"
  by pat_completeness auto

termination hash_blocks
  by (relation "measure (\<lambda>(H, M). length M)") auto

declare hash_blocks.simps [simp del]

definition be64 :: "u64 \<Rightarrow> u8 list" where
  "be64 v = map (\<lambda>i. ucast (drop_bit (56 - 8 * i) v)) [0..<8]"

text \<open>A one bit, the least number of zero bits that fill up to 448 modulo 512, and the length in bits.\<close>

definition padding :: "nat \<Rightarrow> u8 list" where
  "padding n = 0x80 # replicate ((119 - n mod 64) mod 64) 0 @ be64 (of_nat (8 * n))"

definition sha256 :: "u8 list \<Rightarrow> u8 list" where
  "sha256 M = concat (map store_be32 (hash_blocks initial_state (M @ padding (length M))))"

end
