(* ===== verification/Sha256_Props.thy ===== *)
theory Sha256_Props
  imports Sha256
begin

text \<open>
  The implementation of SHA-256 computes the hash of FIPS 180-4 of the data fed to it, however the data
  is cut into pieces.
\<close>

unbundle bit_operations_syntax

section \<open>The compression function\<close>

lemma schedule_prefix:
  "n \<le> 48 \<Longrightarrow> (schedule_step ^^ n) (map (\<lambda>i. load_be32 block (i * 4)) [0..<16]) = map (W block) [0..<16 + n]"
proof (induction n)
  case 0
  have "load_be32 block (i * 4) = W block i" if "i < 16" for i
    using that by (subst W.simps) (simp add: mult.commute)
  then show ?case by simp
next
  case (Suc n)
  define w where "w = map (W block) [0..<16 + n]"
  have at: "w ! (16 + n - k) = W block (16 + n - k)" if "0 < k" "k \<le> 16" for k
    using that by (simp add: w_def)
  have "schedule_step w = w @ [W block (16 + n)]"
    using at [of 16] at [of 15] at [of 7] at [of 2]
    by (subst W.simps) (simp add: schedule_step_def Let_def w_def add.commute add.left_commute)
  moreover have "[0..<16 + Suc n] = [0..<16 + n] @ [16 + n]" using upt_Suc_append [of 0 "16 + n"] by simp
  ultimately show ?case using Suc unfolding w_def by (simp del: upt_Suc)
qed

lemma schedule_of_eq: "schedule_of block = map (W block) [0..<64]"
  using schedule_prefix [of 48 block] by (simp add: schedule_of_def)

lemma rounds_working:
  "n \<le> 64 \<Longrightarrow> fold (sha_round (schedule_of block)) [0..<n] v = working block v n"
proof (induction n)
  case (Suc n)
  obtain a b c d e f g h where v: "working block v n = (a, b, c, d, e, f, g, h)" by (metis prod_cases3)
  have "schedule_of block ! n = W block n" using Suc.prems by (simp add: schedule_of_eq)
  then show ?case using Suc by (simp add: v Let_def)
qed simp

lemma compress_eq: "compress state block = hash_block state block"
  using rounds_working [of 64 block "list_vars state"]
  by (simp del: upt_conv_Cons upt_Suc add: compress_def hash_block_def Let_def split: prod.split)

lemma length_hash_block [simp]: "length (hash_block H block) = 8"
  by (cases "working block (list_vars H) 64") (auto simp: hash_block_def)

lemma hash_blocks_append:
  "64 dvd length xs \<Longrightarrow> hash_blocks H (xs @ ys) = hash_blocks (hash_blocks H xs) ys"
proof (induction H xs rule: hash_blocks.induct)
  case (1 H M)
  show ?case
  proof (cases "length M < 64")
    case True
    then have "M = []" using 1(2) by (auto dest: dvd_imp_le)
    then show ?thesis by (simp add: hash_blocks.simps [of H "[]"])
  next
    case False
    then have "64 dvd length (drop 64 M)" using 1(2) by (simp add: dvd_diff_nat)
    from 1(1) [OF False this] show ?thesis
      using False by (simp add: hash_blocks.simps [of H M] hash_blocks.simps [of H "M @ ys"])
  qed
qed

lemma hash_blocks_one: "length block = 64 \<Longrightarrow> hash_blocks H block = hash_block H block"
  by (simp add: hash_blocks.simps [of H block] hash_blocks.simps [of _ "[]"])

lemma length_hash_blocks: "length H = 8 \<Longrightarrow> length (hash_blocks H M) = 8"
  by (induction H M rule: hash_blocks.induct) (subst hash_blocks.simps, simp)

section \<open>The context\<close>

text \<open>The context has absorbed a message: its full blocks are hashed, the rest is in the buffer.\<close>

definition absorbed :: "ns_sha256 \<Rightarrow> u8 list \<Rightarrow> bool" where
  "absorbed c M \<longleftrightarrow> length (sha_block c) = 64 \<and> sha_block_bytes c < 64 \<and>
     (\<exists>full. M = full @ take (sha_block_bytes c) (sha_block c) \<and> 64 dvd length full \<and>
       sha_state c = hash_blocks initial_state full)"

lemma update_turn_absorbs:
  assumes "absorbed c M" "bytes \<noteq> []"
  shows "\<exists>c' n. update_turn c bytes = Some (c', drop n bytes) \<and> absorbed c' (M @ take n bytes) \<and>
    sha_total_bytes c' = sha_total_bytes c"
proof -
  define k where "k = sha_block_bytes c"
  define n where "n = (if length bytes < 64 - k then length bytes else 64 - k)"
  define block where "block = take k (sha_block c) @ take n bytes @ drop (k + n) (sha_block c)"
  obtain full where c: "length (sha_block c) = 64" "k < 64" "M = full @ take k (sha_block c)" "64 dvd length full"
    "sha_state c = hash_blocks initial_state full"
    using assms(1) by (auto simp: absorbed_def k_def)
  have n: "length (take n bytes) = n" "k + n \<le> 64" using c(2) by (auto simp: n_def)
  have copy: "copy_into (sha_block c) k (take n bytes) = Some block"
    using n c(1) by (simp add: copy_into_def block_def)
  have block: "length block = 64" "take (k + n) block = take k (sha_block c) @ take n bytes"
    using n c(1,2) by (simp_all add: block_def)
  show ?thesis
  proof (cases "k + n = 64")
    case True
    define c' where "c' = c\<lparr>sha_block := block, sha_block_bytes := 0, sha_state := compress (sha_state c) block\<rparr>"
    have "update_turn c bytes = Some (c', drop n bytes)"
      using c(2) copy True unfolding update_turn_def k_def [symmetric] Let_def n_def [symmetric] by (simp add: c'_def)
    moreover have "block = take k (sha_block c) @ take n bytes" using block True by simp
    then have "absorbed c' (M @ take n bytes)"
      using c(3-5) block(1)
      by (auto simp: absorbed_def c'_def compress_eq hash_blocks_append hash_blocks_one intro!: exI [of _ "full @ block"])
    ultimately show ?thesis by (intro exI [of _ c'] exI [of _ n]) (simp add: c'_def)
  next
    case False
    define c' where "c' = c\<lparr>sha_block := block, sha_block_bytes := k + n\<rparr>"
    have "update_turn c bytes = Some (c', drop n bytes)"
      using c(2) copy False unfolding update_turn_def k_def [symmetric] Let_def n_def [symmetric] by (simp add: c'_def)
    moreover have "absorbed c' (M @ take n bytes)"
      using c(3-5) block n(2) False by (auto simp: absorbed_def c'_def)
    ultimately show ?thesis by (intro exI [of _ c'] exI [of _ n]) (simp add: c'_def)
  qed
qed

lemma update_loop_absorbs:
  "absorbed c M \<Longrightarrow> \<exists>c'. update_loop c bytes = Some c' \<and> absorbed c' (M @ bytes) \<and> sha_total_bytes c' = sha_total_bytes c"
proof (induction c bytes arbitrary: M rule: update_loop.induct)
  case (1 c bytes)
  show ?case
  proof (cases "bytes = []")
    case True
    then show ?thesis using 1(2) by (subst update_loop.simps) simp
  next
    case False
    from update_turn_absorbs [OF 1(2) False] obtain c' n where t: "update_turn c bytes = Some (c', drop n bytes)"
      "absorbed c' (M @ take n bytes)" "sha_total_bytes c' = sha_total_bytes c" by blast
    from 1(1) [OF False t(1) refl t(2)] show ?thesis
      using False t(1,3) by (subst update_loop.simps) simp
  qed
qed

definition hashing :: "ns_sha256 \<Rightarrow> u8 list \<Rightarrow> bool" where
  "hashing c M \<longleftrightarrow> absorbed c M \<and> sha_total_bytes c = of_nat (length M)"

lemma init_hashing: "length (sha_block c) = 64 \<Longrightarrow> hashing (ns_sha256_init c) []"
  by (simp add: hashing_def absorbed_def ns_sha256_init_def hash_blocks.simps)

lemma update_hashing: "hashing c M \<Longrightarrow> \<exists>c'. ns_sha256_update c bytes = Some c' \<and> hashing c' (M @ bytes)"
  using update_loop_absorbs [of "c\<lparr>sha_total_bytes := sha_total_bytes c + of_nat (length bytes)\<rparr>" M bytes]
  by (auto simp: hashing_def absorbed_def ns_sha256_update_def)

lemma updates_hashing: "hashing c M \<Longrightarrow> \<exists>c'. foldM (\<lambda>d c. ns_sha256_update c d) ds c = Some c' \<and> hashing c' (M @ concat ds)"
proof (induction ds arbitrary: c M)
  case (Cons d ds)
  then show ?case using update_hashing [OF Cons.prems, of d] by fastforce
qed auto

section \<open>Padding\<close>

lemma store_bits_eq:
  assumes "length block = 64"
  shows "store_bits v block = take 56 block @ be64 v"
proof (rule nth_equalityI)
  show "length (store_bits v block) = length (take 56 block @ be64 v)"
    using assms by (simp add: store_bits_def be64_def upt_rec)
  fix i assume "i < length (store_bits v block)"
  then have "i < 64" using assms by (simp add: store_bits_def upt_rec)
  moreover have "i = 56 \<or> i = 57 \<or> i = 58 \<or> i = 59 \<or> i = 60 \<or> i = 61 \<or> i = 62 \<or> i = 63" if "\<not> i < 56"
    using that \<open>i < 64\<close> by linarith
  ultimately show "store_bits v block ! i = (take 56 block @ be64 v) ! i"
    using assms by (cases "i < 56") (auto simp: store_bits_def be64_def upt_rec nth_append)
qed

lemma final_hashing:
  assumes "hashing c M"
  shows "ns_sha256_final c = Some (sha256 M, zero_context)"
proof -
  define k where "k = sha_block_bytes c"
  define tail where "tail = take k (sha_block c)"
  define bits where "bits = sha_total_bytes c * 8"
  obtain full where c: "length (sha_block c) = 64" "k < 64" "M = full @ tail" "64 dvd length full"
    "sha_state c = hash_blocks initial_state full"
    using assms by (auto simp: hashing_def absorbed_def k_def tail_def)
  have tail: "length tail = k" using c(1,2) by (simp add: tail_def)
  have bits: "bits = of_nat (8 * length M)" using assms by (simp add: bits_def hashing_def mult.commute)
  have "length M mod 64 = k" using c(2-4) tail by (auto simp: dvd_def)
  then have pad: "padding (length M) = 0x80 # replicate ((119 - k) mod 64) 0 @ be64 bits"
    by (simp add: padding_def bits)
  define block where "block = (sha_block c)[k := 0x80]"
  have block: "length block = 64" "take (k + 1) block = tail @ [0x80]"
    using c(1,2) by (simp_all add: block_def tail_def take_Suc_conv_app_nth)
  have "\<exists>state. ns_sha256_final c = Some (concat (map (\<lambda>i. store_be32 (state ! i)) [0..<8]), zero_context) \<and>
      state = hash_blocks (sha_state c) (tail @ padding (length M))"
  proof (cases "56 < k + 1")
    case True
    define b1 where "b1 = tail @ [0x80] @ replicate (64 - (k + 1)) 0"
    have b1: "copy_into block (k + 1) (replicate (64 - (k + 1)) 0) = Some b1" "length b1 = 64"
      using block c(2) tail by (simp_all add: copy_into_def b1_def)
    have b2: "copy_into b1 0 (replicate (56 - 0) 0) = Some (replicate 56 0 @ drop 56 b1)"
      using b1(2) by (simp add: copy_into_def)
    have "(119 - k) mod 64 = (64 - (k + 1)) + 56" using True c(2) by (simp add: mod_if)
    then have "replicate ((119 - k) mod 64) (0::u8) = replicate (64 - (k + 1)) 0 @ replicate 56 0"
      by (simp only: replicate_add)
    then have "tail @ padding (length M) = b1 @ replicate 56 0 @ be64 bits"
      unfolding pad b1_def by simp
    moreover have "length (replicate 56 0 @ be64 bits) = 64" by (simp add: be64_def)
    ultimately show ?thesis
      using True b1 b2 c(1,2)
      by (simp add: ns_sha256_final_def k_def [symmetric] block_def [symmetric] bits_def [symmetric] Let_def
          store_bits_eq compress_eq hash_blocks_append hash_blocks_one del: upt_conv_Cons)
  next
    case False
    define b1 where "b1 = tail @ [0x80] @ replicate (56 - (k + 1)) 0 @ drop 56 block"
    have b1: "copy_into block (k + 1) (replicate (56 - (k + 1)) 0) = Some b1" "length b1 = 64"
      using block False tail by (simp_all add: copy_into_def b1_def)
    have "(119 - k) mod 64 = 56 - (k + 1)" using False by (simp add: mod_if)
    moreover have "take 56 b1 = tail @ [0x80] @ replicate (56 - (k + 1)) 0"
      using tail False unfolding b1_def append_assoc [symmetric] by (subst take_append) simp
    ultimately have "tail @ padding (length M) = take 56 b1 @ be64 bits"
      unfolding pad by simp
    moreover have "length (take 56 b1 @ be64 bits) = 64" using b1(2) by (simp add: be64_def)
    ultimately show ?thesis
      using False b1 c(1,2)
      by (simp add: ns_sha256_final_def k_def [symmetric] block_def [symmetric] bits_def [symmetric] Let_def
          store_bits_eq compress_eq hash_blocks_one del: upt_conv_Cons)
  qed
  moreover have "hash_blocks (sha_state c) (tail @ padding (length M)) = hash_blocks initial_state (M @ padding (length M))"
    using c(3-5) by (simp add: hash_blocks_append)
  moreover have "map (\<lambda>i. store_be32 (H ! i)) [0..<8] = map store_be32 H" if "length H = 8" for H
    using that by (intro nth_equalityI) simp_all
  moreover have "length (hash_blocks initial_state (M @ padding (length M))) = 8"
    by (rule length_hash_blocks) (simp add: initial_state_def)
  ultimately show ?thesis by (auto simp: sha256_def)
qed

section \<open>Properties\<close>

text \<open>C35. The incremental SHA-256 is the hash of FIPS 180-4: for any content of the uninitialized block buffer and
  however the data is cut into pieces, also empty ones, initializing a context, feeding the pieces to
  \<open>ns_sha256_update\<close> and finishing with \<open>ns_sha256_final\<close> ends without an access outside the buffer,
  gives the 32 bytes of the hash the standard defines for the concatenation, and wipes the context.\<close>

theorem sha256_incremental:
  assumes "length (sha_block c) = 64"
  shows "Option.bind (foldM (\<lambda>d c. ns_sha256_update c d) pieces (ns_sha256_init c)) ns_sha256_final =
    Some (sha256 (concat pieces), zero_context)"
  using updates_hashing [OF init_hashing [OF assms], of pieces] final_hashing by auto

theorem sha256_incremental_witness:
  "Option.bind (foldM (\<lambda>d c. ns_sha256_update c d) [[0x61], [], [0x62, 0x63]] (ns_sha256_init zero_context)) ns_sha256_final =
   Some (sha256 [0x61, 0x62, 0x63], zero_context)"
proof -
  have "length (sha_block zero_context) = 64" by (simp add: zero_context_def)
  from sha256_incremental [OF this, of "[[0x61], [], [0x62, 0x63]]"] show ?thesis by simp
qed

end
