(* ===== verification/Elf_Loader.thy ===== *)
theory Elf_Loader
  imports Prelude
begin

text \<open>
  The ELF loader, \<open>kernel/proc/elf_loader.c\<close>: the plan that validates an image and the load that maps
  and fills it, with its rollback. The source's \<open>read\<close> callback is a parameter: \<open>es_read offset length\<close>
  is \<open>None\<close> when it fails, and otherwise gives the bytes it puts into the buffer. The mapper's
  callbacks are recorded in the order of the calls, and \<open>accepts_call\<close>, a function of the calls so
  far, says whether the last of them succeeds. An error leaves the output image without a meaning, so
  a plan is an error or an image.
\<close>

unbundle bit_operations_syntax

section \<open>Data\<close>

abbreviation (input) NS_ELF_OK :: int where "NS_ELF_OK \<equiv> 0"
abbreviation (input) NS_ELF_E_IO :: int where "NS_ELF_E_IO \<equiv> - 1"
abbreviation (input) NS_ELF_E_TRUNCATED :: int where "NS_ELF_E_TRUNCATED \<equiv> - 2"
abbreviation (input) NS_ELF_E_MAGIC :: int where "NS_ELF_E_MAGIC \<equiv> - 3"
abbreviation (input) NS_ELF_E_CLASS :: int where "NS_ELF_E_CLASS \<equiv> - 4"
abbreviation (input) NS_ELF_E_ENDIAN :: int where "NS_ELF_E_ENDIAN \<equiv> - 5"
abbreviation (input) NS_ELF_E_VERSION :: int where "NS_ELF_E_VERSION \<equiv> - 6"
abbreviation (input) NS_ELF_E_MACHINE :: int where "NS_ELF_E_MACHINE \<equiv> - 7"
abbreviation (input) NS_ELF_E_TYPE :: int where "NS_ELF_E_TYPE \<equiv> - 8"
abbreviation (input) NS_ELF_E_HEADER :: int where "NS_ELF_E_HEADER \<equiv> - 9"
abbreviation (input) NS_ELF_E_PROGRAM_HEADERS :: int where "NS_ELF_E_PROGRAM_HEADERS \<equiv> - 10"
abbreviation (input) NS_ELF_E_UNSUPPORTED :: int where "NS_ELF_E_UNSUPPORTED \<equiv> - 11"
abbreviation (input) NS_ELF_E_ALIGNMENT :: int where "NS_ELF_E_ALIGNMENT \<equiv> - 12"
abbreviation (input) NS_ELF_E_BOUNDS :: int where "NS_ELF_E_BOUNDS \<equiv> - 13"
abbreviation (input) NS_ELF_E_OVERFLOW :: int where "NS_ELF_E_OVERFLOW \<equiv> - 14"
abbreviation (input) NS_ELF_E_OVERLAP :: int where "NS_ELF_E_OVERLAP \<equiv> - 15"
abbreviation (input) NS_ELF_E_PERMISSIONS :: int where "NS_ELF_E_PERMISSIONS \<equiv> - 16"
abbreviation (input) NS_ELF_E_ENTRY :: int where "NS_ELF_E_ENTRY \<equiv> - 17"
abbreviation (input) NS_ELF_E_TOO_LARGE :: int where "NS_ELF_E_TOO_LARGE \<equiv> - 18"
abbreviation (input) NS_ELF_E_MAP :: int where "NS_ELF_E_MAP \<equiv> - 19"
abbreviation (input) NS_ELF_E_COPY :: int where "NS_ELF_E_COPY \<equiv> - 20"
abbreviation (input) NS_ELF_E_PROTECT :: int where "NS_ELF_E_PROTECT \<equiv> - 21"

abbreviation (input) NS_ELF_MAX_LOAD_SEGMENTS :: u32 where "NS_ELF_MAX_LOAD_SEGMENTS \<equiv> 32"
abbreviation (input) NS_ELF_MAP_READ :: u32 where "NS_ELF_MAP_READ \<equiv> 1"
abbreviation (input) NS_ELF_MAP_WRITE :: u32 where "NS_ELF_MAP_WRITE \<equiv> 2"
abbreviation (input) NS_ELF_MAP_EXEC :: u32 where "NS_ELF_MAP_EXEC \<equiv> 4"
abbreviation (input) NS_ELF_MAP_USER :: u32 where "NS_ELF_MAP_USER \<equiv> 8"
abbreviation (input) ET_EXEC :: u16 where "ET_EXEC \<equiv> 2"
abbreviation (input) ET_DYN :: u16 where "ET_DYN \<equiv> 3"
abbreviation (input) EM_X86_64 :: u16 where "EM_X86_64 \<equiv> 62"
abbreviation (input) PT_LOAD :: u32 where "PT_LOAD \<equiv> 1"
abbreviation (input) PT_DYNAMIC :: u32 where "PT_DYNAMIC \<equiv> 2"
abbreviation (input) PT_INTERP :: u32 where "PT_INTERP \<equiv> 3"
abbreviation (input) PF_X :: u32 where "PF_X \<equiv> 1"
abbreviation (input) PF_W :: u32 where "PF_W \<equiv> 2"
abbreviation (input) PF_R :: u32 where "PF_R \<equiv> 4"

record ns_elf_source =
  es_size :: u64
  es_read :: "u64 \<Rightarrow> nat \<Rightarrow> (nat \<Rightarrow> u8) option"

record ns_elf_config =
  ec_user_min :: u64
  ec_user_max :: u64
  ec_page_size :: u64
  ec_dynamic_bias :: u64
  ec_max_image_size :: u64
  ec_max_segments :: u32
  ec_allow_dynamic :: bool
  ec_allow_writable_executable :: bool

record ns_elf_segment =
  sg_address :: u64
  sg_memory_size :: u64
  sg_file_size :: u64
  sg_file_offset :: u64
  sg_map_address :: u64
  sg_map_size :: u64
  sg_flags :: u32

text \<open>The segments are the entries of the array that are filled, \<open>segment_count\<close> their number.\<close>

record ns_elf_image =
  im_entry :: u64
  im_image_start :: u64
  im_image_end :: u64
  im_load_bias :: u64
  im_segments :: "ns_elf_segment list"

record elf64_ehdr =
  eh_ident :: "u8 list"
  eh_type :: u16
  eh_machine :: u16
  eh_version :: u32
  eh_entry :: u64
  eh_phoff :: u64
  eh_ehsize :: u16
  eh_phentsize :: u16
  eh_phnum :: u16

record elf64_phdr =
  ph_type :: u32
  ph_flags :: u32
  ph_offset :: u64
  ph_vaddr :: u64
  ph_filesz :: u64
  ph_memsz :: u64
  ph_align :: u64

datatype mapper_call =
    Map u64 u64 u32
  | Write u64 "u8 list"
  | Zero u64 u64
  | Protect u64 u64 u32
  | Unmap u64 u64

section \<open>Helpers\<close>

definition elf_add_overflow_u64 :: "u64 \<Rightarrow> u64 \<Rightarrow> u64 option" where
  "elf_add_overflow_u64 a b = (if a + b < a then None else Some (a + b))"

definition mul_overflow_u64 :: "u64 \<Rightarrow> u64 \<Rightarrow> u64 option" where
  "mul_overflow_u64 a b = (if a \<noteq> 0 \<and> b > - 1 div a then None else Some (a * b))"

definition elf_is_power_of_two :: "u64 \<Rightarrow> bool" where
  "elf_is_power_of_two value \<longleftrightarrow> value \<noteq> 0 \<and> value AND (value - 1) = 0"

definition elf_align_up :: "u64 \<Rightarrow> u64 \<Rightarrow> u64 option" where
  "elf_align_up value alignment =
     (let m = alignment - 1 in if value > - 1 - m then None else Some ((value + m) AND NOT m))"

definition range_in_file :: "ns_elf_source \<Rightarrow> u64 \<Rightarrow> u64 \<Rightarrow> bool" where
  "range_in_file source offset n \<longleftrightarrow> offset \<le> es_size source \<and> n \<le> es_size source - offset"

definition source_read :: "ns_elf_source \<Rightarrow> u64 \<Rightarrow> nat \<Rightarrow> int + u8 list" where
  "source_read source offset n =
     (if \<not> range_in_file source offset (of_nat n) then Inl NS_ELF_E_TRUNCATED
      else case es_read source offset n of
        None \<Rightarrow> Inl NS_ELF_E_IO
      | Some f \<Rightarrow> Inr (map f [0..<n]))"

definition convert_flags :: "u32 \<Rightarrow> u32" where
  "convert_flags flags =
     (let result = NS_ELF_MAP_USER;
          result = (if flags AND PF_R \<noteq> 0 then result OR NS_ELF_MAP_READ else result);
          result = (if flags AND PF_W \<noteq> 0 then result OR NS_ELF_MAP_WRITE else result) in
      if flags AND PF_X \<noteq> 0 then result OR NS_ELF_MAP_EXEC else result)"

definition valid_config :: "ns_elf_config \<Rightarrow> bool" where
  "valid_config config \<longleftrightarrow>
     elf_is_power_of_two (ec_page_size config) \<and> ec_page_size config \<ge> 4096 \<and>
     ec_user_min config < ec_user_max config \<and> ec_max_segments config \<noteq> 0 \<and>
     ec_max_segments config \<le> NS_ELF_MAX_LOAD_SEGMENTS \<and> ec_max_image_size config \<noteq> 0"

text \<open>The structures overlay the bytes read: little-endian fields at the offsets of the C layout.\<close>

primrec le_bytes :: "nat \<Rightarrow> u8 list \<Rightarrow> nat \<Rightarrow> 'a::len word" where
  "le_bytes 0 bytes at = 0"
| "le_bytes (Suc n) bytes at = ucast (bytes ! at) OR push_bit 8 (le_bytes n bytes (at + 1))"

definition parse_ehdr :: "u8 list \<Rightarrow> elf64_ehdr" where
  "parse_ehdr b =
     \<lparr>eh_ident = take 16 b, eh_type = le_bytes 2 b 16, eh_machine = le_bytes 2 b 18,
      eh_version = le_bytes 4 b 20, eh_entry = le_bytes 8 b 24, eh_phoff = le_bytes 8 b 32,
      eh_ehsize = le_bytes 2 b 52, eh_phentsize = le_bytes 2 b 54, eh_phnum = le_bytes 2 b 56\<rparr>"

definition parse_phdr :: "u8 list \<Rightarrow> elf64_phdr" where
  "parse_phdr b =
     \<lparr>ph_type = le_bytes 4 b 0, ph_flags = le_bytes 4 b 4, ph_offset = le_bytes 8 b 8,
      ph_vaddr = le_bytes 8 b 16, ph_filesz = le_bytes 8 b 32, ph_memsz = le_bytes 8 b 40,
      ph_align = le_bytes 8 b 48\<rparr>"

section \<open>The plan\<close>

record plan_state =
  pl_total_mapped :: u64
  pl_image_start :: u64
  pl_image_end :: u64
  pl_segments :: "ns_elf_segment list"

definition overlaps_prior :: "u64 \<Rightarrow> u64 \<Rightarrow> u64 \<Rightarrow> u64 \<Rightarrow> ns_elf_segment \<Rightarrow> bool" where
  "overlaps_prior address memory_end map_address map_end prior \<longleftrightarrow>
     (let prior_end = sg_address prior + sg_memory_size prior;
          prior_map_end = sg_map_address prior + sg_map_size prior in
      (address < prior_end \<and> sg_address prior < memory_end) \<or>
      (map_address < prior_map_end \<and> sg_map_address prior < map_end))"

text \<open>The body of the loop for a loadable header, from the address range on.\<close>

definition plan_segment ::
  "ns_elf_config \<Rightarrow> elf64_phdr \<Rightarrow> u64 \<Rightarrow> u64 \<Rightarrow> plan_state \<Rightarrow> int + plan_state" where
  "plan_segment config ph address memory_end st =
     (if address < ec_user_min config \<or> memory_end > ec_user_max config \<or> memory_end \<le> address
      then Inl NS_ELF_E_BOUNDS
      else
        let map_address = address AND NOT (ec_page_size config - 1) in
        case elf_align_up memory_end (ec_page_size config) of
          None \<Rightarrow> Inl NS_ELF_E_OVERFLOW
        | Some map_end \<Rightarrow>
            let map_size = map_end - map_address;
                segment = \<lparr>sg_address = address, sg_memory_size = ph_memsz ph, sg_file_size = ph_filesz ph,
                  sg_file_offset = ph_offset ph, sg_map_address = map_address, sg_map_size = map_size,
                  sg_flags = convert_flags (ph_flags ph)\<rparr> in
            if list_ex (overlaps_prior address memory_end map_address map_end) (pl_segments st)
            then Inl NS_ELF_E_OVERLAP
            else if map_size > ec_max_image_size config \<or>
                    pl_total_mapped st > ec_max_image_size config - map_size
            then Inl NS_ELF_E_TOO_LARGE
            else Inr \<lparr>pl_total_mapped = pl_total_mapped st + map_size,
                   pl_image_start = (if map_address < pl_image_start st then map_address else pl_image_start st),
                   pl_image_end = (if map_end > pl_image_end st then map_end else pl_image_end st),
                   pl_segments = pl_segments st @ [segment]\<rparr>)"

definition plan_header ::
  "ns_elf_source \<Rightarrow> ns_elf_config \<Rightarrow> u64 \<Rightarrow> elf64_phdr \<Rightarrow> plan_state \<Rightarrow> int + plan_state" where
  "plan_header source config bias ph st =
     (if ph_type ph = PT_INTERP \<or> ph_type ph = PT_DYNAMIC then Inl NS_ELF_E_UNSUPPORTED
      else if ph_type ph \<noteq> PT_LOAD \<or> ph_memsz ph = 0 then Inr st
      else if length (pl_segments st) \<ge> unat (ec_max_segments config) then Inl NS_ELF_E_TOO_LARGE
      else if ph_filesz ph > ph_memsz ph then Inl NS_ELF_E_BOUNDS
      else if ph_align ph \<noteq> 0 \<and> ph_align ph \<noteq> 1 \<and> \<not> elf_is_power_of_two (ph_align ph) then Inl NS_ELF_E_ALIGNMENT
      else
        let aligned = (if ph_align ph > 1 then ph_align ph else 1) in
        if ph_vaddr ph AND (aligned - 1) \<noteq> ph_offset ph AND (aligned - 1) then Inl NS_ELF_E_ALIGNMENT
        else if \<not> range_in_file source (ph_offset ph) (ph_filesz ph) then Inl NS_ELF_E_TRUNCATED
        else if ph_flags ph AND PF_W \<noteq> 0 \<and> ph_flags ph AND PF_X \<noteq> 0 \<and> \<not> ec_allow_writable_executable config
        then Inl NS_ELF_E_PERMISSIONS
        else case elf_add_overflow_u64 (ph_vaddr ph) bias of
          None \<Rightarrow> Inl NS_ELF_E_OVERFLOW
        | Some address \<Rightarrow>
            (case elf_add_overflow_u64 address (ph_memsz ph) of
               None \<Rightarrow> Inl NS_ELF_E_OVERFLOW
             | Some memory_end \<Rightarrow>
                 if elf_add_overflow_u64 (ph_offset ph) (ph_filesz ph) = None then Inl NS_ELF_E_OVERFLOW
                 else plan_segment config ph address memory_end st))"

definition plan_index ::
  "ns_elf_source \<Rightarrow> ns_elf_config \<Rightarrow> elf64_ehdr \<Rightarrow> u64 \<Rightarrow> nat \<Rightarrow> plan_state \<Rightarrow> int + plan_state" where
  "plan_index source config eh bias index st =
     (case Option.bind (mul_overflow_u64 (of_nat index) (ucast (eh_phentsize eh))) (elf_add_overflow_u64 (eh_phoff eh)) of
        None \<Rightarrow> Inl NS_ELF_E_OVERFLOW
      | Some offset \<Rightarrow>
          (case source_read source offset 56 of
             Inl _ \<Rightarrow> Inl NS_ELF_E_IO
           | Inr bytes \<Rightarrow> plan_header source config bias (parse_phdr bytes) st))"

fun plan_loop ::
  "ns_elf_source \<Rightarrow> ns_elf_config \<Rightarrow> elf64_ehdr \<Rightarrow> u64 \<Rightarrow> nat list \<Rightarrow> plan_state \<Rightarrow> int + plan_state" where
  "plan_loop source config eh bias [] st = Inr st"
| "plan_loop source config eh bias (i # is) st =
     (case plan_index source config eh bias i st of
        Inl e \<Rightarrow> Inl e
      | Inr st \<Rightarrow> plan_loop source config eh bias is st)"

definition contains_entry :: "u64 \<Rightarrow> ns_elf_segment \<Rightarrow> bool" where
  "contains_entry entry segment \<longleftrightarrow>
     sg_flags segment AND NS_ELF_MAP_EXEC \<noteq> 0 \<and> entry \<ge> sg_address segment \<and>
     entry < sg_address segment + sg_memory_size segment"

definition plan_segments ::
  "ns_elf_source \<Rightarrow> ns_elf_config \<Rightarrow> elf64_ehdr \<Rightarrow> int + ns_elf_image" where
  "plan_segments source config eh =
     (let bias = (if eh_type eh = ET_DYN then ec_dynamic_bias config else 0) in
      if bias AND (ec_page_size config - 1) \<noteq> 0 then Inl NS_ELF_E_ALIGNMENT
      else case plan_loop source config eh bias [0..<unat (eh_phnum eh)]
          \<lparr>pl_total_mapped = 0, pl_image_start = ec_user_max config, pl_image_end = ec_user_min config, pl_segments = []\<rparr> of
        Inl e \<Rightarrow> Inl e
      | Inr st \<Rightarrow>
          if pl_segments st = [] then Inl NS_ELF_E_PROGRAM_HEADERS
          else case elf_add_overflow_u64 (eh_entry eh) bias of
            None \<Rightarrow> Inl NS_ELF_E_OVERFLOW
          | Some entry \<Rightarrow>
              if \<not> list_ex (contains_entry entry) (pl_segments st) then Inl NS_ELF_E_ENTRY
              else Inr \<lparr>im_entry = entry, im_image_start = pl_image_start st, im_image_end = pl_image_end st,
                     im_load_bias = bias, im_segments = pl_segments st\<rparr>)"

definition ns_elf64_plan :: "ns_elf_source \<Rightarrow> ns_elf_config \<Rightarrow> int + ns_elf_image" where
  "ns_elf64_plan source config =
     (if \<not> valid_config config then Inl NS_ELF_E_HEADER
      else case source_read source 0 64 of
        Inl _ \<Rightarrow> Inl NS_ELF_E_TRUNCATED
      | Inr bytes \<Rightarrow>
          let eh = parse_ehdr bytes in
          if eh_ident eh ! 0 \<noteq> 0x7f \<or> eh_ident eh ! 1 \<noteq> 0x45 \<or> eh_ident eh ! 2 \<noteq> 0x4c \<or> eh_ident eh ! 3 \<noteq> 0x46
          then Inl NS_ELF_E_MAGIC
          else if eh_ident eh ! 4 \<noteq> 2 then Inl NS_ELF_E_CLASS
          else if eh_ident eh ! 5 \<noteq> 1 then Inl NS_ELF_E_ENDIAN
          else if eh_ident eh ! 6 \<noteq> 1 \<or> eh_version eh \<noteq> 1 then Inl NS_ELF_E_VERSION
          else if eh_machine eh \<noteq> EM_X86_64 then Inl NS_ELF_E_MACHINE
          else if eh_type eh \<noteq> ET_EXEC \<and> eh_type eh \<noteq> ET_DYN then Inl NS_ELF_E_TYPE
          else if eh_type eh = ET_DYN \<and> \<not> ec_allow_dynamic config then Inl NS_ELF_E_UNSUPPORTED
          else if eh_ehsize eh \<noteq> 64 \<or> eh_phentsize eh \<noteq> 56 \<or> eh_phnum eh = 0 then Inl NS_ELF_E_HEADER
          else if ucast (eh_phnum eh) > ec_max_segments config + 16 then Inl NS_ELF_E_PROGRAM_HEADERS
          else case Option.bind (mul_overflow_u64 (ucast (eh_phnum eh)) (ucast (eh_phentsize eh)))
              (elf_add_overflow_u64 (eh_phoff eh)) of
            None \<Rightarrow> Inl NS_ELF_E_OVERFLOW
          | Some ph_end \<Rightarrow>
              if ph_end > es_size source then Inl NS_ELF_E_TRUNCATED
              else plan_segments source config eh)"

section \<open>The load\<close>

type_synonym mapper = "mapper_call list \<Rightarrow> bool"

text \<open>The copy loop: the calls made so far grow at the end.\<close>

function copy_loop ::
  "ns_elf_source \<Rightarrow> mapper \<Rightarrow> ns_elf_segment \<Rightarrow> u64 \<Rightarrow> mapper_call list \<Rightarrow> int \<times> mapper_call list" where
  "copy_loop source accepts_call segment copied calls =
     (if copied < sg_file_size segment then
        let remaining = sg_file_size segment - copied;
            chunk = (if remaining < 512 then unat remaining else 512) in
        case source_read source (sg_file_offset segment + copied) chunk of
          Inl e \<Rightarrow> (e, calls)
        | Inr bytes \<Rightarrow>
            let calls = calls @ [Write (sg_address segment + copied) bytes] in
            if \<not> accepts_call calls then (NS_ELF_E_COPY, calls)
            else copy_loop source accepts_call segment (copied + of_nat chunk) calls
      else (NS_ELF_OK, calls))"
  by pat_completeness auto

lemma chunk_step:
  assumes "copied < (fsize::u64)" "chunk = (if fsize - copied < 512 then unat (fsize - copied) else 512)"
  shows "0 < chunk" "unat (copied + of_nat chunk) = unat copied + chunk" "unat copied + chunk \<le> unat fsize"
    "unat (of_nat chunk :: u64) = chunk" "chunk \<le> 512"
proof -
  have d: "unat (fsize - copied) = unat fsize - unat copied" "unat copied < unat fsize"
    using unat_sub [OF order.strict_implies_order [OF assms(1)]] assms(1) by (simp_all add: word_less_nat_alt)
  then show "0 < chunk" "chunk \<le> 512" "unat copied + chunk \<le> unat fsize"
    using assms(2) by (auto simp: word_less_nat_alt split: if_splits)
  then have "unat copied + chunk < 18446744073709551616" using u64_less [of fsize] by linarith
  moreover from this show c: "unat (of_nat chunk :: u64) = chunk" by (simp add: unat_of_nat take_bit_nat_eq_self)
  ultimately show "unat (copied + of_nat chunk) = unat copied + chunk"
    by (simp add: unat_word_ariths c)
qed

termination copy_loop
proof (relation "measure (\<lambda>(source, m, segment, copied, calls). unat (sg_file_size segment) - unat copied)")
  fix source m segment copied calls remaining chunk bytes calls'
  assume "copied < sg_file_size segment" "remaining = sg_file_size segment - copied"
    "chunk = (if remaining < 512 then unat remaining else 512)"
  then show "((source, m, segment, copied + of_nat chunk, calls'), source, m, segment, copied, calls) \<in>
      measure (\<lambda>(source, m, segment, copied, calls). unat (sg_file_size segment) - unat copied)"
    using chunk_step [of copied "sg_file_size segment" chunk] by auto
qed simp

declare copy_loop.simps [simp del]

text \<open>Mapping and filling the segments; the number of mapped segments comes back for the rollback.\<close>

fun load_segments ::
  "ns_elf_source \<Rightarrow> mapper \<Rightarrow> ns_elf_segment list \<Rightarrow> nat \<Rightarrow> mapper_call list \<Rightarrow> int \<times> nat \<times> mapper_call list" where
  "load_segments source accepts_call [] mapped calls = (NS_ELF_OK, mapped, calls)"
| "load_segments source accepts_call (segment # rest) mapped calls =
     (let calls = calls @ [Map (sg_map_address segment) (sg_map_size segment)
            (NS_ELF_MAP_USER OR NS_ELF_MAP_READ OR NS_ELF_MAP_WRITE)] in
      if \<not> accepts_call calls then (NS_ELF_E_MAP, mapped, calls)
      else case copy_loop source accepts_call segment 0 calls of
        (error, calls) \<Rightarrow>
          if error \<noteq> NS_ELF_OK then (error, mapped + 1, calls)
          else if sg_memory_size segment > sg_file_size segment
          then let calls = calls @ [Zero (sg_address segment + sg_file_size segment)
                 (sg_memory_size segment - sg_file_size segment)] in
               if \<not> accepts_call calls then (NS_ELF_E_COPY, mapped + 1, calls)
               else load_segments source accepts_call rest (mapped + 1) calls
          else load_segments source accepts_call rest (mapped + 1) calls)"

fun protect_segments :: "mapper \<Rightarrow> ns_elf_segment list \<Rightarrow> mapper_call list \<Rightarrow> int \<times> mapper_call list" where
  "protect_segments accepts_call [] calls = (NS_ELF_OK, calls)"
| "protect_segments accepts_call (segment # rest) calls =
     (let calls = calls @ [Protect (sg_map_address segment) (sg_map_size segment) (sg_flags segment)] in
      if \<not> accepts_call calls then (NS_ELF_E_PROTECT, calls)
      else protect_segments accepts_call rest calls)"

fun rollback :: "ns_elf_segment list \<Rightarrow> nat \<Rightarrow> mapper_call list \<Rightarrow> mapper_call list" where
  "rollback segments 0 calls = calls"
| "rollback segments (Suc mapped) calls =
     rollback segments mapped
       (calls @ [Unmap (sg_map_address (segments ! mapped)) (sg_map_size (segments ! mapped))])"

definition ns_elf64_load ::
  "ns_elf_source \<Rightarrow> mapper \<Rightarrow> ns_elf_config \<Rightarrow> (int + ns_elf_image) \<times> mapper_call list" where
  "ns_elf64_load source accepts_call config =
     (case ns_elf64_plan source config of
        Inl e \<Rightarrow> (Inl e, [])
      | Inr plan \<Rightarrow>
          (case load_segments source accepts_call (im_segments plan) 0 [] of
             (error, mapped, calls) \<Rightarrow>
               if error \<noteq> NS_ELF_OK then (Inl error, rollback (im_segments plan) mapped calls)
               else (case protect_segments accepts_call (im_segments plan) calls of
                 (error, calls) \<Rightarrow>
                   if error \<noteq> NS_ELF_OK then (Inl error, rollback (im_segments plan) mapped calls)
                   else (Inr plan, calls))))"

definition ns_elf_error_string :: "int \<Rightarrow> string" where
  "ns_elf_error_string error =
     (let messages =
        [''ok'', ''I/O failure'', ''truncated image'', ''bad ELF magic'', ''not ELF64'',
         ''wrong byte order'', ''bad ELF version'', ''wrong machine'', ''unsupported ELF type'',
         ''invalid ELF header'', ''invalid program headers'', ''unsupported ELF feature'',
         ''invalid alignment'', ''out of bounds'', ''integer overflow'', ''overlapping segments'',
         ''unsafe permissions'', ''invalid entry point'', ''image exceeds policy'',
         ''mapping failed'', ''image copy failed'', ''protection failed''] in
      if error > 0 then ''unknown ELF error''
      else if nat (- error) \<ge> length messages then ''unknown ELF error''
      else messages ! nat (- error))"

end
