(* ===== verification/Elf_Plan.thy ===== *)
theory Elf_Plan
  imports Elf_Loader
begin

text \<open>
  What a plan guarantees: the invariant of the planning loop and of the image it delivers.
\<close>

unbundle bit_operations_syntax

section \<open>Arithmetic\<close>

lemma elf_add_overflow:
  assumes "elf_add_overflow_u64 a b = Some c"
  shows "unat c = unat a + unat b"
proof -
  have "c = a + b" "unat a + unat b < 2 ^ 64"
    using assms by (simp_all add: elf_add_overflow_u64_def u64_add_wraps split: if_splits)
  then show ?thesis by (simp add: unat_word_ariths)
qed

text \<open>Rounding down to the start of a page, and up to the first page end.\<close>

lemma elf_page_mask:
  assumes "elf_is_power_of_two p"
  shows "unat (a AND NOT (p - 1)) = unat a div unat p * unat p"
proof -
  obtain k where k: "unat p = 2 ^ k" "p - 1 = mask k"
    using assms word_pow2 [of p] by (auto simp: elf_is_power_of_two_def)
  show ?thesis unfolding k by (rule unat_and_not_mask)
qed

lemma page_down:
  assumes "elf_is_power_of_two p"
  shows "unat p dvd unat (a AND NOT (p - 1))" "unat (a AND NOT (p - 1)) \<le> unat a"
  unfolding elf_page_mask [OF assms] by simp_all

lemma page_up:
  assumes "elf_is_power_of_two p" "elf_align_up v p = Some e"
  shows "unat p dvd unat e" "unat v \<le> unat e"
proof -
  have e: "e = (v + (p - 1)) AND NOT (p - 1)" "\<not> v > - 1 - (p - 1)"
    using assms(2) unfolding elf_align_up_def Let_def by (auto split: if_splits)
  show "unat p dvd unat e" unfolding e(1) by (rule page_down(1) [OF assms(1)])
  have "unat (- 1 - (p - 1)) = 18446744073709551615 - unat (p - 1)" by (subst unat_sub) simp_all
  then have "unat v + unat (p - 1) < 18446744073709551616"
    using e(2) u64_less [of "p - 1"] unfolding word_less_nat_alt by linarith
  then have "unat (v + (p - 1)) = unat v + unat (p - 1)" by (simp add: unat_word_ariths)
  then show "unat v \<le> unat e"
    using unat_and_not_ge [of "v + (p - 1)" "p - 1"] unfolding e(1) by linarith
qed

section \<open>Plans\<close>

definition map_range :: "ns_elf_segment \<Rightarrow> nat set" where
  "map_range s = {unat (sg_map_address s)..<unat (sg_map_address s) + unat (sg_map_size s)}"

definition segment_ok :: "ns_elf_source \<Rightarrow> ns_elf_config \<Rightarrow> ns_elf_segment \<Rightarrow> bool" where
  "segment_ok source config s \<longleftrightarrow>
     unat (ec_user_min config) \<le> unat (sg_address s) \<and>
     unat (sg_address s) + unat (sg_memory_size s) \<le> unat (ec_user_max config) \<and>
     0 < unat (sg_memory_size s) \<and> unat (sg_file_size s) \<le> unat (sg_memory_size s) \<and>
     unat (sg_file_offset s) + unat (sg_file_size s) \<le> unat (es_size source) \<and>
     unat (ec_page_size config) dvd unat (sg_map_address s) \<and> unat (ec_page_size config) dvd unat (sg_map_size s) \<and>
     unat (sg_map_address s) + unat (sg_map_size s) < 18446744073709551616 \<and>
     {unat (sg_address s)..<unat (sg_address s) + unat (sg_memory_size s)} \<subseteq> map_range s \<and>
     (\<not> ec_allow_writable_executable config \<longrightarrow> sg_flags s AND 2 = 0 \<or> sg_flags s AND 4 = 0)"

definition segments_ok :: "ns_elf_source \<Rightarrow> ns_elf_config \<Rightarrow> ns_elf_segment list \<Rightarrow> bool" where
  "segments_ok source config ss \<longleftrightarrow>
     (\<forall>s \<in> set ss. segment_ok source config s) \<and>
     sorted_wrt (\<lambda>s t. map_range s \<inter> map_range t = {}) ss \<and>
     length ss \<le> unat (ec_max_segments config) \<and>
     (\<Sum>s\<leftarrow>ss. unat (sg_map_size s)) \<le> unat (ec_max_image_size config)"

definition plan_ok :: "ns_elf_source \<Rightarrow> ns_elf_config \<Rightarrow> plan_state \<Rightarrow> bool" where
  "plan_ok source config st \<longleftrightarrow> segments_ok source config (pl_segments st) \<and>
     unat (pl_total_mapped st) = (\<Sum>s\<leftarrow>pl_segments st. unat (sg_map_size s)) \<and>
     (\<forall>s \<in> set (pl_segments st). map_range s \<subseteq> {unat (pl_image_start st)..<unat (pl_image_end st)})"

lemma convert_flags_write_exec:
  assumes "flags AND 2 = 0 \<or> flags AND 1 = 0"
  shows "convert_flags flags AND 2 = 0 \<or> convert_flags flags AND 4 = 0"
  using assms by (auto simp: convert_flags_def Let_def)

lemma plan_segment_ok:
  assumes st: "plan_ok source config st" and page: "elf_is_power_of_two (ec_page_size config)"
    and room: "length (pl_segments st) < unat (ec_max_segments config)"
    and ph: "ph_memsz ph \<noteq> 0" "ph_filesz ph \<le> ph_memsz ph" "range_in_file source (ph_offset ph) (ph_filesz ph)"
      "\<not> (ph_flags ph AND 2 \<noteq> 0 \<and> ph_flags ph AND 1 \<noteq> 0 \<and> \<not> ec_allow_writable_executable config)"
    and e: "unat memory_end = unat address + unat (ph_memsz ph)"
    and step: "plan_segment config ph address memory_end st = Inr st'"
  shows "plan_ok source config st'"
proof -
  define m where "m = address AND NOT (ec_page_size config - 1)"
  obtain map_end where up: "elf_align_up memory_end (ec_page_size config) = Some map_end"
    using step by (auto simp: plan_segment_def Let_def split: if_splits option.splits)
  note round = page_down [OF page, of address, folded m_def] page_up [OF page up]
  define s where "s = \<lparr>sg_address = address, sg_memory_size = ph_memsz ph, sg_file_size = ph_filesz ph,
    sg_file_offset = ph_offset ph, sg_map_address = m, sg_map_size = map_end - m, sg_flags = convert_flags (ph_flags ph)\<rparr>"
  have c: "\<not> (address < ec_user_min config \<or> memory_end > ec_user_max config \<or> memory_end \<le> address)"
    "\<not> list_ex (overlaps_prior address memory_end m map_end) (pl_segments st)"
    "\<not> (map_end - m > ec_max_image_size config \<or> pl_total_mapped st > ec_max_image_size config - (map_end - m))"
    "st' = \<lparr>pl_total_mapped = pl_total_mapped st + (map_end - m),
       pl_image_start = (if m < pl_image_start st then m else pl_image_start st),
       pl_image_end = (if map_end > pl_image_end st then map_end else pl_image_end st),
       pl_segments = pl_segments st @ [s]\<rparr>"
    using step up by (auto simp: plan_segment_def m_def [symmetric] s_def Let_def split: if_splits)
  have size: "unat (map_end - m) = unat map_end - unat m" "unat m \<le> unat map_end"
    using round e by (simp_all add: unat_sub word_le_nat_alt)
  have range: "map_range s = {unat m..<unat map_end}" using size by (simp add: map_range_def s_def)
  have pos: "0 < unat (ph_memsz ph)" using ph(1) by (simp add: unat_gt_0)
  have infile: "unat (ph_offset ph) + unat (ph_filesz ph) \<le> unat (es_size source)"
    using ph(3) by (auto simp: range_in_file_def word_le_nat_alt unat_sub)
  have "unat (ec_page_size config) dvd unat (map_end - m)" using round size by (simp add: dvd_diff_nat)
  moreover have "unat m + unat (map_end - m) < 18446744073709551616" using size u64_less [of map_end] by simp
  moreover have "{unat address..<unat address + unat (ph_memsz ph)} \<subseteq> map_range s"
    using round e by (auto simp: range)
  moreover have "\<not> ec_allow_writable_executable config \<longrightarrow> sg_flags s AND 2 = 0 \<or> sg_flags s AND 4 = 0"
    using ph(4) convert_flags_write_exec [of "ph_flags ph"] by (auto simp: s_def)
  ultimately have "segment_ok source config s"
    using c(1) e round(1) pos infile ph(2)
    by (auto simp: segment_ok_def s_def word_less_nat_alt word_le_nat_alt not_less not_le)
  moreover have "map_range t \<inter> map_range s = {}" if "t \<in> set (pl_segments st)" for t
  proof -
    have "segment_ok source config t" using st that by (auto simp: plan_ok_def segments_ok_def)
    then have "unat (sg_map_address t + sg_map_size t) = unat (sg_map_address t) + unat (sg_map_size t)"
      by (simp add: segment_ok_def unat_word_ariths)
    moreover have "\<not> overlaps_prior address memory_end m map_end t" using c(2) that by (auto simp: list_ex_iff)
    ultimately show ?thesis
      unfolding range map_range_def [of t] overlaps_prior_def Let_def word_less_nat_alt by auto
  qed
  moreover have total: "unat (pl_total_mapped st + (map_end - m)) = unat (pl_total_mapped st) + unat (map_end - m)"
    "unat (pl_total_mapped st) + unat (map_end - m) \<le> unat (ec_max_image_size config)"
  proof -
    have "map_end - m \<le> ec_max_image_size config" "pl_total_mapped st \<le> ec_max_image_size config - (map_end - m)"
      using c(3) by (simp_all add: not_less)
    then show le: "unat (pl_total_mapped st) + unat (map_end - m) \<le> unat (ec_max_image_size config)"
      by (simp add: word_le_nat_alt unat_sub)
    then show "unat (pl_total_mapped st + (map_end - m)) = unat (pl_total_mapped st) + unat (map_end - m)"
      using u64_less [of "ec_max_image_size config"] by (simp add: unat_word_ariths)
  qed
  moreover have map_size: "sg_map_size s = map_end - m" by (simp add: s_def)
  ultimately have "segments_ok source config (pl_segments st @ [s])"
    using st room unfolding plan_ok_def segments_ok_def by (auto simp: sorted_wrt_append)
  moreover have "map_range t \<subseteq> {unat (pl_image_start st')..<unat (pl_image_end st')}" if "t \<in> set (pl_segments st) \<union> {s}" for t
  proof -
    have "unat (pl_image_start st') = min (unat m) (unat (pl_image_start st))"
      "unat (pl_image_end st') = max (unat map_end) (unat (pl_image_end st))"
      by (auto simp: c(4) word_less_nat_alt)
    moreover have "map_range t \<subseteq> {unat (pl_image_start st)..<unat (pl_image_end st)}" if "t \<in> set (pl_segments st)"
      using st that by (auto simp: plan_ok_def)
    ultimately show ?thesis using that range by fastforce
  qed
  ultimately show ?thesis
    using st total(1) map_size unfolding plan_ok_def by (simp add: c(4))
qed

lemma plan_header_ok:
  assumes "plan_ok source config st" "valid_config config" "plan_header source config bias ph st = Inr st'"
  shows "plan_ok source config st'"
proof (cases "ph_type ph \<noteq> 1 \<or> ph_memsz ph = 0")
  case True
  then show ?thesis using assms(1,3) by (auto simp: plan_header_def split: if_splits)
next
  case False
  then obtain address memory_end where a: "elf_add_overflow_u64 address (ph_memsz ph) = Some memory_end"
    "plan_segment config ph address memory_end st = Inr st'" "length (pl_segments st) < unat (ec_max_segments config)"
    "ph_filesz ph \<le> ph_memsz ph" "range_in_file source (ph_offset ph) (ph_filesz ph)"
    "\<not> (ph_flags ph AND 2 \<noteq> 0 \<and> ph_flags ph AND 1 \<noteq> 0 \<and> \<not> ec_allow_writable_executable config)"
    using assms(3) unfolding plan_header_def Let_def by (auto split: if_splits option.splits)
  show ?thesis
    using assms(1,2) False a elf_add_overflow [OF a(1)]
    by (intro plan_segment_ok [OF assms(1) _ a(3) _ a(4,5,6) _ a(2)]) (auto simp: valid_config_def)
qed

lemma plan_loop_ok:
  "plan_ok source config st \<Longrightarrow> valid_config config \<Longrightarrow> plan_loop source config eh bias is st = Inr st' \<Longrightarrow>
   plan_ok source config st'"
proof (induction "is" arbitrary: st)
  case (Cons i "is")
  then obtain st1 where s: "plan_index source config eh bias i st = Inr st1" "plan_loop source config eh bias is st1 = Inr st'"
    by (auto split: sum.splits)
  then obtain ph where "plan_header source config bias ph st = Inr st1"
    by (auto simp: plan_index_def split: option.splits sum.splits)
  then show ?case using Cons.IH [OF plan_header_ok [OF Cons.prems(1,2)] Cons.prems(2) s(2)] by blast
qed simp

definition image_ok :: "ns_elf_source \<Rightarrow> ns_elf_config \<Rightarrow> ns_elf_image \<Rightarrow> bool" where
  "image_ok source config plan \<longleftrightarrow> segments_ok source config (im_segments plan) \<and>
     (\<exists>s \<in> set (im_segments plan). sg_flags s AND NS_ELF_MAP_EXEC \<noteq> 0 \<and>
        unat (im_entry plan) \<in> {unat (sg_address s)..<unat (sg_address s) + unat (sg_memory_size s)}) \<and>
     (\<forall>s \<in> set (im_segments plan). map_range s \<subseteq> {unat (im_image_start plan)..<unat (im_image_end plan)})"

lemma segment_end:
  assumes "segment_ok source config s"
  shows "unat (sg_address s + sg_memory_size s) = unat (sg_address s) + unat (sg_memory_size s)"
  using assms u64_less [of "ec_user_max config"] by (simp add: segment_ok_def unat_word_ariths)

lemma ns_elf64_plan_ok:
  assumes "ns_elf64_plan source config = Inr plan"
  shows "image_ok source config plan"
proof -
  obtain eh where v: "valid_config config" "plan_segments source config eh = Inr plan"
    using assms unfolding ns_elf64_plan_def Let_def by (auto split: if_splits sum.splits option.splits)
  define bias where "bias = (if eh_type eh = 3 then ec_dynamic_bias config else 0)"
  define st0 where "st0 = \<lparr>pl_total_mapped = 0, pl_image_start = ec_user_max config,
    pl_image_end = ec_user_min config, pl_segments = []\<rparr>"
  obtain st where st: "plan_loop source config eh bias [0..<unat (eh_phnum eh)] st0 = Inr st"
    "list_ex (contains_entry (im_entry plan)) (pl_segments st)" "im_segments plan = pl_segments st"
    "im_image_start plan = pl_image_start st" "im_image_end plan = pl_image_end st"
    using v(2) unfolding plan_segments_def Let_def bias_def [symmetric] st0_def [symmetric]
    by (auto split: if_splits sum.splits option.splits)
  have "plan_ok source config st0" by (simp add: plan_ok_def segments_ok_def st0_def)
  from plan_loop_ok [OF this v(1) st(1)] have ok: "plan_ok source config st" .
  obtain s where s: "s \<in> set (pl_segments st)" "contains_entry (im_entry plan) s"
    using st(2) by (auto simp: list_ex_iff)
  then have "segment_ok source config s" using ok by (simp add: plan_ok_def segments_ok_def)
  from segment_end [OF this] s(2)
  have "unat (im_entry plan) \<in> {unat (sg_address s)..<unat (sg_address s) + unat (sg_memory_size s)}"
    by (simp add: contains_entry_def word_le_nat_alt word_less_nat_alt)
  then show ?thesis using ok s st(3-5) by (auto simp: image_ok_def plan_ok_def contains_entry_def)
qed

end
