(* ===== verification/Elf_Props.thy ===== *)
theory Elf_Props
  imports Elf_Plan
begin

text \<open>
  What the calls of a load do to memory and to the set of mapped ranges, that a failed load undoes its
  mappings, and the properties of the loader.
\<close>

unbundle bit_operations_syntax

section \<open>Calls of the mapper\<close>

text \<open>What the calls do to the bytes in memory, and which ranges they leave mapped.\<close>

fun apply_call :: "mapper_call \<Rightarrow> (nat \<Rightarrow> u8) \<Rightarrow> nat \<Rightarrow> u8" where
  "apply_call (Write a bs) m x = (if unat a \<le> x \<and> x < unat a + length bs then bs ! (x - unat a) else m x)"
| "apply_call (Zero a n) m x = (if unat a \<le> x \<and> x < unat a + unat n then 0 else m x)"
| "apply_call _ m x = m x"

definition run_calls :: "mapper_call list \<Rightarrow> (nat \<Rightarrow> u8) \<Rightarrow> nat \<Rightarrow> u8" where
  "run_calls calls = fold apply_call calls"

fun map_step :: "bool \<Rightarrow> mapper_call \<Rightarrow> (u64 \<times> u64) list \<Rightarrow> (u64 \<times> u64) list" where
  "map_step ok (Map a n _) r = (if ok then r @ [(a, n)] else r)"
| "map_step ok (Unmap a n) r = remove1 (a, n) r"
| "map_step ok _ r = r"

definition mapped_ranges :: "mapper \<Rightarrow> mapper_call list \<Rightarrow> (u64 \<times> u64) list" where
  "mapped_ranges m calls = fold (\<lambda>i. map_step (m (take (i + 1) calls)) (calls ! i)) [0..<length calls] []"

lemma mapped_ranges_snoc:
  "mapped_ranges m (calls @ [c]) = map_step (m (calls @ [c])) c (mapped_ranges m calls)"
proof -
  have "fold (\<lambda>i. map_step (m (take (i + 1) (calls @ [c]))) ((calls @ [c]) ! i)) [0..<length calls] [] =
      fold (\<lambda>i. map_step (m (take (i + 1) calls)) (calls ! i)) [0..<length calls] []"
    by (rule fold_cong) (simp_all add: nth_append)
  then show ?thesis by (simp add: mapped_ranges_def)
qed

lemma run_calls_append: "run_calls (xs @ ys) m = run_calls ys (run_calls xs m)"
  by (simp add: run_calls_def)

section \<open>Copying\<close>

text \<open>The contract of the source: a successful read delivers the bytes of the file.\<close>

definition reads_file :: "ns_elf_source \<Rightarrow> (nat \<Rightarrow> u8) \<Rightarrow> bool" where
  "reads_file source content \<longleftrightarrow>
     (\<forall>offset n f i. es_read source offset n = Some f \<longrightarrow> i < n \<longrightarrow> f i = content (unat offset + i))"

definition copied_to :: "(nat \<Rightarrow> u8) \<Rightarrow> ns_elf_segment \<Rightarrow> nat \<Rightarrow> (nat \<Rightarrow> u8) \<Rightarrow> nat \<Rightarrow> u8" where
  "copied_to content s k m x =
     (if unat (sg_address s) + k \<le> x \<and> x < unat (sg_address s) + unat (sg_file_size s)
      then content (unat (sg_file_offset s) + (x - unat (sg_address s))) else m x)"

definition inside :: "ns_elf_segment \<Rightarrow> mapper_call \<Rightarrow> bool" where
  "inside s c \<longleftrightarrow> (\<exists>a bs. c = Write a bs \<and> {unat a..<unat a + length bs} \<subseteq> map_range s) \<or>
     (\<exists>a n. c = Zero a n \<and> {unat a..<unat a + unat n} \<subseteq> map_range s)"

definition copies :: "ns_elf_source \<Rightarrow> mapper \<Rightarrow> ns_elf_segment \<Rightarrow> nat \<Rightarrow> mapper_call list \<Rightarrow> int \<Rightarrow> mapper_call list \<Rightarrow> bool" where
  "copies source m s k calls e calls' \<longleftrightarrow>
     mapped_ranges m calls' = mapped_ranges m calls \<and>
     (\<exists>ws. calls' = calls @ ws \<and> (\<forall>w \<in> set ws. inside s w) \<and>
       (e = 0 \<longrightarrow> (\<forall>content mem. reads_file source content \<longrightarrow> run_calls ws mem = copied_to content s k mem)))"

lemma segment_offsets:
  assumes "segment_ok source config s" "unat k \<le> unat (sg_file_size s)"
  shows "unat (sg_file_offset s + k) = unat (sg_file_offset s) + unat k" "unat (sg_address s + k) = unat (sg_address s) + unat k"
proof -
  have "unat (sg_file_offset s) + unat k < 18446744073709551616" "unat (sg_address s) + unat k < 18446744073709551616"
    using assms u64_less [of "es_size source"] u64_less [of "ec_user_max config"] unfolding segment_ok_def by linarith+
  then show "unat (sg_file_offset s + k) = unat (sg_file_offset s) + unat k" "unat (sg_address s + k) = unat (sg_address s) + unat k"
    by (simp_all add: unat_word_ariths)
qed

lemma segment_inside:
  assumes "segment_ok source config s" "unat (sg_address s) \<le> a" "b \<le> unat (sg_address s) + unat (sg_memory_size s)"
  shows "{a..<b} \<subseteq> map_range s"
proof -
  have "{a..<b} \<subseteq> {unat (sg_address s)..<unat (sg_address s) + unat (sg_memory_size s)}" using assms(2,3) by auto
  moreover have "{unat (sg_address s)..<unat (sg_address s) + unat (sg_memory_size s)} \<subseteq> map_range s"
    using assms(1) unfolding segment_ok_def by blast
  ultimately show ?thesis by (rule subset_trans)
qed

lemma write_then_copy:
  assumes "segment_ok source config s" "reads_file source content" "es_read source (sg_file_offset s + copied) n = Some f"
    "unat copied + n \<le> unat (sg_file_size s)"
  shows "copied_to content s (unat copied + n) (apply_call (Write (sg_address s + copied) (map f [0..<n])) mem) =
    copied_to content s (unat copied) mem"
proof
  fix x
  have k: "unat copied \<le> unat (sg_file_size s)" using assms(4) by simp
  note off = segment_offsets [OF assms(1) k]
  have "f i = content (unat (sg_file_offset s) + unat copied + i)" if "i < n" for i
    using assms(2) [unfolded reads_file_def, rule_format, OF assms(3) that] by (simp add: off(1))
  moreover define i where "i = x - (unat (sg_address s) + unat copied)"
  ultimately show "copied_to content s (unat copied + n) (apply_call (Write (sg_address s + copied) (map f [0..<n])) mem) x =
      copied_to content s (unat copied) mem x"
    using assms(4) off(2) by (auto simp: copied_to_def add.assoc)
qed

lemma copy_loop_copies:
  "segment_ok source config s \<Longrightarrow> unat copied \<le> unat (sg_file_size s) \<Longrightarrow>
   copy_loop source m s copied calls = (e, calls') \<Longrightarrow> copies source m s (unat copied) calls e calls'"
proof (induction source m s copied calls rule: copy_loop.induct)
  case (1 source m s copied calls)
  show ?case
  proof (cases "copied < sg_file_size s")
    case False
    then have "unat copied = unat (sg_file_size s)" using 1(3) by (simp add: word_less_nat_alt)
    then have "copied_to content s (unat copied) mem = mem" for content mem by (intro ext) (auto simp: copied_to_def)
    then show ?thesis using 1(4) False by (auto simp: copy_loop.simps copies_def run_calls_def)
  next
    case True
    define n where "n = (if sg_file_size s - copied < 512 then unat (sg_file_size s - copied) else 512)"
    note n = chunk_step [OF True n_def]
    define w where "w bytes = Write (sg_address s + copied) bytes" for bytes
    note loop = copy_loop.simps [of source m s copied calls, unfolded Let_def n_def [symmetric] w_def [symmetric]]
    note off = segment_offsets [OF 1(2,3)]
    show ?thesis
    proof (cases "source_read source (sg_file_offset s + copied) n")
      case (Inl x)
      then have "x \<noteq> 0" by (auto simp: source_read_def split: if_splits option.splits)
      then show ?thesis using 1(4) True Inl by (auto simp: loop copies_def)
    next
      case (Inr bytes)
      then obtain f where f: "es_read source (sg_file_offset s + copied) n = Some f" "bytes = map f [0..<n]"
        by (auto simp: source_read_def split: if_splits option.splits)
      have "unat (sg_address s + copied) + n \<le> unat (sg_address s) + unat (sg_memory_size s)"
        using n(3) off(2) 1(2) by (simp add: segment_ok_def)
      then have ins: "inside s (w bytes)"
        using segment_inside [OF 1(2), of "unat (sg_address s + copied)" "unat (sg_address s + copied) + n"] off(2) f(2)
        by (simp add: inside_def w_def)
      have maps: "mapped_ranges m (calls @ [w bytes]) = mapped_ranges m calls" by (simp add: mapped_ranges_snoc w_def)
      show ?thesis
      proof (cases "m (calls @ [w bytes])")
        case False
        then show ?thesis using 1(4) True Inr ins maps by (auto simp: loop copies_def)
      next
        case acc: True
        have "copies source m s (unat (copied + of_nat n)) (calls @ [w bytes]) e calls'"
          using 1(1) [OF True refl n_def Inr refl _ 1(2)] 1(4) n True Inr acc by (auto simp: loop w_def)
        then obtain ws where ws: "calls' = calls @ [w bytes] @ ws" "\<forall>v \<in> set ws. inside s v"
          "mapped_ranges m calls' = mapped_ranges m calls"
          "e = 0 \<longrightarrow> (\<forall>content mem. reads_file source content \<longrightarrow> run_calls ws mem = copied_to content s (unat copied + n) mem)"
          using maps n(2) by (auto simp: copies_def)
        have "run_calls ([w bytes] @ ws) mem = copied_to content s (unat copied) mem"
          if "e = 0" "reads_file source content" for content mem
          using write_then_copy [OF 1(2) that(2) f(1) n(3), of mem] ws(4) that
          unfolding run_calls_append f(2) w_def by (simp add: run_calls_def)
        then show ?thesis
          unfolding copies_def using ws ins by (intro conjI exI [of _ "[w bytes] @ ws"]) auto
      qed
    qed
  qed
qed

section \<open>Loading\<close>

fun is_Protect :: "mapper_call \<Rightarrow> bool" where
  "is_Protect (Protect _ _ _) = True"
| "is_Protect _ = False"

definition rng :: "ns_elf_segment \<Rightarrow> u64 \<times> u64" where
  "rng s = (sg_map_address s, sg_map_size s)"

text \<open>The bytes of a loaded segment: the file's, then zeros.\<close>

definition loaded :: "(nat \<Rightarrow> u8) \<Rightarrow> ns_elf_segment \<Rightarrow> (nat \<Rightarrow> u8) \<Rightarrow> nat \<Rightarrow> u8" where
  "loaded content s m x =
     (if unat (sg_address s) \<le> x \<and> x < unat (sg_address s) + unat (sg_memory_size s)
      then if x < unat (sg_address s) + unat (sg_file_size s)
           then content (unat (sg_file_offset s) + (x - unat (sg_address s))) else 0
      else m x)"

definition loads :: "ns_elf_source \<Rightarrow> mapper \<Rightarrow> ns_elf_segment list \<Rightarrow> nat \<Rightarrow> mapper_call list \<Rightarrow> int \<Rightarrow> nat \<Rightarrow> mapper_call list \<Rightarrow> bool" where
  "loads source m ss k calls e k' calls' \<longleftrightarrow>
     (\<exists>n ws. k' = k + n \<and> n \<le> length ss \<and> (e = 0 \<longrightarrow> n = length ss) \<and> calls' = calls @ ws \<and> filter is_Protect ws = [] \<and>
       mapped_ranges m calls' = mapped_ranges m calls @ map rng (take n ss) \<and>
       (e = 0 \<longrightarrow> (\<forall>content mem. reads_file source content \<longrightarrow> run_calls ws mem = fold (loaded content) ss mem)))"

lemma loads_more:
  assumes "loads source m ss (k + 1) calls1 e k' calls'" "calls1 = calls @ vs" "filter is_Protect vs = []"
    "mapped_ranges m calls1 = mapped_ranges m calls @ [rng s]"
    "\<And>content mem. reads_file source content \<Longrightarrow> run_calls vs mem = loaded content s mem"
  shows "loads source m (s # ss) k calls e k' calls'"
proof -
  obtain n ws where "k' = k + 1 + n" "n \<le> length ss" "e = 0 \<longrightarrow> n = length ss" "calls' = calls1 @ ws"
    "filter is_Protect ws = []"
    "mapped_ranges m calls' = mapped_ranges m calls1 @ map rng (take n ss)"
    "e = 0 \<longrightarrow> (\<forall>content mem. reads_file source content \<longrightarrow> run_calls ws mem = fold (loaded content) ss mem)"
    using assms(1) by (auto simp: loads_def)
  then show ?thesis
    unfolding loads_def using assms(2-5)
    by (intro exI [of _ "n + 1"] exI [of _ "vs @ ws"]) (simp add: run_calls_append)
qed

lemma loads_stop:
  "e \<noteq> 0 \<Longrightarrow> calls' = calls @ vs \<Longrightarrow> filter is_Protect vs = [] \<Longrightarrow> n \<le> length ss \<Longrightarrow>
   mapped_ranges m calls' = mapped_ranges m calls @ map rng (take n ss) \<Longrightarrow> loads source m ss k calls e (k + n) calls'"
  unfolding loads_def by (intro exI [of _ n] exI [of _ vs]) simp

lemma load_segments_loads:
  "\<forall>s \<in> set ss. segment_ok source config s \<Longrightarrow> load_segments source m ss k calls = (e, k', calls') \<Longrightarrow>
   loads source m ss k calls e k' calls'"
proof (induction ss arbitrary: k calls)
  case Nil
  then show ?case by (simp add: loads_def run_calls_def)
next
  case (Cons s ss)
  have ok: "segment_ok source config s" using Cons.prems(1) by simp
  define c0 where "c0 = Map (sg_map_address s) (sg_map_size s) (8 OR 1 OR 2)"
  obtain e1 calls1 where copy: "copy_loop source m s 0 (calls @ [c0]) = (e1, calls1)"
    by (cases "copy_loop source m s 0 (calls @ [c0])")
  define z where "z = Zero (sg_address s + sg_file_size s) (sg_memory_size s - sg_file_size s)"
  note step = Cons.prems(2) [unfolded load_segments.simps Let_def c0_def [symmetric] copy prod.case z_def [symmetric]]
  show ?case
  proof (cases "m (calls @ [c0])")
    case False
    then show ?thesis
      using step loads_stop [of e calls' calls "[c0]" 0 "s # ss" m source k] by (auto simp: mapped_ranges_snoc c0_def)
  next
    case acc: True
    have "mapped_ranges m (calls @ [c0]) = mapped_ranges m calls @ [rng s]"
      using acc by (simp add: mapped_ranges_snoc c0_def rng_def)
    moreover have "copies source m s 0 (calls @ [c0]) e1 calls1"
      using copy_loop_copies [OF ok _ copy] by simp
    ultimately obtain ws where ws: "calls1 = calls @ [c0] @ ws" "mapped_ranges m calls1 = mapped_ranges m calls @ [rng s]"
      "e1 = 0 \<longrightarrow> (\<forall>content mem. reads_file source content \<longrightarrow> run_calls ws mem = copied_to content s 0 mem)"
      "\<forall>w \<in> set ws. inside s w"
      by (auto simp: copies_def)
    have "\<forall>w \<in> set ws. \<not> is_Protect w" using ws(4) by (auto simp: inside_def)
    then have np: "filter is_Protect ([c0] @ ws) = []" "filter is_Protect ([c0] @ ws @ [z]) = []"
      by (auto simp: c0_def z_def filter_empty_conv)
    have zmap: "mapped_ranges m (calls1 @ [z]) = mapped_ranges m calls @ [rng s]"
      using ws(2) by (simp add: mapped_ranges_snoc z_def)
    have c0: "run_calls [c0] mem = mem" for mem by (auto simp: run_calls_def c0_def)
    have sizes: "unat (sg_file_size s) \<le> unat (sg_memory_size s)" using ok by (simp add: segment_ok_def)
    show ?thesis
    proof (cases "e1 = 0")
      case False
      then show ?thesis
        using step acc ws(1,2) np loads_stop [of e calls' calls "[c0] @ ws" 1 "s # ss" m source k] by auto
    next
      case e1: True
      show ?thesis
      proof (cases "sg_memory_size s > sg_file_size s")
        case False
        then have eq: "sg_file_size s = sg_memory_size s" using sizes by (simp add: word_less_nat_alt word_unat_eq_iff)
        have eff: "run_calls ([c0] @ ws) mem = loaded content s mem" if "reads_file source content" for content mem
          using ws(3) e1 that unfolding run_calls_append c0 by (auto simp: copied_to_def loaded_def eq)
        have "loads source m ss (k + 1) calls1 e k' calls'"
          using step acc e1 False Cons.prems(1) by (intro Cons.IH) auto
        from loads_more [OF this ws(1) np(1) ws(2) eff] show ?thesis .
      next
        case True
        then have zsize: "unat (sg_memory_size s - sg_file_size s) = unat (sg_memory_size s) - unat (sg_file_size s)"
          "unat (sg_address s + sg_file_size s) = unat (sg_address s) + unat (sg_file_size s)"
          using sizes segment_offsets(2) [OF ok, of "sg_file_size s"] by (simp_all add: unat_sub word_le_nat_alt)
        have eff: "run_calls ([c0] @ ws @ [z]) mem = loaded content s mem" if "reads_file source content" for content mem
        proof -
          have "run_calls ([c0] @ ws @ [z]) mem = apply_call z (copied_to content s 0 mem)"
            using ws(3) e1 that unfolding run_calls_append c0 by (simp add: run_calls_def)
          then show ?thesis using sizes zsize by (auto simp: z_def copied_to_def loaded_def)
        qed
        show ?thesis
        proof (cases "m (calls1 @ [z])")
          case False
          then show ?thesis
            using step acc e1 True ws(1) np zmap loads_stop [of e calls' calls "[c0] @ ws @ [z]" 1 "s # ss" m source k] by auto
        next
          case zacc: True
          then have "loads source m ss (k + 1) (calls1 @ [z]) e k' calls'"
            using step acc e1 True Cons.prems(1) by (intro Cons.IH) auto
          moreover have "calls1 @ [z] = calls @ [c0] @ ws @ [z]" using ws(1) by simp
          ultimately show ?thesis using np(2) zmap eff by (rule loads_more)
        qed
      qed
    qed
  qed
qed

lemma protect_segments_calls:
  "protect_segments m ss calls = (e, calls') \<Longrightarrow>
   \<exists>n. calls' = calls @ map (\<lambda>s. Protect (sg_map_address s) (sg_map_size s) (sg_flags s)) (take n ss) \<and>
     (e = 0 \<longrightarrow> n = length ss) \<and> mapped_ranges m calls' = mapped_ranges m calls"
proof (induction ss arbitrary: calls)
  case (Cons s ss)
  define c where "c = Protect (sg_map_address s) (sg_map_size s) (sg_flags s)"
  have maps: "mapped_ranges m (calls @ [c]) = mapped_ranges m calls" by (simp add: mapped_ranges_snoc c_def)
  show ?case
  proof (cases "m (calls @ [c])")
    case False
    then show ?thesis using Cons.prems maps by (intro exI [of _ 1]) (auto simp: Let_def c_def)
  next
    case True
    then have "protect_segments m ss (calls @ [c]) = (e, calls')" using Cons.prems by (simp add: c_def)
    from Cons.IH [OF this] obtain n where n: "calls' = (calls @ [c]) @ map (\<lambda>s. Protect (sg_map_address s) (sg_map_size s) (sg_flags s)) (take n ss)"
      "e = 0 \<longrightarrow> n = length ss" "mapped_ranges m calls' = mapped_ranges m calls" using maps by auto
    then show ?thesis by (intro exI [of _ "n + 1"]) (simp add: c_def)
  qed
qed auto

lemma rng_distinct:
  assumes "segments_ok source config ss"
  shows "distinct (map rng ss)"
proof -
  have "rng s \<noteq> rng t" if "s \<in> set ss" "map_range s \<inter> map_range t = {}" for s t
  proof
    assume "rng s = rng t"
    then have "map_range s = {}" using that(2) by (simp add: rng_def map_range_def)
    moreover have "unat (sg_address s) \<in> map_range s"
      using assms that(1) segment_inside [of source config s "unat (sg_address s)" "unat (sg_address s) + 1"]
      by (auto simp: segments_ok_def segment_ok_def)
    ultimately show False by simp
  qed
  then have "sorted_wrt (\<lambda>s t. rng s \<noteq> rng t) ss"
    using assms unfolding segments_ok_def by (auto intro: sorted_wrt_mono_rel [rotated])
  then show ?thesis by (induction ss) auto
qed

lemma rollback_unmaps:
  "distinct (map rng ss) \<Longrightarrow> k \<le> length ss \<Longrightarrow> mapped_ranges m calls = map rng (take k ss) \<Longrightarrow>
   mapped_ranges m (rollback ss k calls) = []"
proof (induction k arbitrary: calls)
  case (Suc k)
  have "map rng (take (Suc k) ss) = map rng (take k ss) @ [rng (ss ! k)]"
    using Suc.prems(2) by (simp add: take_Suc_conv_app_nth)
  moreover have "distinct (map rng (take (Suc k) ss))" using Suc.prems(1) by (simp add: distinct_take flip: take_map)
  ultimately have "remove1 (rng (ss ! k)) (map rng (take (Suc k) ss)) = map rng (take k ss)"
    by (simp add: remove1_append)
  then have "mapped_ranges m (calls @ [Unmap (sg_map_address (ss ! k)) (sg_map_size (ss ! k))]) = map rng (take k ss)"
    unfolding mapped_ranges_snoc Suc.prems(3) map_step.simps by (simp add: rng_def)
  from Suc.IH [OF Suc.prems(1) _ this] show ?case using Suc.prems(2) by simp
qed simp

text \<open>The only reasons for a load to fail: the mapper refused a call, or a read inside the file failed.\<close>

definition blame :: "ns_elf_source \<Rightarrow> mapper \<Rightarrow> mapper_call list \<Rightarrow> bool" where
  "blame source m calls \<longleftrightarrow> (\<exists>k < length calls. \<not> m (take (k + 1) calls)) \<or>
     (\<exists>offset n. range_in_file source offset (of_nat n) \<and> es_read source offset n = None)"

lemma blame_append:
  assumes "blame source m calls"
  shows "blame source m (calls @ ws)"
proof (cases "\<exists>k < length calls. \<not> m (take (k + 1) calls)")
  case True
  then obtain k where "k < length calls" "\<not> m (take (k + 1) calls)" by blast
  then show ?thesis unfolding blame_def by (intro disjI1 exI [of _ k]) simp
qed (use assms in \<open>auto simp: blame_def\<close>)

lemma blame_refused: "\<not> m (calls @ [c]) \<Longrightarrow> blame source m (calls @ [c])"
  unfolding blame_def by (intro disjI1 exI [of _ "length calls"]) simp

lemma copy_loop_blame:
  "segment_ok source config s \<Longrightarrow> unat copied \<le> unat (sg_file_size s) \<Longrightarrow>
   copy_loop source m s copied calls = (e, calls') \<Longrightarrow> e \<noteq> 0 \<Longrightarrow> blame source m calls'"
proof (induction source m s copied calls rule: copy_loop.induct)
  case (1 source m s copied calls)
  have less: "copied < sg_file_size s" using 1(4,5) by (auto simp: copy_loop.simps split: if_splits)
  define n where "n = (if sg_file_size s - copied < 512 then unat (sg_file_size s - copied) else 512)"
  note n = chunk_step [OF less n_def]
  note loop = copy_loop.simps [of source m s copied calls, unfolded Let_def n_def [symmetric]]
  have "unat (sg_file_offset s + copied) + n \<le> unat (es_size source)"
    using segment_offsets(1) [OF 1(2,3)] n(3) 1(2) by (simp add: segment_ok_def)
  then have range: "range_in_file source (sg_file_offset s + copied) (of_nat n)"
    unfolding range_in_file_def word_le_nat_alt by (subst unat_sub) (auto simp: word_le_nat_alt n(4))
  show ?case
  proof (cases "es_read source (sg_file_offset s + copied) n")
    case None
    then show ?thesis using range unfolding blame_def by blast
  next
    case (Some f)
    then have sr: "source_read source (sg_file_offset s + copied) n = Inr (map f [0..<n])" using range by (simp add: source_read_def)
    show ?thesis
    proof (cases "m (calls @ [Write (sg_address s + copied) (map f [0..<n])])")
      case True
      then show ?thesis using 1(1) [OF less refl n_def sr refl _ 1(2)] 1(4,5) n less sr by (auto simp: loop)
    next
      case False
      then show ?thesis using 1(4) less sr by (auto simp: loop blame_refused)
    qed
  qed
qed

lemma load_segments_blame:
  "\<forall>s \<in> set ss. segment_ok source config s \<Longrightarrow> load_segments source m ss k calls = (e, k', calls') \<Longrightarrow> e \<noteq> 0 \<Longrightarrow>
   blame source m calls'"
proof (induction ss arbitrary: k calls)
  case (Cons s ss)
  define c0 where "c0 = calls @ [Map (sg_map_address s) (sg_map_size s) (8 OR 1 OR 2)]"
  obtain e1 calls1 where copy: "copy_loop source m s 0 c0 = (e1, calls1)" by (cases "copy_loop source m s 0 c0")
  note step = Cons.prems(2) [unfolded load_segments.simps Let_def c0_def [symmetric] copy prod.case]
  have "blame source m calls1" if "e1 \<noteq> 0" using copy_loop_blame [of source config s 0 m c0 e1 calls1] copy that Cons.prems(1) by simp
  moreover have "blame source m c0" if "\<not> m c0" using that unfolding c0_def by (rule blame_refused)
  ultimately show ?case
    using step Cons.IH Cons.prems(1,3) blame_refused by (auto split: if_splits)
qed simp

lemma protect_segments_blame:
  "protect_segments m ss calls = (e, calls') \<Longrightarrow> e \<noteq> 0 \<Longrightarrow> blame source m calls'"
  by (induction ss arbitrary: calls) (auto simp: Let_def blame_refused split: if_splits)

lemma rollback_blame: "blame source m calls \<Longrightarrow> blame source m (rollback ss k calls)"
  by (induction k arbitrary: calls) (simp_all add: blame_append)

text \<open>Segments that lie in disjoint ranges do not overwrite one another.\<close>

definition bytes_of :: "ns_elf_segment \<Rightarrow> nat set" where
  "bytes_of s = {unat (sg_address s)..<unat (sg_address s) + unat (sg_memory_size s)}"

lemma loaded_outside: "x \<notin> bytes_of s \<Longrightarrow> loaded content s mem x = mem x"
  by (auto simp: loaded_def bytes_of_def)

lemma loaded_inside: "x \<in> bytes_of s \<Longrightarrow> loaded content s mem x = loaded content s mem' x"
  by (simp add: loaded_def bytes_of_def)

lemma fold_loaded_outside: "\<forall>s \<in> set ss. x \<notin> bytes_of s \<Longrightarrow> fold (loaded content) ss mem x = mem x"
  by (induction ss arbitrary: mem) (simp_all add: loaded_outside)

lemma fold_loaded_inside:
  "sorted_wrt (\<lambda>s t. bytes_of s \<inter> bytes_of t = {}) ss \<Longrightarrow> s \<in> set ss \<Longrightarrow> x \<in> bytes_of s \<Longrightarrow>
   fold (loaded content) ss mem x = loaded content s mem' x"
proof (induction ss arbitrary: mem)
  case (Cons t ss)
  show ?case
  proof (cases "s = t")
    case True
    then have "\<forall>u \<in> set ss. x \<notin> bytes_of u" using Cons.prems by auto
    then have "fold (loaded content) (t # ss) mem x = loaded content t mem x" by (simp add: fold_loaded_outside)
    then show ?thesis using True loaded_inside [OF Cons.prems(3)] by metis
  next
    case False
    then show ?thesis using Cons by simp
  qed
qed simp

lemma segments_ok_bytes:
  assumes "segments_ok source config ss"
  shows "sorted_wrt (\<lambda>s t. bytes_of s \<inter> bytes_of t = {}) ss"
proof -
  have "bytes_of s \<subseteq> map_range s" if "s \<in> set ss" for s
    using assms that by (simp add: segments_ok_def segment_ok_def bytes_of_def)
  then have "map_range s \<inter> map_range t = {} \<longrightarrow> bytes_of s \<inter> bytes_of t = {}" if "s \<in> set ss" "t \<in> set ss" for s t
    using that by blast
  then show ?thesis
    using assms sorted_wrt_mono_rel [of ss "\<lambda>s t. map_range s \<inter> map_range t = {}"] by (simp add: segments_ok_def)
qed

section \<open>An example image\<close>

text \<open>One segment, readable and executable, of 200 bytes of which the file has 120.\<close>

definition tiny_elf :: "u8 list" where
  "tiny_elf =
    [127, 69, 76, 70, 2, 1, 1, 0, 0, 0, 0, 0, 0, 0, 0, 0, 2, 0, 62, 0, 1, 0, 0, 0, 120, 0, 64, 0, 0, 0,
     0, 0, 64, 0, 0, 0, 0, 0, 0, 0, 0, 0, 0, 0, 0, 0, 0, 0, 0, 0, 0, 0, 64, 0, 56, 0, 1, 0, 0, 0, 0, 0,
     0, 0, 1, 0, 0, 0, 5, 0, 0, 0, 0, 0, 0, 0, 0, 0, 0, 0, 0, 0, 64, 0, 0, 0, 0, 0, 0, 0, 0, 0, 0, 0, 0,
     0, 120, 0, 0, 0, 0, 0, 0, 0, 200, 0, 0, 0, 0, 0, 0, 0, 0, 16, 0, 0, 0, 0, 0, 0]"

definition tiny_source :: ns_elf_source where
  "tiny_source = \<lparr>es_size = 120, es_read = (\<lambda>offset n. Some (\<lambda>i. tiny_elf ! (unat offset + i)))\<rparr>"

definition tiny_config :: ns_elf_config where
  "tiny_config = \<lparr>ec_user_min = 0x1000, ec_user_max = 0x800000000000, ec_page_size = 4096, ec_dynamic_bias = 0,
     ec_max_image_size = 0x100000, ec_max_segments = 8, ec_allow_dynamic = False, ec_allow_writable_executable = False\<rparr>"

definition tiny_plan :: ns_elf_image where
  "tiny_plan = \<lparr>im_entry = 0x400078, im_image_start = 0x400000, im_image_end = 0x401000, im_load_bias = 0,
     im_segments = [\<lparr>sg_address = 0x400000, sg_memory_size = 200, sg_file_size = 120, sg_file_offset = 0,
       sg_map_address = 0x400000, sg_map_size = 0x1000, sg_flags = 13\<rparr>]\<rparr>"

lemma tiny_planned: "ns_elf64_plan tiny_source tiny_config = Inr tiny_plan"
  by code_simp

definition tiny_calls :: "mapper_call list" where
  "tiny_calls = [Map 0x400000 0x1000 11, Write 0x400000 tiny_elf, Zero 0x400078 80, Protect 0x400000 0x1000 13]"

lemma tiny_read: "source_read tiny_source 0 120 = Inr tiny_elf"
  by code_simp

lemma tiny_copy:
  assumes "s = im_segments tiny_plan ! 0" "m (calls @ [Write 0x400000 tiny_elf])"
  shows "copy_loop tiny_source m s 0 calls = (0, calls @ [Write 0x400000 tiny_elf])"
  by (subst copy_loop.simps, subst copy_loop.simps) (simp add: assms(1,2) tiny_plan_def tiny_read)

lemma tiny_load:
  assumes "\<forall>n < 3. m (take (n + 1) tiny_calls)"
  shows "ns_elf64_load tiny_source m tiny_config =
    (if m tiny_calls then (Inr tiny_plan, tiny_calls) else (Inl (- 21), tiny_calls @ [Unmap 0x400000 0x1000]))"
proof -
  have m: "m (take 1 tiny_calls)" "m (take 2 tiny_calls)" "m (take 3 tiny_calls)"
    using assms [rule_format, of 0] assms [rule_format, of 1] assms [rule_format, of 2] by (simp_all add: numeral_eq_Suc)
  then have "copy_loop tiny_source m (im_segments tiny_plan ! 0) 0 (take 1 tiny_calls) = (0, take 2 tiny_calls)"
    using tiny_copy [OF refl, of m "take 1 tiny_calls"] by (simp add: tiny_calls_def)
  then show ?thesis
    using m unfolding ns_elf64_load_def tiny_planned sum.case
    by (simp add: tiny_plan_def tiny_calls_def Let_def)
qed

section \<open>Properties\<close>

text \<open>C36. A plan that \<open>ns_elf64_plan\<close> accepts is safe, for any bytes of the image: all arithmetic is free of
  overflow, each of the at most 32 segments lies between \<open>user_min\<close> and \<open>user_max\<close>, its file part
  lies inside the file and its bytes inside its page-aligned mapping; the mappings are disjoint, inside
  the reported image range, and together not larger than the policy allows; no segment is writable and
  executable unless that is allowed; and the entry point lies in an executable segment.\<close>

theorem elf_plan_safe: "ns_elf64_plan source config = Inr plan \<Longrightarrow> image_ok source config plan"
  by (rule ns_elf64_plan_ok)

theorem elf_plan_safe_witness: "image_ok tiny_source tiny_config tiny_plan"
  by (rule elf_plan_safe [OF tiny_planned])

text \<open>C37. A successful load leaves exactly the planned ranges mapped, fills every segment with the bytes of the
  file followed by zeros and changes no other byte, and applies to every mapping the final protection
  of its segment, once.\<close>

theorem elf_load_correct:
  assumes "ns_elf64_load source m config = (Inr plan, calls)" "reads_file source content"
  shows "mapped_ranges m calls = map rng (im_segments plan) \<and>
    (\<forall>s \<in> set (im_segments plan). \<forall>i < unat (sg_memory_size s).
       run_calls calls mem (unat (sg_address s) + i) =
         (if i < unat (sg_file_size s) then content (unat (sg_file_offset s) + i) else 0)) \<and>
    (\<forall>x. (\<forall>s \<in> set (im_segments plan). x \<notin> bytes_of s) \<longrightarrow> run_calls calls mem x = mem x) \<and>
    filter is_Protect calls = map (\<lambda>s. Protect (sg_map_address s) (sg_map_size s) (sg_flags s)) (im_segments plan)"
proof -
  obtain k calls1 where r: "ns_elf64_plan source config = Inr plan"
    "load_segments source m (im_segments plan) 0 [] = (0, k, calls1)"
    "protect_segments m (im_segments plan) calls1 = (0, calls)"
    using assms(1) by (auto simp: ns_elf64_load_def split: sum.splits prod.splits if_splits)
  have ok: "segments_ok source config (im_segments plan)" using ns_elf64_plan_ok [OF r(1)] by (simp add: image_ok_def)
  then have "\<forall>s \<in> set (im_segments plan). segment_ok source config s" by (simp add: segments_ok_def)
  from load_segments_loads [OF this r(2)] have "loads source m (im_segments plan) 0 [] 0 k calls1" .
  then have l: "mapped_ranges m calls1 = map rng (im_segments plan)" "filter is_Protect calls1 = []"
    "run_calls calls1 mem = fold (loaded content) (im_segments plan) mem"
    using assms(2) by (auto simp: loads_def mapped_ranges_def)
  define ps where "ps = map (\<lambda>s. Protect (sg_map_address s) (sg_map_size s) (sg_flags s)) (im_segments plan)"
  have p: "calls = calls1 @ ps" "mapped_ranges m calls = mapped_ranges m calls1"
    using protect_segments_calls [OF r(3)] by (auto simp: ps_def)
  have "run_calls (map (\<lambda>s. Protect (a s) (b s) (c s)) ss) mem = mem" for a b c ss mem
    by (induction ss arbitrary: mem) (auto simp: run_calls_def)
  then have run: "run_calls calls mem = fold (loaded content) (im_segments plan) mem"
    by (simp add: p(1) run_calls_append l(3) ps_def)
  have "run_calls calls mem (unat (sg_address s) + i) =
      (if i < unat (sg_file_size s) then content (unat (sg_file_offset s) + i) else 0)"
    if "s \<in> set (im_segments plan)" "i < unat (sg_memory_size s)" for s i
    using fold_loaded_inside [OF segments_ok_bytes [OF ok] that(1), of "unat (sg_address s) + i" content mem mem] that(2)
    by (simp add: run bytes_of_def loaded_def)
  moreover have "run_calls calls mem x = mem x" if "\<forall>s \<in> set (im_segments plan). x \<notin> bytes_of s" for x
    using fold_loaded_outside [OF that] by (simp add: run)
  moreover have "filter is_Protect calls = ps" by (simp add: p(1) l(2) ps_def filter_map o_def)
  ultimately show ?thesis using p(2) l(1) by (simp add: ps_def)
qed

theorem elf_load_correct_witness:
  "run_calls tiny_calls (\<lambda>_. 7) 0x400001 = 0x45 \<and> run_calls tiny_calls (\<lambda>_. 7) 0x4000c7 = 0 \<and>
   mapped_ranges (\<lambda>_. True) tiny_calls = [(0x400000, 0x1000)]"
proof -
  have load: "ns_elf64_load tiny_source (\<lambda>_. True) tiny_config = (Inr tiny_plan, tiny_calls)" by (simp add: tiny_load)
  have "reads_file tiny_source (\<lambda>i. tiny_elf ! i)" by (simp add: reads_file_def tiny_source_def)
  note c = elf_load_correct [OF load this, of "\<lambda>_. 7"]
  define s where "s = im_segments tiny_plan ! 0"
  have s: "s \<in> set (im_segments tiny_plan)" "unat (sg_address s) = 0x400000" "unat (sg_memory_size s) = 200"
    "unat (sg_file_size s) = 120" "unat (sg_file_offset s) = 0" "map rng (im_segments tiny_plan) = [(0x400000, 0x1000)]"
    by (simp_all add: s_def tiny_plan_def rng_def)
  have "run_calls tiny_calls (\<lambda>_. 7) (0x400000 + i) = (if i < 120 then tiny_elf ! i else 0)" if "i < 200" for i
    using c [THEN conjunct2, THEN conjunct1, rule_format, OF s(1), of i] that unfolding s(2-5) add_0 .
  from this [of 1] this [of 199] show ?thesis using c s(6) by (simp add: tiny_elf_def)
qed

text \<open>C38. A failed load leaves nothing mapped: whichever call of the mapper or read of the source fails, in
  whichever segment, every range that was mapped has been unmapped when \<open>ns_elf64_load\<close> returns the
  error. And an image that passes the validation is refused only for such a reason: the mapper refused
  a call, or a read inside the file failed.\<close>

theorem elf_load_rollback:
  assumes "ns_elf64_load source m config = (Inl e, calls)"
  shows "mapped_ranges m calls = [] \<and> (ns_elf64_plan source config = Inl e \<or> blame source m calls)"
proof (cases "ns_elf64_plan source config")
  case (Inl x)
  then show ?thesis using assms by (simp add: ns_elf64_load_def mapped_ranges_def)
next
  case (Inr plan)
  define ss where "ss = im_segments plan"
  obtain e1 k calls1 where l: "load_segments source m ss 0 [] = (e1, k, calls1)" by (metis prod_cases3)
  obtain e2 calls2 where p: "protect_segments m ss calls1 = (e2, calls2)" by fastforce
  have ok: "segments_ok source config ss" using ns_elf64_plan_ok [OF Inr] by (simp add: image_ok_def ss_def)
  then have seg: "\<forall>s \<in> set ss. segment_ok source config s" by (simp add: segments_ok_def)
  from load_segments_loads [OF this l] have "loads source m ss 0 [] e1 k calls1" .
  then have k: "k \<le> length ss" "mapped_ranges m calls1 = map rng (take k ss)"
    by (auto simp: loads_def mapped_ranges_def)
  have "mapped_ranges m calls2 = map rng (take k ss)" using protect_segments_calls [OF p] k(2) by auto
  moreover have "calls = rollback ss k calls1 \<or> calls = rollback ss k calls2"
    using assms Inr l p by (auto simp: ns_elf64_load_def ss_def split: if_splits)
  ultimately have "mapped_ranges m calls = []" using rollback_unmaps [OF rng_distinct [OF ok] k(1)] k(2) by blast
  moreover have "blame source m calls"
    using assms Inr l p load_segments_blame [OF seg l] protect_segments_blame [OF p, of source]
    by (auto simp: ns_elf64_load_def ss_def [symmetric] rollback_blame split: if_splits)
  ultimately show ?thesis by blast
qed

theorem elf_load_rollback_witness:
  "ns_elf64_load tiny_source (\<lambda>calls. \<not> is_Protect (last calls)) tiny_config =
     (Inl NS_ELF_E_PROTECT, tiny_calls @ [Unmap 0x400000 0x1000]) \<and>
   mapped_ranges (\<lambda>calls. \<not> is_Protect (last calls)) (tiny_calls @ [Unmap 0x400000 0x1000]) = []"
proof -
  have "\<not> is_Protect (last (take (n + 1) tiny_calls))" if "n < 3" for n
    using that by (cases "n = 0"; cases "n = 1"; cases "n = 2") (simp_all add: tiny_calls_def)
  moreover have "is_Protect (last tiny_calls)" by (simp add: tiny_calls_def)
  ultimately have "ns_elf64_load tiny_source (\<lambda>calls. \<not> is_Protect (last calls)) tiny_config =
      (Inl (- 21), tiny_calls @ [Unmap 0x400000 0x1000])" by (simp add: tiny_load)
  from this elf_load_rollback [OF this] show ?thesis by simp
qed

text \<open>
  The limits of the user range bound the bytes of the segments, not the mappings: with limits that are
  not multiples of the page size, which \<open>valid_config\<close> accepts, a mapping can end after \<open>user_max\<close>.
\<close>

lemma elf_map_beyond_limit:
  "ns_elf64_plan tiny_source (tiny_config\<lparr>ec_user_max := 0x4000c8\<rparr>) = Inr tiny_plan \<and>
   im_image_end tiny_plan > 0x4000c8"
  by code_simp

end
