(* ===== verification/Block.thy ===== *)
theory Block
  imports Prelude Errno
begin

text \<open>
  The generic block layer, \<open>kernel/fs/block.c\<close>, and slices of a device, \<open>kernel/fs/block_slice.c\<close>. The
  functions behind \<open>device->ops\<close> are an argument, a \<open>block_driver\<close> over the driver's own state \<open>'c\<close>,
  which the device's context points to; a missing function pointer is \<open>None\<close>. A buffer is the list of
  its bytes, and a null buffer is \<open>None\<close>.
\<close>

unbundle bit_operations_syntax

section \<open>Devices\<close>

abbreviation (input) NS_BLOCK_DEVICE_MAGIC :: u32 where "NS_BLOCK_DEVICE_MAGIC \<equiv> 0x4e53424c"
abbreviation (input) NS_BLOCK_F_READ_ONLY :: u32 where "NS_BLOCK_F_READ_ONLY \<equiv> 1"
abbreviation (input) NS_BLOCK_F_REMOVABLE :: u32 where "NS_BLOCK_F_REMOVABLE \<equiv> 2"
abbreviation (input) NS_BLOCK_F_VOLATILE_WRITE_CACHE :: u32 where "NS_BLOCK_F_VOLATILE_WRITE_CACHE \<equiv> 4"
abbreviation (input) NS_BLOCK_F_ALL :: u32 where "NS_BLOCK_F_ALL \<equiv> 7"

abbreviation err :: "ns_errno \<Rightarrow> int" where "err e \<equiv> - ns_errno_value e"

text \<open>
  The functions of a driver: a status, the bytes a read delivers, and the new state; \<open>None\<close> is an
  access outside the driver's memory or a lock that is never free.
\<close>

record 'c block_driver =
  dr_read :: "(u64 \<Rightarrow> u32 \<Rightarrow> 'c \<Rightarrow> ((int \<times> u8 list) \<times> 'c) option) option"
  dr_write :: "(u64 \<Rightarrow> u32 \<Rightarrow> u8 list \<Rightarrow> 'c \<Rightarrow> (int \<times> 'c) option) option"
  dr_flush :: "('c \<Rightarrow> (int \<times> 'c) option) option"

text \<open>\<open>bd_ops\<close>: the pointer to the functions is not null.\<close>

record ns_block_device =
  bd_ops :: bool
  bd_sector_count :: u64
  bd_sector_size :: u32
  bd_max_transfer_sectors :: u32
  bd_flags :: u32
  bd_magic :: u32

definition ns_is_power_of_two_u32 :: "u32 \<Rightarrow> bool" where
  "ns_is_power_of_two_u32 value \<longleftrightarrow> value \<noteq> 0 \<and> value AND (value - 1) = 0"

definition ns_block_normalize_driver_result :: "int \<Rightarrow> int" where
  "ns_block_normalize_driver_result result = (if result > 0 then err NS_EPROTO else result)"

definition ns_block_device_init ::
  "'c block_driver \<Rightarrow> u32 \<Rightarrow> u64 \<Rightarrow> u32 \<Rightarrow> u32 \<Rightarrow> ns_block_device \<Rightarrow> int \<times> ns_block_device" where
  "ns_block_device_init ops sector_size sector_count max_transfer_sectors flags device =
     (if dr_read ops = None then (err NS_EINVAL, device)
      else if \<not> ns_is_power_of_two_u32 sector_size \<or> sector_count = 0 then (err NS_EINVAL, device)
      else if flags AND NOT NS_BLOCK_F_ALL \<noteq> 0 then (err NS_EINVAL, device)
      else if flags AND NS_BLOCK_F_VOLATILE_WRITE_CACHE \<noteq> 0 \<and> dr_flush ops = None then (err NS_EINVAL, device)
      else
        let flags = (if dr_write ops = None then flags OR NS_BLOCK_F_READ_ONLY else flags) in
        (0, \<lparr>bd_ops = True, bd_sector_count = sector_count, bd_sector_size = sector_size,
             bd_max_transfer_sectors = max_transfer_sectors, bd_flags = flags, bd_magic = NS_BLOCK_DEVICE_MAGIC\<rparr>))"

definition ns_block_device_reset :: "ns_block_device" where
  "ns_block_device_reset =
     \<lparr>bd_ops = False, bd_sector_count = 0, bd_sector_size = 0, bd_max_transfer_sectors = 0, bd_flags = 0, bd_magic = 0\<rparr>"

definition ns_block_device_is_valid :: "'c block_driver \<Rightarrow> ns_block_device \<Rightarrow> bool" where
  "ns_block_device_is_valid ops device \<longleftrightarrow>
     \<not> (bd_magic device \<noteq> NS_BLOCK_DEVICE_MAGIC \<or> \<not> bd_ops device \<or> dr_read ops = None \<or>
        \<not> ns_is_power_of_two_u32 (bd_sector_size device) \<or> bd_sector_count device = 0 \<or>
        bd_flags device AND NOT NS_BLOCK_F_ALL \<noteq> 0) \<and>
     \<not> (bd_flags device AND NS_BLOCK_F_VOLATILE_WRITE_CACHE \<noteq> 0 \<and> dr_flush ops = None) \<and>
     \<not> (dr_write ops = None \<and> bd_flags device AND NS_BLOCK_F_READ_ONLY = 0)"

definition ns_block_validate_range :: "'c block_driver \<Rightarrow> ns_block_device \<Rightarrow> u64 \<Rightarrow> u32 \<Rightarrow> int \<times> u64" where
  "ns_block_validate_range ops device first_sector sector_count =
     (if \<not> ns_block_device_is_valid ops device then (err NS_ENODEV, 0)
      else if sector_count \<noteq> 0 \<and> first_sector > - 1 - ucast sector_count then (err NS_EOVERFLOW, 0)
      else if first_sector > bd_sector_count device \<or> ucast sector_count > bd_sector_count device - first_sector
      then (err NS_ERANGE, 0)
      else if bd_max_transfer_sectors device \<noteq> 0 \<and> sector_count > bd_max_transfer_sectors device
      then (err NS_EMSGSIZE, 0)
      else if ucast sector_count > (- 1 :: u64) div ucast (bd_sector_size device) then (err NS_EOVERFLOW, 0)
      else (0, ucast sector_count * ucast (bd_sector_size device)))"

definition ns_block_capacity_bytes :: "'c block_driver \<Rightarrow> ns_block_device \<Rightarrow> int \<times> u64" where
  "ns_block_capacity_bytes ops device =
     (if \<not> ns_block_device_is_valid ops device then (err NS_EINVAL, 0)
      else if bd_sector_count device > - 1 div ucast (bd_sector_size device) then (err NS_EOVERFLOW, 0)
      else (0, bd_sector_count device * ucast (bd_sector_size device)))"

text \<open>\<open>present\<close>: the buffer is not null.\<close>

definition ns_block_read ::
  "'c block_driver \<Rightarrow> ns_block_device \<Rightarrow> u64 \<Rightarrow> u32 \<Rightarrow> bool \<Rightarrow> 'c \<Rightarrow> ((int \<times> u8 list) \<times> 'c) option" where
  "ns_block_read ops device first_sector sector_count present context =
     (let result = fst (ns_block_validate_range ops device first_sector sector_count) in
      if result \<noteq> 0 then Some ((result, []), context)
      else if sector_count = 0 then Some ((0, []), context)
      else if \<not> present then Some ((err NS_EFAULT, []), context)
      else do {
        read \<leftarrow> dr_read ops;
        ((result, bytes), context) \<leftarrow> read first_sector sector_count context;
        Some ((ns_block_normalize_driver_result result, bytes), context)
      })"

definition ns_block_write ::
  "'c block_driver \<Rightarrow> ns_block_device \<Rightarrow> u64 \<Rightarrow> u32 \<Rightarrow> u8 list option \<Rightarrow> 'c \<Rightarrow> (int \<times> 'c) option" where
  "ns_block_write ops device first_sector sector_count buffer context =
     (let result = fst (ns_block_validate_range ops device first_sector sector_count) in
      if result \<noteq> 0 then Some (result, context)
      else if sector_count = 0 then Some (0, context)
      else case buffer of
        None \<Rightarrow> Some (err NS_EFAULT, context)
      | Some bytes \<Rightarrow>
          if bd_flags device AND NS_BLOCK_F_READ_ONLY \<noteq> 0 \<or> dr_write ops = None then Some (err NS_EROFS, context)
          else do {
            store \<leftarrow> dr_write ops;
            (result, context) \<leftarrow> store first_sector sector_count bytes context;
            Some (ns_block_normalize_driver_result result, context)
          })"

definition ns_block_flush :: "'c block_driver \<Rightarrow> ns_block_device \<Rightarrow> 'c \<Rightarrow> (int \<times> 'c) option" where
  "ns_block_flush ops device context =
     (if \<not> ns_block_device_is_valid ops device then Some (err NS_ENODEV, context)
      else case dr_flush ops of
        None \<Rightarrow> Some (0, context)
      | Some flush \<Rightarrow> do {
          (result, context) \<leftarrow> flush context;
          Some (ns_block_normalize_driver_result result, context)
        })"

section \<open>Slices\<close>

text \<open>A slice over a parent: the parent's driver is an argument, its state the state of the slice.\<close>

record ns_block_slice =
  sl_device :: ns_block_device
  sl_parent :: ns_block_device
  sl_first_sector :: u64

definition ns_slice_read ::
  "'c block_driver \<Rightarrow> ns_block_slice \<Rightarrow> u64 \<Rightarrow> u32 \<Rightarrow> 'c \<Rightarrow> ((int \<times> u8 list) \<times> 'c) option" where
  "ns_slice_read ops sl first_sector sector_count context =
     (if sl_first_sector sl > - 1 - first_sector then Some ((err NS_EOVERFLOW, []), context)
      else ns_block_read ops (sl_parent sl) (sl_first_sector sl + first_sector) sector_count True context)"

definition ns_slice_write ::
  "'c block_driver \<Rightarrow> ns_block_slice \<Rightarrow> u64 \<Rightarrow> u32 \<Rightarrow> u8 list \<Rightarrow> 'c \<Rightarrow> (int \<times> 'c) option" where
  "ns_slice_write ops sl first_sector sector_count bytes context =
     (if sl_first_sector sl > - 1 - first_sector then Some (err NS_EOVERFLOW, context)
      else ns_block_write ops (sl_parent sl) (sl_first_sector sl + first_sector) sector_count (Some bytes) context)"

definition ns_slice_flush :: "'c block_driver \<Rightarrow> ns_block_slice \<Rightarrow> 'c \<Rightarrow> (int \<times> 'c) option" where
  "ns_slice_flush ops sl context = ns_block_flush ops (sl_parent sl) context"

definition ns_slice_ops :: "'c block_driver \<Rightarrow> ns_block_slice \<Rightarrow> 'c block_driver" where
  "ns_slice_ops ops sl =
     \<lparr>dr_read = Some (ns_slice_read ops sl), dr_write = Some (ns_slice_write ops sl),
      dr_flush = Some (ns_slice_flush ops sl)\<rparr>"

definition ns_block_slice_init ::
  "'c block_driver \<Rightarrow> ns_block_device \<Rightarrow> u64 \<Rightarrow> u64 \<Rightarrow> u32 \<Rightarrow> ns_block_slice \<Rightarrow> int \<times> ns_block_slice" where
  "ns_block_slice_init ops parent first_sector sector_count slice_flags sl =
     (if \<not> ns_block_device_is_valid ops parent \<or> sector_count = 0 \<or> slice_flags AND NOT NS_BLOCK_F_READ_ONLY \<noteq> 0
      then (err NS_EINVAL, sl)
      else if first_sector > - 1 - sector_count then (err NS_EOVERFLOW, sl)
      else if first_sector \<ge> bd_sector_count parent \<or> sector_count > bd_sector_count parent - first_sector
      then (err NS_ERANGE, sl)
      else
        let flags = bd_flags parent OR slice_flags;
            sl = sl\<lparr>sl_parent := parent, sl_first_sector := first_sector\<rparr>;
            (result, device) = ns_block_device_init (ns_slice_ops ops sl) (bd_sector_size parent) sector_count
              (bd_max_transfer_sectors parent) flags (sl_device sl) in
        (result, sl\<lparr>sl_device := device\<rparr>))"

definition ns_block_slice_reset :: "ns_block_slice" where
  "ns_block_slice_reset = \<lparr>sl_device = ns_block_device_reset, sl_parent = ns_block_device_reset, sl_first_sector = 0\<rparr>"

end
