(* ===== verification/Block_Mem.thy ===== *)
theory Block_Mem
  imports Block
begin

text \<open>
  The memory block device, \<open>kernel/fs/block_mem.c\<close>, with its fault injection and statistics. A spin on a
  held lock and an access outside the backing store are \<open>None\<close>. The device inside the structure is
  known to point back to it, so the pointer comparisons of \<open>ns_mem_block_valid\<close> have no counterpart.
\<close>

unbundle bit_operations_syntax

section \<open>State\<close>

abbreviation (input) NS_MEM_BLOCK_MAGIC :: u32 where "NS_MEM_BLOCK_MAGIC \<equiv> 0x4e534d42"
abbreviation (input) NS_MEM_BLOCK_FAULT_READ :: u32 where "NS_MEM_BLOCK_FAULT_READ \<equiv> 1"
abbreviation (input) NS_MEM_BLOCK_FAULT_WRITE :: u32 where "NS_MEM_BLOCK_FAULT_WRITE \<equiv> 2"
abbreviation (input) NS_MEM_BLOCK_FAULT_FLUSH :: u32 where "NS_MEM_BLOCK_FAULT_FLUSH \<equiv> 4"
abbreviation (input) NS_MEM_BLOCK_FAULT_ALL :: u32 where "NS_MEM_BLOCK_FAULT_ALL \<equiv> 7"

record ns_mem_block_fault =
  mf_operation_mask :: u32
  mf_error :: int
  mf_first_sector :: u64
  mf_sector_count :: u64
  mf_pass_count :: u64
  mf_fail_count :: u64

record ns_mem_block_stats =
  ms_read_calls :: u64
  ms_write_calls :: u64
  ms_flush_calls :: u64
  ms_sectors_read :: u64
  ms_sectors_written :: u64
  ms_bytes_read :: u64
  ms_bytes_written :: u64
  ms_failed_reads :: u64
  ms_failed_writes :: u64
  ms_failed_flushes :: u64
  ms_fault_matches :: u64
  ms_injected_failures :: u64

text \<open>
  The hooks of an allocator: \<open>al_allocate\<close> gives the old content of the memory it hands out, or
  \<open>None\<close> when it has none; \<open>al_deallocate\<close> says whether that hook is there, and its calls are reported
  with the size and alignment they get.
\<close>

record ns_block_allocator =
  al_allocate :: "(u64 \<Rightarrow> u64 \<Rightarrow> u8 list option) option"
  al_deallocate :: bool

record ns_mem_block =
  mb_device :: ns_block_device
  mb_data :: "u8 list option"
  mb_byte_count :: u64
  mb_allocator :: ns_block_allocator
  mb_fault :: ns_mem_block_fault
  mb_stats :: ns_mem_block_stats
  mb_lock :: u32
  mb_magic :: u32
  mb_owns_data :: bool

definition zero_fault :: ns_mem_block_fault where
  "zero_fault = \<lparr>mf_operation_mask = 0, mf_error = 0, mf_first_sector = 0, mf_sector_count = 0, mf_pass_count = 0, mf_fail_count = 0\<rparr>"

definition zero_stats :: ns_mem_block_stats where
  "zero_stats = \<lparr>ms_read_calls = 0, ms_write_calls = 0, ms_flush_calls = 0, ms_sectors_read = 0, ms_sectors_written = 0,
     ms_bytes_read = 0, ms_bytes_written = 0, ms_failed_reads = 0, ms_failed_writes = 0, ms_failed_flushes = 0,
     ms_fault_matches = 0, ms_injected_failures = 0\<rparr>"

section \<open>Driver functions\<close>

definition ns_mem_lock :: "ns_mem_block \<Rightarrow> ns_mem_block option" where
  "ns_mem_lock m = (if mb_lock m \<noteq> 0 then None else Some (m\<lparr>mb_lock := 1\<rparr>))"

definition ns_mem_unlock :: "ns_mem_block \<Rightarrow> ns_mem_block" where
  "ns_mem_unlock m = m\<lparr>mb_lock := 0\<rparr>"

definition ns_saturating_add_u64 :: "u64 \<Rightarrow> u64 \<Rightarrow> u64" where
  "ns_saturating_add_u64 left right = (if left > - 1 - right then - 1 else left + right)"

definition count_mem :: "(ns_mem_block_stats \<Rightarrow> ns_mem_block_stats) \<Rightarrow> ns_mem_block \<Rightarrow> ns_mem_block" where
  "count_mem f m = m\<lparr>mb_stats := f (mb_stats m)\<rparr>"

definition ns_ranges_overlap :: "u64 \<Rightarrow> u64 \<Rightarrow> u64 \<Rightarrow> u64 \<Rightarrow> bool" where
  "ns_ranges_overlap first_a count_a first_b count_b \<longleftrightarrow> first_a < first_b + count_b \<and> first_b < first_a + count_a"

definition ns_fault_matches :: "ns_mem_block_fault \<Rightarrow> u32 \<Rightarrow> u64 \<Rightarrow> u32 \<Rightarrow> bool" where
  "ns_fault_matches fault operation first_sector sector_count \<longleftrightarrow>
     (if mf_operation_mask fault AND operation = 0 then False
      else if operation = NS_MEM_BLOCK_FAULT_FLUSH \<or> mf_sector_count fault = 0 then True
      else ns_ranges_overlap first_sector (ucast sector_count) (mf_first_sector fault) (mf_sector_count fault))"

definition ns_mem_maybe_fail :: "u32 \<Rightarrow> u64 \<Rightarrow> u32 \<Rightarrow> ns_mem_block \<Rightarrow> int \<times> ns_mem_block" where
  "ns_mem_maybe_fail operation first_sector sector_count m =
     (if \<not> ns_fault_matches (mb_fault m) operation first_sector sector_count then (0, m)
      else
        let m = count_mem (\<lambda>t. t\<lparr>ms_fault_matches := ns_saturating_add_u64 (ms_fault_matches t) 1\<rparr>) m;
            fault = mb_fault m in
        if mf_pass_count fault \<noteq> 0 then (0, m\<lparr>mb_fault := fault\<lparr>mf_pass_count := mf_pass_count fault - 1\<rparr>\<rparr>)
        else if mf_fail_count fault = 0 then (0, m)
        else
          let m = (if mf_fail_count fault \<noteq> - 1 then m\<lparr>mb_fault := fault\<lparr>mf_fail_count := mf_fail_count fault - 1\<rparr>\<rparr> else m);
              m = count_mem (\<lambda>t. t\<lparr>ms_injected_failures := ns_saturating_add_u64 (ms_injected_failures t) 1\<rparr>) m in
          (mf_error fault, m))"

text \<open>Copies out of and into the backing store, \<open>None\<close> outside of it.\<close>

definition copy_out :: "u8 list option \<Rightarrow> nat \<Rightarrow> nat \<Rightarrow> u8 list option" where
  "copy_out data offset n =
     (case data of
        None \<Rightarrow> None
      | Some bytes \<Rightarrow> if offset + n \<le> length bytes then Some (take n (drop offset bytes)) else None)"

definition copy_in :: "u8 list option \<Rightarrow> nat \<Rightarrow> nat \<Rightarrow> u8 list \<Rightarrow> u8 list option" where
  "copy_in data offset n buffer =
     (case data of
        None \<Rightarrow> None
      | Some bytes \<Rightarrow>
          if offset + n \<le> length bytes \<and> n \<le> length buffer
          then Some (take offset bytes @ take n buffer @ drop (offset + n) bytes) else None)"

definition ns_mem_read :: "u64 \<Rightarrow> u32 \<Rightarrow> ns_mem_block \<Rightarrow> ((int \<times> u8 list) \<times> ns_mem_block) option" where
  "ns_mem_read first_sector sector_count m = do {
     let byte_count = (ucast sector_count * ucast (bd_sector_size (mb_device m)) :: u64);
     let offset = first_sector * ucast (bd_sector_size (mb_device m));
     m \<leftarrow> ns_mem_lock m;
     let m = count_mem (\<lambda>t. t\<lparr>ms_read_calls := ns_saturating_add_u64 (ms_read_calls t) 1\<rparr>) m;
     let (result, m) = ns_mem_maybe_fail NS_MEM_BLOCK_FAULT_READ first_sector sector_count m;
     if result \<noteq> 0
     then Some ((result, []),
       ns_mem_unlock (count_mem (\<lambda>t. t\<lparr>ms_failed_reads := ns_saturating_add_u64 (ms_failed_reads t) 1\<rparr>) m))
     else do {
       bytes \<leftarrow> copy_out (mb_data m) (unat offset) (unat byte_count);
       let m = count_mem (\<lambda>t. t\<lparr>ms_sectors_read := ns_saturating_add_u64 (ms_sectors_read t) (ucast sector_count)\<rparr>) m;
       let m = count_mem (\<lambda>t. t\<lparr>ms_bytes_read := ns_saturating_add_u64 (ms_bytes_read t) byte_count\<rparr>) m;
       Some ((0, bytes), ns_mem_unlock m)
     }
   }"

definition ns_mem_write :: "u64 \<Rightarrow> u32 \<Rightarrow> u8 list \<Rightarrow> ns_mem_block \<Rightarrow> (int \<times> ns_mem_block) option" where
  "ns_mem_write first_sector sector_count buffer m = do {
     let byte_count = (ucast sector_count * ucast (bd_sector_size (mb_device m)) :: u64);
     let offset = first_sector * ucast (bd_sector_size (mb_device m));
     m \<leftarrow> ns_mem_lock m;
     let m = count_mem (\<lambda>t. t\<lparr>ms_write_calls := ns_saturating_add_u64 (ms_write_calls t) 1\<rparr>) m;
     let (result, m) = ns_mem_maybe_fail NS_MEM_BLOCK_FAULT_WRITE first_sector sector_count m;
     if result \<noteq> 0
     then Some (result,
       ns_mem_unlock (count_mem (\<lambda>t. t\<lparr>ms_failed_writes := ns_saturating_add_u64 (ms_failed_writes t) 1\<rparr>) m))
     else do {
       data \<leftarrow> copy_in (mb_data m) (unat offset) (unat byte_count) buffer;
       let m = m\<lparr>mb_data := Some data\<rparr>;
       let m = count_mem (\<lambda>t. t\<lparr>ms_sectors_written := ns_saturating_add_u64 (ms_sectors_written t) (ucast sector_count)\<rparr>) m;
       let m = count_mem (\<lambda>t. t\<lparr>ms_bytes_written := ns_saturating_add_u64 (ms_bytes_written t) byte_count\<rparr>) m;
       Some (0, ns_mem_unlock m)
     }
   }"

definition ns_mem_flush :: "ns_mem_block \<Rightarrow> (int \<times> ns_mem_block) option" where
  "ns_mem_flush m = do {
     m \<leftarrow> ns_mem_lock m;
     let m = count_mem (\<lambda>t. t\<lparr>ms_flush_calls := ns_saturating_add_u64 (ms_flush_calls t) 1\<rparr>) m;
     let (result, m) = ns_mem_maybe_fail NS_MEM_BLOCK_FAULT_FLUSH 0 0 m;
     let m = (if result \<noteq> 0
              then count_mem (\<lambda>t. t\<lparr>ms_failed_flushes := ns_saturating_add_u64 (ms_failed_flushes t) 1\<rparr>) m else m);
     Some (result, ns_mem_unlock m)
   }"

definition ns_mem_block_ops :: "ns_mem_block block_driver" where
  "ns_mem_block_ops = \<lparr>dr_read = Some ns_mem_read, dr_write = Some ns_mem_write, dr_flush = Some ns_mem_flush\<rparr>"

definition ns_mem_block_valid :: "ns_mem_block \<Rightarrow> bool" where
  "ns_mem_block_valid m \<longleftrightarrow>
     mb_magic m = NS_MEM_BLOCK_MAGIC \<and> mb_data m \<noteq> None \<and> mb_byte_count m \<noteq> 0 \<and>
     ns_block_device_is_valid ns_mem_block_ops (mb_device m)"

section \<open>Creation and control\<close>

definition ns_mem_block_reset_fields :: ns_mem_block where
  "ns_mem_block_reset_fields =
     \<lparr>mb_device = ns_block_device_reset, mb_data = None, mb_byte_count = 0,
      mb_allocator = \<lparr>al_allocate = None, al_deallocate = False\<rparr>, mb_fault = zero_fault, mb_stats = zero_stats,
      mb_lock = 0, mb_magic = 0, mb_owns_data = False\<rparr>"

definition ns_mem_block_finish_init ::
  "u8 list option \<Rightarrow> u64 \<Rightarrow> u32 \<Rightarrow> u32 \<Rightarrow> ns_mem_block \<Rightarrow> int \<times> ns_mem_block" where
  "ns_mem_block_finish_init backing backing_bytes sector_size device_flags m =
     (if backing = None \<or> backing_bytes = 0 \<or> \<not> ns_is_power_of_two_u32 sector_size \<or>
         backing_bytes mod ucast sector_size \<noteq> 0
      then (err NS_EINVAL, m)
      else if device_flags AND NOT NS_BLOCK_F_ALL \<noteq> 0 \<or> device_flags AND NS_BLOCK_F_VOLATILE_WRITE_CACHE \<noteq> 0
      then (err NS_EINVAL, m)
      else
        let sector_count = backing_bytes div ucast sector_size in
        if sector_count = 0 then (err NS_EINVAL, m)
        else
          let m = m\<lparr>mb_data := backing, mb_byte_count := backing_bytes, mb_lock := 0, mb_magic := NS_MEM_BLOCK_MAGIC\<rparr>;
              (result, device) = ns_block_device_init ns_mem_block_ops sector_size sector_count 0 device_flags (mb_device m) in
          if result \<noteq> 0 then (result, ns_mem_block_reset_fields) else (0, m\<lparr>mb_device := device\<rparr>))"

definition ns_mem_block_init_borrowed :: "u8 list option \<Rightarrow> u64 \<Rightarrow> u32 \<Rightarrow> u32 \<Rightarrow> int \<times> ns_mem_block" where
  "ns_mem_block_init_borrowed backing backing_bytes sector_size device_flags =
     (let (result, m) = ns_mem_block_finish_init backing backing_bytes sector_size device_flags ns_mem_block_reset_fields in
      (result, if result = 0 then m\<lparr>mb_owns_data := False\<rparr> else m))"

text \<open>The last component lists the calls of the deallocation hook.\<close>

definition ns_mem_block_init_owned ::
  "ns_block_allocator \<Rightarrow> u64 \<Rightarrow> u32 \<Rightarrow> u32 \<Rightarrow> ns_mem_block \<Rightarrow> int \<times> ns_mem_block \<times> (u64 \<times> u64) list" where
  "ns_mem_block_init_owned allocator sector_count sector_size device_flags m =
     (case al_allocate allocator of
        None \<Rightarrow> (err NS_EINVAL, m, [])
      | Some allocate \<Rightarrow>
          if \<not> al_deallocate allocator \<or> sector_count = 0 \<or> \<not> ns_is_power_of_two_u32 sector_size \<or>
             device_flags AND NOT NS_BLOCK_F_ALL \<noteq> 0 \<or> device_flags AND NS_BLOCK_F_VOLATILE_WRITE_CACHE \<noteq> 0
          then (err NS_EINVAL, m, [])
          else if sector_count > - 1 div ucast sector_size then (err NS_EOVERFLOW, m, [])
          else
            let backing_bytes = sector_count * ucast sector_size in
            case allocate backing_bytes (ucast sector_size) of
              None \<Rightarrow> (err NS_ENOMEM, ns_mem_block_reset_fields, [])
            | Some _ \<Rightarrow>
                let backing = replicate (unat backing_bytes) 0;
                    (result, m) = ns_mem_block_finish_init (Some backing) backing_bytes sector_size device_flags
                      ns_mem_block_reset_fields in
                if result \<noteq> 0 then (result, m, [(backing_bytes, ucast sector_size)])
                else (0, m\<lparr>mb_allocator := allocator, mb_owns_data := True\<rparr>, []))"

definition ns_mem_block_destroy :: "ns_mem_block \<Rightarrow> ns_mem_block \<times> (u64 \<times> u64) list" where
  "ns_mem_block_destroy m =
     (let owns_data = ns_mem_block_valid m \<and> mb_owns_data m in
      (ns_mem_block_reset_fields,
       if owns_data \<and> al_deallocate (mb_allocator m) then [(mb_byte_count m, ucast (bd_sector_size (mb_device m)))] else []))"

definition ns_mem_block_clear_fault :: "ns_mem_block \<Rightarrow> ns_mem_block option" where
  "ns_mem_block_clear_fault m =
     (if \<not> ns_mem_block_valid m then Some m
      else do { m \<leftarrow> ns_mem_lock m; Some (ns_mem_unlock (m\<lparr>mb_fault := zero_fault\<rparr>)) })"

definition ns_mem_block_set_fault :: "ns_mem_block_fault \<Rightarrow> ns_mem_block \<Rightarrow> (int \<times> ns_mem_block) option" where
  "ns_mem_block_set_fault fault m =
     (if \<not> ns_mem_block_valid m then Some (err NS_EINVAL, m)
      else if mf_operation_mask fault AND NOT NS_MEM_BLOCK_FAULT_ALL \<noteq> 0 then Some (err NS_EINVAL, m)
      else if mf_operation_mask fault = 0 then do { m \<leftarrow> ns_mem_block_clear_fault m; Some (0, m) }
      else if mf_error fault \<ge> 0 then Some (err NS_EINVAL, m)
      else if mf_sector_count fault \<noteq> 0 \<and> mf_first_sector fault > - 1 - mf_sector_count fault
      then Some (err NS_EOVERFLOW, m)
      else if mf_sector_count fault \<noteq> 0 \<and>
        (mf_first_sector fault \<ge> bd_sector_count (mb_device m) \<or>
         mf_sector_count fault > bd_sector_count (mb_device m) - mf_first_sector fault)
      then Some (err NS_ERANGE, m)
      else do { m \<leftarrow> ns_mem_lock m; Some (0, ns_mem_unlock (m\<lparr>mb_fault := fault\<rparr>)) })"

definition ns_mem_block_get_stats :: "ns_mem_block \<Rightarrow> (int \<times> ns_mem_block_stats option \<times> ns_mem_block) option" where
  "ns_mem_block_get_stats m =
     (if \<not> ns_mem_block_valid m then Some (err NS_EINVAL, None, m)
      else do { m \<leftarrow> ns_mem_lock m; Some (0, Some (mb_stats m), ns_mem_unlock m) })"

definition ns_mem_block_reset_stats :: "ns_mem_block \<Rightarrow> (int \<times> ns_mem_block) option" where
  "ns_mem_block_reset_stats m =
     (if \<not> ns_mem_block_valid m then Some (err NS_EINVAL, m)
      else do { m \<leftarrow> ns_mem_lock m; Some (0, ns_mem_unlock (m\<lparr>mb_stats := zero_stats\<rparr>)) })"

definition ns_mem_block_data :: "ns_mem_block \<Rightarrow> u8 list option" where
  "ns_mem_block_data m = (if \<not> ns_mem_block_valid m then None else mb_data m)"

end
