(* ===== verification/Block_Store.thy ===== *)
theory Block_Store
  imports Block
begin

text \<open>
  The contract of a block driver, as an interface: it stores a sequence of sectors. The generic layer
  over a driver that keeps it reads and writes that sequence, and a slice is such a driver again.
\<close>

unbundle bit_operations_syntax

definition splice_at :: "nat \<Rightarrow> 'a list \<Rightarrow> 'a list \<Rightarrow> 'a list" where
  "splice_at at xs ys = take at ys @ xs @ drop (at + length xs) ys"

lemma length_splice_at [simp]: "at + length xs \<le> length ys \<Longrightarrow> length (splice_at at xs ys) = length ys"
  by (simp add: splice_at_def)

lemma take_drop_splice_at: "at + length xs \<le> length ys \<Longrightarrow> take (length xs) (drop at (splice_at at xs ys)) = xs"
  by (simp add: splice_at_def)

lemma splice_at_window:
  assumes "a + at + length xs \<le> length ys" "at + length xs \<le> n" "a + n \<le> length ys"
  shows "take n (drop a (splice_at (a + at) xs ys)) = splice_at at xs (take n (drop a ys))"
proof (rule nth_equalityI)
  show "length (take n (drop a (splice_at (a + at) xs ys))) = length (splice_at at xs (take n (drop a ys)))"
    using assms by simp
  fix i assume "i < length (take n (drop a (splice_at (a + at) xs ys)))"
  then show "take n (drop a (splice_at (a + at) xs ys)) ! i = splice_at at xs (take n (drop a ys)) ! i"
    using assms by (auto simp: splice_at_def nth_append)
qed

lemma splice_at_outside:
  assumes "a + at + length xs \<le> length ys" "at + length xs \<le> n"
  shows "take a (splice_at (a + at) xs ys) = take a ys" "drop (a + n) (splice_at (a + at) xs ys) = drop (a + n) ys"
  using assms by (simp_all add: splice_at_def add.commute)

lemma splice_at_append:
  "a + length xs \<le> length w \<Longrightarrow> splice_at (length pre + a) xs (pre @ w @ post) = pre @ splice_at a xs w @ post"
  by (simp add: splice_at_def)

lemma device_init_valid:
  assumes "ns_block_device_init ops sector_size sector_count max_transfer flags d0 = (0, d)"
  shows "ns_block_device_is_valid ops d" "bd_sector_size d = sector_size" "bd_sector_count d = sector_count"
    "bd_max_transfer_sectors d = max_transfer" "dr_write ops \<noteq> None \<Longrightarrow> bd_flags d = flags"
proof -
  define fl where "fl = (if dr_write ops = None then flags OR 1 else flags)"
  have d: "d = \<lparr>bd_ops = True, bd_sector_count = sector_count, bd_sector_size = sector_size,
      bd_max_transfer_sectors = max_transfer, bd_flags = fl, bd_magic = NS_BLOCK_DEVICE_MAGIC\<rparr>"
    and c: "dr_read ops \<noteq> None" "ns_is_power_of_two_u32 sector_size" "sector_count \<noteq> 0" "flags AND NOT 7 = 0"
      "flags AND 4 \<noteq> 0 \<longrightarrow> dr_flush ops \<noteq> None"
    using assms by (auto simp: ns_block_device_init_def fl_def Let_def split: if_splits)
  have or1: "(flags OR 1) AND NOT 7 = flags AND NOT 7" "(flags OR 1) AND 4 = flags AND 4" "(flags OR 1) AND 1 = 1"
    by (simp_all add: bit.conj_disj_distrib2)
  then have "fl AND NOT 7 = 0" "fl AND 4 = flags AND 4" "dr_write ops = None \<longrightarrow> fl AND 1 \<noteq> 0"
    using c(4) by (simp_all add: fl_def)
  then show "ns_block_device_is_valid ops d" using c by (auto simp: d ns_block_device_is_valid_def)
  show "dr_write ops \<noteq> None \<Longrightarrow> bd_flags d = flags" by (auto simp: d fl_def)
  show "bd_sector_size d = sector_size" "bd_sector_count d = sector_count" "bd_max_transfer_sectors d = max_transfer"
    by (simp_all add: d)
qed

definition transfer_ok :: "ns_block_device \<Rightarrow> u32 \<Rightarrow> bool" where
  "transfer_ok dev count \<longleftrightarrow> bd_max_transfer_sectors dev = 0 \<or> count \<le> bd_max_transfer_sectors dev"

definition writable :: "ns_block_device \<Rightarrow> bool" where
  "writable dev \<longleftrightarrow> bd_flags dev AND 1 = 0"

text \<open>
  A driver that keeps a sequence of \<open>nsec\<close> sectors of \<open>ssize\<close> bytes, \<open>stored\<close>, in the states with \<open>inv\<close>.
  In a \<open>clean\<close> state a transfer within \<open>limit\<close> succeeds, a write when \<open>rw\<close> holds.
\<close>

locale block_store =
  fixes ops :: "'c block_driver" and inv clean :: "'c \<Rightarrow> bool" and stored :: "'c \<Rightarrow> u8 list" and ssize nsec :: nat
    and limit :: "u32 \<Rightarrow> bool" and rw :: bool
  assumes stored_length: "inv c \<Longrightarrow> length (stored c) = nsec * ssize"
    and read_law: "inv c \<Longrightarrow> unat first + unat count \<le> nsec \<Longrightarrow>
      \<exists>rd st bs c'. dr_read ops = Some rd \<and> rd first count c = Some ((st, bs), c') \<and> inv c' \<and> stored c' = stored c \<and>
        (st = 0 \<longrightarrow> bs = take (unat count * ssize) (drop (unat first * ssize) (stored c))) \<and>
        (clean c \<longrightarrow> clean c' \<and> (limit count \<longrightarrow> st = 0))"
    and write_law: "inv c \<Longrightarrow> unat first + unat count \<le> nsec \<Longrightarrow> length buf = unat count * ssize \<Longrightarrow>
      \<exists>wr st c'. dr_write ops = Some wr \<and> wr first count buf c = Some (st, c') \<and> inv c' \<and>
        stored c' = (if st = 0 then splice_at (unat first * ssize) buf (stored c) else stored c) \<and>
        (clean c \<longrightarrow> clean c' \<and> (limit count \<and> rw \<longrightarrow> st = 0))"
    and flush_law: "inv c \<Longrightarrow> \<exists>fl st c'. dr_flush ops = Some fl \<and> fl c = Some (st, c') \<and> inv c' \<and> stored c' = stored c \<and>
        (clean c \<longrightarrow> clean c' \<and> st = 0)"
begin

definition fits :: "ns_block_device \<Rightarrow> bool" where
  "fits dev \<longleftrightarrow> ns_block_device_is_valid ops dev \<and> unat (bd_sector_size dev) = ssize \<and> unat (bd_sector_count dev) = nsec \<and>
     (\<forall>count. transfer_ok dev count \<longrightarrow> limit count) \<and> (writable dev \<longrightarrow> rw)"

lemma validated:
  assumes "fits dev"
  shows "fst (ns_block_validate_range ops dev first count) = 0 \<longleftrightarrow> unat first + unat count \<le> nsec \<and> transfer_ok dev count"
proof -
  have n: "nsec < 18446744073709551616" using assms u64_less [of "bd_sector_count dev"] by (simp add: fits_def)
  have c: "unat (ucast count :: u64) = unat count" by (simp add: unat_ucast_up)
  have s: "unat (- 1 - ucast count :: u64) = 18446744073709551615 - unat count"
    by (subst unat_sub) (simp_all add: c)
  have over: "first > - 1 - ucast count \<longleftrightarrow> unat first + unat count > 18446744073709551615"
    unfolding word_less_nat_alt s using u32_less [of count] by auto
  have range: "(first > bd_sector_count dev \<or> ucast count > bd_sector_count dev - first) \<longleftrightarrow> \<not> unat first + unat count \<le> nsec"
    using assms by (auto simp: fits_def not_le word_less_nat_alt unat_sub_if_size c)
  have bytes: "\<not> ucast count > (- 1 :: u64) div ucast (bd_sector_size dev)"
  proof
    assume "ucast count > (- 1 :: u64) div ucast (bd_sector_size dev)"
    then have "18446744073709551615 div unat (bd_sector_size dev) < unat count"
      by (simp add: word_less_nat_alt unat_div c unat_ucast_up)
    moreover have "4294967295 \<le> 18446744073709551615 div unat (bd_sector_size dev)"
      if "bd_sector_size dev \<noteq> 0"
      using that u32_less [of "bd_sector_size dev"] div_le_mono2 [of "unat (bd_sector_size dev)" 4294967295 18446744073709551615]
      by (simp add: unat_gt_0)
    moreover have "bd_sector_size dev \<noteq> 0" using assms by (auto simp: fits_def ns_block_device_is_valid_def ns_is_power_of_two_u32_def)
    ultimately show False using u32_less [of count] by linarith
  qed
  show ?thesis
    using assms n ns_errno_value_pos unfolding ns_block_validate_range_def over range
    by (auto simp: fits_def bytes transfer_ok_def)
qed

lemma normalize_zero: "ns_block_normalize_driver_result st = 0 \<longleftrightarrow> st = 0"
  by (simp add: ns_block_normalize_driver_result_def)

lemma block_read:
  assumes "fits dev" "inv c"
  shows "\<exists>st bs c'. ns_block_read ops dev first count present c = Some ((st, bs), c') \<and> inv c' \<and> stored c' = stored c \<and>
    (st = 0 \<longrightarrow> unat first + unat count \<le> nsec \<and> bs = take (unat count * ssize) (drop (unat first * ssize) (stored c))) \<and>
    (clean c \<longrightarrow> clean c' \<and> (st = 0 \<longleftrightarrow> unat first + unat count \<le> nsec \<and> transfer_ok dev count \<and> (count = 0 \<or> present)))"
proof (cases "fst (ns_block_validate_range ops dev first count) = 0 \<and> count \<noteq> 0 \<and> present")
  case True
  then have r: "unat first + unat count \<le> nsec" "transfer_ok dev count" using validated [OF assms(1)] by blast+
  moreover have "limit count" using assms(1) r by (simp add: fits_def)
  ultimately show ?thesis
    using True read_law [OF assms(2) r(1)] by (auto simp: ns_block_read_def Let_def normalize_zero)
next
  case False
  then show ?thesis
    using assms validated [OF assms(1), of first count] ns_errno_value_pos by (auto simp: ns_block_read_def Let_def)
qed

lemma block_write:
  assumes "fits dev" "inv c" "length buf = unat count * ssize"
  shows "\<exists>st c'. ns_block_write ops dev first count (Some buf) c = Some (st, c') \<and> inv c' \<and>
    stored c' = (if st = 0 then splice_at (unat first * ssize) buf (stored c) else stored c) \<and>
    (st = 0 \<longrightarrow> unat first + unat count \<le> nsec) \<and>
    (clean c \<longrightarrow> clean c' \<and> (st = 0 \<longleftrightarrow> unat first + unat count \<le> nsec \<and> transfer_ok dev count \<and> (count = 0 \<or> writable dev)))"
proof (cases "fst (ns_block_validate_range ops dev first count) = 0")
  case True
  then have r: "unat first + unat count \<le> nsec" "transfer_ok dev count" using validated [OF assms(1)] by blast+
  obtain wr st c' where w: "dr_write ops = Some wr" "wr first count buf c = Some (st, c')" "inv c'"
    "stored c' = (if st = 0 then splice_at (unat first * ssize) buf (stored c) else stored c)"
    "clean c \<longrightarrow> clean c' \<and> (limit count \<and> rw \<longrightarrow> st = 0)"
    using write_law [OF assms(2) r(1) assms(3)] by blast
  show ?thesis
  proof (cases "count = 0 \<or> \<not> writable dev")
    case stop: True
    have "count = 0 \<Longrightarrow> splice_at (unat first * ssize) buf (stored c) = stored c" using assms(3) by (simp add: splice_at_def)
    then show ?thesis
      using True r assms(2) stop w(1) ns_errno_value_pos by (auto simp: ns_block_write_def writable_def)
  next
    case False
    then have "ns_block_write ops dev first count (Some buf) c = Some (ns_block_normalize_driver_result st, c')"
      using True w(1,2) by (simp add: ns_block_write_def writable_def)
    moreover have "clean c \<longrightarrow> clean c' \<and> st = 0" using w(5) False assms(1) r(2) by (simp add: fits_def)
    ultimately show ?thesis using w(3,4) r False normalize_zero [of st] by auto
  qed
next
  case False
  then show ?thesis using assms validated [OF assms(1), of first count] by (auto simp: ns_block_write_def)
qed

lemma block_flush:
  "fits dev \<Longrightarrow> inv c \<Longrightarrow> \<exists>st c'. ns_block_flush ops dev c = Some (st, c') \<and> inv c' \<and> stored c' = stored c \<and>
     (clean c \<longrightarrow> clean c' \<and> st = 0)"
  using flush_law [of c] by (auto simp: ns_block_flush_def fits_def normalize_zero)

lemma read_after_write:
  assumes "fits dev" "inv c" "length buf = unat count * ssize"
    "ns_block_write ops dev first count (Some buf) c = Some (0, c1)"
    "ns_block_read ops dev first count present c1 = Some ((0, bs), c2)"
  shows "bs = buf"
proof -
  have w: "inv c1" "stored c1 = splice_at (unat first * ssize) buf (stored c)" "unat first + unat count \<le> nsec"
    using block_write [OF assms(1-3), of first] assms(4) by auto
  have "(unat first + unat count) * ssize \<le> nsec * ssize" using w(3) by simp
  then have "unat first * ssize + length buf \<le> length (stored c)"
    using stored_length [OF assms(2)] assms(3) by (simp add: add_mult_distrib)
  then show ?thesis
    using block_read [OF assms(1) w(1), of first count present] assms(3,5) take_drop_splice_at [of "unat first * ssize" buf "stored c"] w(2)
    by auto
qed

lemma slice_ops_device: "ns_slice_ops ops (sl\<lparr>sl_device := d\<rparr>) = ns_slice_ops ops sl"
  by (simp add: ns_slice_ops_def fun_eq_iff ns_slice_read_def ns_slice_write_def ns_slice_flush_def)

text \<open>What a successful initialization establishes.\<close>

definition sliced :: "ns_block_slice \<Rightarrow> nat \<Rightarrow> bool" where
  "sliced sl n \<longleftrightarrow> fits (sl_parent sl) \<and> unat (sl_first_sector sl) + n \<le> nsec \<and>
     ns_block_device_is_valid (ns_slice_ops ops sl) (sl_device sl) \<and>
     unat (bd_sector_size (sl_device sl)) = ssize \<and> unat (bd_sector_count (sl_device sl)) = n \<and>
     transfer_ok (sl_device sl) = transfer_ok (sl_parent sl) \<and> (writable (sl_device sl) \<longrightarrow> writable (sl_parent sl))"

lemma slice_init:
  assumes "fits parent" "ns_block_slice_init ops parent first n flags s0 = (0, sl)"
  shows "sliced sl (unat n)" "sl_first_sector sl = first"
    "bd_flags (sl_device sl) = bd_flags parent OR flags"
    "bd_max_transfer_sectors (sl_device sl) = bd_max_transfer_sectors parent"
proof -
  define s1 where "s1 = s0\<lparr>sl_parent := parent, sl_first_sector := first\<rparr>"
  have c: "\<not> (first \<ge> bd_sector_count parent \<or> n > bd_sector_count parent - first)"
    "ns_block_device_init (ns_slice_ops ops s1) (bd_sector_size parent) n (bd_max_transfer_sectors parent)
       (bd_flags parent OR flags) (sl_device s1) = (0, sl_device sl)" "sl = s1\<lparr>sl_device := sl_device sl\<rparr>"
    using assms(2) ns_errno_value_pos
    by (auto simp: ns_block_slice_init_def Let_def s1_def split: if_splits prod.splits)
  have same: "ns_slice_ops ops sl = ns_slice_ops ops s1"
    by (subst c(3)) (rule slice_ops_device)
  have dev: "ns_block_device_is_valid (ns_slice_ops ops s1) (sl_device sl) \<and> bd_sector_size (sl_device sl) = bd_sector_size parent \<and>
      bd_sector_count (sl_device sl) = n \<and> bd_flags (sl_device sl) = bd_flags parent OR flags \<and>
      bd_max_transfer_sectors (sl_device sl) = bd_max_transfer_sectors parent"
    using device_init_valid [OF c(2)] by (simp add: ns_slice_ops_def)
  then have "transfer_ok (sl_device sl) = transfer_ok parent" "writable (sl_device sl) \<longrightarrow> writable parent"
    by (auto simp: transfer_ok_def fun_eq_iff writable_def bit.conj_disj_distrib2 or_eq_0_iff)
  have parent: "sl_parent sl = parent" "sl_first_sector sl = first" by (subst c(3), simp add: s1_def)+
  have "unat first + unat n \<le> nsec"
    using c(1) assms(1) by (auto simp: fits_def not_less not_le word_le_nat_alt word_less_nat_alt unat_sub)
  with \<open>transfer_ok (sl_device sl) = transfer_ok parent\<close> \<open>writable (sl_device sl) \<longrightarrow> writable parent\<close>
  show "sliced sl (unat n)" using assms(1) dev parent by (simp add: sliced_def same fits_def)
  show "sl_first_sector sl = first" "bd_flags (sl_device sl) = bd_flags parent OR flags"
    "bd_max_transfer_sectors (sl_device sl) = bd_max_transfer_sectors parent"
    using parent dev by simp_all
qed

lemma slice_sector:
  assumes "sliced sl n" "unat first \<le> n"
  shows "\<not> sl_first_sector sl > - 1 - first" "unat (sl_first_sector sl + first) = unat (sl_first_sector sl) + unat first"
proof -
  have "unat (sl_first_sector sl) + unat first \<le> nsec" using assms by (simp add: sliced_def)
  then have less: "unat (sl_first_sector sl) + unat first < 18446744073709551616"
    using assms(1) u64_less [of "bd_sector_count (sl_parent sl)"] by (simp add: sliced_def fits_def)
  then show "unat (sl_first_sector sl + first) = unat (sl_first_sector sl) + unat first" by (simp add: unat_word_ariths)
  have "unat (- 1 - first) = 18446744073709551615 - unat first" by (subst unat_sub) simp_all
  then show "\<not> sl_first_sector sl > - 1 - first" using less unfolding word_less_nat_alt by linarith
qed

definition window :: "ns_block_slice \<Rightarrow> nat \<Rightarrow> 'c \<Rightarrow> u8 list" where
  "window sl n c = take (n * ssize) (drop (unat (sl_first_sector sl) * ssize) (stored c))"

text \<open>The driver functions of a slice reach the window of the parent and nothing else.\<close>

lemma slice_read:
  assumes "sliced sl n" "inv c" "unat first + unat count \<le> n"
  shows "\<exists>st bs c'. ns_slice_read ops sl first count c = Some ((st, bs), c') \<and> inv c' \<and> stored c' = stored c \<and>
    (st = 0 \<longrightarrow> bs = take (unat count * ssize) (drop (unat first * ssize) (window sl n c))) \<and>
    (clean c \<longrightarrow> clean c' \<and> (transfer_ok (sl_parent sl) count \<longrightarrow> st = 0))"
proof -
  define f where "f = sl_first_sector sl + first"
  have sec: "\<not> sl_first_sector sl > - 1 - first" "unat f = unat (sl_first_sector sl) + unat first"
    using slice_sector [OF assms(1), of first] assms(3) by (simp_all add: f_def)
  have "(unat first + unat count) * ssize \<le> n * ssize" using assms(3) by simp
  then have "take (unat count * ssize) (drop (unat f * ssize) (stored c)) =
      take (unat count * ssize) (drop (unat first * ssize) (window sl n c))"
    by (simp add: window_def sec(2) add_mult_distrib drop_take take_take min_def add.commute) 
  moreover have "fits (sl_parent sl)" "unat f + unat count \<le> nsec" using assms(1,3) sec(2) by (simp_all add: sliced_def)
  ultimately show ?thesis
    using block_read [of "sl_parent sl" c f count True] assms(2) sec(1) by (auto simp: ns_slice_read_def f_def)
qed

lemma slice_write:
  assumes "sliced sl n" "inv c" "unat first + unat count \<le> n" "length buf = unat count * ssize"
  shows "\<exists>st c'. ns_slice_write ops sl first count buf c = Some (st, c') \<and> inv c' \<and>
    stored c' = (if st = 0 then splice_at ((unat (sl_first_sector sl) + unat first) * ssize) buf (stored c) else stored c) \<and>
    (clean c \<longrightarrow> clean c' \<and> (transfer_ok (sl_parent sl) count \<and> writable (sl_parent sl) \<longrightarrow> st = 0))"
proof -
  define f where "f = sl_first_sector sl + first"
  have sec: "\<not> sl_first_sector sl > - 1 - first" "unat f = unat (sl_first_sector sl) + unat first"
    using slice_sector [OF assms(1), of first] assms(3) by (simp_all add: f_def)
  moreover have "fits (sl_parent sl)" "unat f + unat count \<le> nsec" using assms(1,3) sec(2) by (simp_all add: sliced_def)
  ultimately show ?thesis
    using block_write [of "sl_parent sl" c buf count f] assms(2,4) by (auto simp: ns_slice_write_def f_def)
qed

text \<open>The bytes before and after the window, which a slice cannot change.\<close>

definition around :: "ns_block_slice \<Rightarrow> nat \<Rightarrow> 'c \<Rightarrow> u8 list \<times> u8 list" where
  "around sl n c = (take (unat (sl_first_sector sl) * ssize) (stored c), drop (unat (sl_first_sector sl) * ssize + n * ssize) (stored c))"

lemma slice_effect:
  assumes "sliced sl n" "inv c" "unat first + unat count \<le> n" "length buf = unat count * ssize"
    "stored c' = splice_at ((unat (sl_first_sector sl) + unat first) * ssize) buf (stored c)"
  shows "window sl n c' = splice_at (unat first * ssize) buf (window sl n c)" "around sl n c' = around sl n c"
proof -
  have room: "unat (sl_first_sector sl) * ssize + n * ssize \<le> length (stored c)"
  proof -
    have "(unat (sl_first_sector sl) + n) * ssize \<le> nsec * ssize" using assms(1) by (intro mult_right_mono) (simp_all add: sliced_def)
    then show ?thesis using stored_length [OF assms(2)] by (simp add: add_mult_distrib)
  qed
  have "(unat first + unat count) * ssize \<le> n * ssize" using assms(3) by (intro mult_right_mono) simp_all
  then have fit: "unat first * ssize + length buf \<le> n * ssize" by (simp add: assms(4) add_mult_distrib)
  show "window sl n c' = splice_at (unat first * ssize) buf (window sl n c)"
    using splice_at_window [of "unat (sl_first_sector sl) * ssize" "unat first * ssize" buf "stored c" "n * ssize"] fit room
    by (simp add: window_def assms(5) add_mult_distrib)
  show "around sl n c' = around sl n c"
    using splice_at_outside [of "unat (sl_first_sector sl) * ssize" "unat first * ssize" buf "stored c" "n * ssize"] fit room
    by (simp add: around_def assms(5) add_mult_distrib)
qed

text \<open>A slice keeps the contract on its window, and keeps the bytes around it.\<close>

lemma slice_store:
  assumes "sliced sl n"
  shows "block_store (ns_slice_ops ops sl) (\<lambda>c. inv c \<and> around sl n c = out) clean (window sl n) ssize n
    (transfer_ok (sl_parent sl)) (writable (sl_parent sl))"
proof
  fix c and first :: u64 and count :: u32 and buf :: "u8 list"
  assume inv': "inv c \<and> around sl n c = out"
  then have inv: "inv c" by simp
  have "(unat (sl_first_sector sl) + n) * ssize \<le> nsec * ssize" using assms by (intro mult_right_mono) (simp_all add: sliced_def)
  then show "length (window sl n c) = n * ssize" using stored_length [OF inv] by (simp add: window_def add_mult_distrib)
  show "\<exists>fl st c'. dr_flush (ns_slice_ops ops sl) = Some fl \<and> fl c = Some (st, c') \<and> (inv c' \<and> around sl n c' = out) \<and>
      window sl n c' = window sl n c \<and> (clean c \<longrightarrow> clean c' \<and> st = 0)"
    using block_flush [OF _ inv, of "sl_parent sl"] assms inv'
    by (auto simp: ns_slice_ops_def ns_slice_flush_def window_def around_def sliced_def)
  assume range: "unat first + unat count \<le> n"
  show "\<exists>rd st bs c'. dr_read (ns_slice_ops ops sl) = Some rd \<and> rd first count c = Some ((st, bs), c') \<and>
      (inv c' \<and> around sl n c' = out) \<and> window sl n c' = window sl n c \<and>
      (st = 0 \<longrightarrow> bs = take (unat count * ssize) (drop (unat first * ssize) (window sl n c))) \<and>
      (clean c \<longrightarrow> clean c' \<and> (transfer_ok (sl_parent sl) count \<longrightarrow> st = 0))"
    using slice_read [OF assms inv range] inv' by (auto simp: ns_slice_ops_def window_def around_def)
  assume buf: "length buf = unat count * ssize"
  obtain st c' where w: "ns_slice_write ops sl first count buf c = Some (st, c')" "inv c'"
    "stored c' = (if st = 0 then splice_at ((unat (sl_first_sector sl) + unat first) * ssize) buf (stored c) else stored c)"
    "clean c \<longrightarrow> clean c' \<and> (transfer_ok (sl_parent sl) count \<and> writable (sl_parent sl) \<longrightarrow> st = 0)"
    using slice_write [OF assms inv range buf] by blast
  then have "around sl n c' = out \<and> window sl n c' = (if st = 0 then splice_at (unat first * ssize) buf (window sl n c) else window sl n c)"
    using slice_effect [OF assms inv range buf, of c'] inv' by (auto simp: around_def window_def)
  then show "\<exists>wr st c'. dr_write (ns_slice_ops ops sl) = Some wr \<and> wr first count buf c = Some (st, c') \<and>
      (inv c' \<and> around sl n c' = out) \<and>
      window sl n c' = (if st = 0 then splice_at (unat first * ssize) buf (window sl n c) else window sl n c) \<and>
      (clean c \<longrightarrow> clean c' \<and> (transfer_ok (sl_parent sl) count \<and> writable (sl_parent sl) \<longrightarrow> st = 0))"
    using w by (auto simp: ns_slice_ops_def)
qed

text \<open>The slice's own device over that contract.\<close>

lemma slice_fits:
  assumes "sliced sl n"
  shows "block_store.fits (ns_slice_ops ops sl) ssize n (transfer_ok (sl_parent sl)) (writable (sl_parent sl)) (sl_device sl)"
  using assms by (simp add: block_store.fits_def [OF slice_store [OF assms]] sliced_def)

text \<open>A transfer through the slice's device, in terms of what the parent stores.\<close>

lemma stored_split: "stored c = fst (around sl n c) @ window sl n c @ snd (around sl n c)"
proof -
  have "xs = take a xs @ take b (drop a xs) @ drop (a + b) xs" for a b and xs :: "u8 list"
    by (metis add.commute append_take_drop_id drop_drop)
  then show ?thesis by (simp add: around_def window_def)
qed

lemma window_write:
  assumes "sliced sl n" "inv c" "inv c'" "around sl n c' = around sl n c" "window sl n c' = splice_at a buf (window sl n c)"
    "a + length buf \<le> n * ssize"
  shows "stored c' = splice_at (unat (sl_first_sector sl) * ssize + a) buf (stored c)"
proof -
  have "(unat (sl_first_sector sl) + n) * ssize \<le> nsec * ssize"
    using assms(1) by (intro mult_right_mono) (simp_all add: sliced_def)
  then have "length (fst (around sl n c)) = unat (sl_first_sector sl) * ssize" "length (window sl n c) = n * ssize"
    using stored_length [OF assms(2)] by (simp_all add: around_def window_def add_mult_distrib)
  then have "splice_at (unat (sl_first_sector sl) * ssize + a) buf (stored c) =
      fst (around sl n c) @ splice_at a buf (window sl n c) @ snd (around sl n c)"
    unfolding stored_split [of c sl n] using assms(6) splice_at_append [of a buf "window sl n c"] by metis
  then show ?thesis by (simp add: stored_split [of c' sl n] assms(4,5))
qed

lemma slice_device_read:
  assumes "sliced sl n" "inv c"
  shows "\<exists>st bs c'. ns_block_read (ns_slice_ops ops sl) (sl_device sl) first count present c = Some ((st, bs), c') \<and>
    inv c' \<and> stored c' = stored c \<and>
    (st = 0 \<longrightarrow> unat first + unat count \<le> n \<and> bs = take (unat count * ssize) (drop ((unat (sl_first_sector sl) + unat first) * ssize) (stored c))) \<and>
    (clean c \<longrightarrow> clean c' \<and> (st = 0 \<longleftrightarrow> unat first + unat count \<le> n \<and> transfer_ok (sl_device sl) count \<and> (count = 0 \<or> present)))"
proof -
  note store = slice_store [OF assms(1), of "around sl n c"]
  obtain st bs c' where r: "ns_block_read (ns_slice_ops ops sl) (sl_device sl) first count present c = Some ((st, bs), c')"
    "inv c'" "around sl n c' = around sl n c" "window sl n c' = window sl n c"
    "st = 0 \<longrightarrow> unat first + unat count \<le> n \<and> bs = take (unat count * ssize) (drop (unat first * ssize) (window sl n c))"
    "clean c \<longrightarrow> clean c' \<and> (st = 0 \<longleftrightarrow> unat first + unat count \<le> n \<and> transfer_ok (sl_device sl) count \<and> (count = 0 \<or> present))"
    using block_store.block_read [OF store slice_fits [OF assms(1)], of c first count present] assms(2) by auto
  have "take (unat count * ssize) (drop (unat first * ssize) (window sl n c)) =
      take (unat count * ssize) (drop ((unat (sl_first_sector sl) + unat first) * ssize) (stored c))"
    if "unat first + unat count \<le> n"
  proof -
    have "(unat first + unat count) * ssize \<le> n * ssize" using that by simp
    then show ?thesis by (simp add: window_def add_mult_distrib drop_take take_take min_def add.commute)
  qed
  moreover have "stored c' = stored c" using r(3,4) stored_split [of c' sl n] stored_split [of c sl n] by simp
  ultimately show ?thesis using r by auto
qed

lemma slice_device_write:
  assumes "sliced sl n" "inv c" "length buf = unat count * ssize"
  shows "\<exists>st c'. ns_block_write (ns_slice_ops ops sl) (sl_device sl) first count (Some buf) c = Some (st, c') \<and> inv c' \<and>
    stored c' = (if st = 0 then splice_at ((unat (sl_first_sector sl) + unat first) * ssize) buf (stored c) else stored c) \<and>
    (st = 0 \<longrightarrow> unat first + unat count \<le> n) \<and>
    (clean c \<longrightarrow> clean c' \<and> (st = 0 \<longleftrightarrow> unat first + unat count \<le> n \<and> transfer_ok (sl_device sl) count \<and> (count = 0 \<or> writable (sl_device sl))))"
proof -
  note store = slice_store [OF assms(1), of "around sl n c"]
  obtain st c' where w: "ns_block_write (ns_slice_ops ops sl) (sl_device sl) first count (Some buf) c = Some (st, c')"
    "inv c'" "around sl n c' = around sl n c"
    "window sl n c' = (if st = 0 then splice_at (unat first * ssize) buf (window sl n c) else window sl n c)"
    "st = 0 \<longrightarrow> unat first + unat count \<le> n"
    "clean c \<longrightarrow> clean c' \<and> (st = 0 \<longleftrightarrow> unat first + unat count \<le> n \<and> transfer_ok (sl_device sl) count \<and> (count = 0 \<or> writable (sl_device sl)))"
    using block_store.block_write [OF store slice_fits [OF assms(1)] _ assms(3), of c first] assms(2) by auto
  have "stored c' = splice_at ((unat (sl_first_sector sl) + unat first) * ssize) buf (stored c)" if "st = 0"
  proof -
    have "(unat first + unat count) * ssize \<le> n * ssize" using that w(5) by simp
    then show ?thesis
      using window_write [OF assms(1,2) w(2,3), of "unat first * ssize" buf] w(4) that assms(3) by (simp add: add_mult_distrib)
  qed
  moreover have "stored c' = stored c" if "st \<noteq> 0"
    using that w(3,4) stored_split [of c' sl n] stored_split [of c sl n] by simp
  ultimately show ?thesis using w by auto
qed

text \<open>A slice of a slice.\<close>

definition sliced_twice :: "ns_block_slice \<Rightarrow> nat \<Rightarrow> ns_block_slice \<Rightarrow> nat \<Rightarrow> bool" where
  "sliced_twice outer n1 inner n2 \<longleftrightarrow> sliced outer n1 \<and>
     block_store.sliced (ns_slice_ops ops outer) ssize n1 (transfer_ok (sl_parent outer)) (writable (sl_parent outer)) inner n2"

lemma slice_init_twice:
  assumes "fits parent" "ns_block_slice_init ops parent f1 n1 flags1 s1 = (0, outer)"
    "ns_block_slice_init (ns_slice_ops ops outer) (sl_device outer) f2 n2 flags2 s2 = (0, inner)"
  shows "sliced_twice outer (unat n1) inner (unat n2)" "sl_first_sector outer = f1" "sl_first_sector inner = f2"
    "transfer_ok (sl_device inner) = transfer_ok parent"
    "bd_flags (sl_device inner) = bd_flags parent OR flags1 OR flags2"
    "unat f1 + unat n1 \<le> nsec" "unat f2 + unat n2 \<le> unat n1"
proof -
  note outer = slice_init [OF assms(1,2)]
  note store = slice_store [OF outer(1)]
  note inner = block_store.slice_init [OF store slice_fits [OF outer(1)] assms(3)]
  show "sliced_twice outer (unat n1) inner (unat n2)" using outer(1) inner(1) by (simp add: sliced_twice_def)
  show "sl_first_sector outer = f1" "sl_first_sector inner = f2" by (fact outer(2), fact inner(2))
  show "transfer_ok (sl_device inner) = transfer_ok parent" by (simp add: fun_eq_iff transfer_ok_def inner(4) outer(4))
  show "bd_flags (sl_device inner) = bd_flags parent OR flags1 OR flags2" by (simp add: inner(3) outer(3) or.assoc)
  show "unat f1 + unat n1 \<le> nsec" "unat f2 + unat n2 \<le> unat n1"
    using outer(1,2) inner(1,2) by (simp_all add: sliced_def block_store.sliced_def [OF store])
qed

lemma nested_read:
  assumes "sliced_twice outer n1 inner n2" "inv c"
  shows "\<exists>st bs c'. ns_block_read (ns_slice_ops (ns_slice_ops ops outer) inner) (sl_device inner) first count present c = Some ((st, bs), c') \<and>
    inv c' \<and> stored c' = stored c \<and>
    (st = 0 \<longrightarrow> unat first + unat count \<le> n2 \<and> bs = take (unat count * ssize)
       (drop ((unat (sl_first_sector outer) + unat (sl_first_sector inner) + unat first) * ssize) (stored c))) \<and>
    (clean c \<longrightarrow> clean c' \<and> (st = 0 \<longleftrightarrow> unat first + unat count \<le> n2 \<and> transfer_ok (sl_device inner) count \<and> (count = 0 \<or> present)))"
proof -
  define f2 where "f2 = unat (sl_first_sector inner)"
  have o: "sliced outer n1" using assms(1) by (simp add: sliced_twice_def)
  note store = slice_store [OF o, of "around outer n1 c"]
  have i: "block_store.sliced (ns_slice_ops ops outer) ssize n1 (transfer_ok (sl_parent outer)) (writable (sl_parent outer)) inner n2"
    using assms(1) by (simp add: sliced_twice_def)
  have n: "f2 + n2 \<le> n1" using i by (simp add: block_store.sliced_def [OF store] f2_def)
  obtain st bs c' where r: "ns_block_read (ns_slice_ops (ns_slice_ops ops outer) inner) (sl_device inner) first count present c = Some ((st, bs), c')"
    "inv c'" "around outer n1 c' = around outer n1 c" "window outer n1 c' = window outer n1 c"
    "st = 0 \<longrightarrow> unat first + unat count \<le> n2 \<and> bs = take (unat count * ssize) (drop ((f2 + unat first) * ssize) (window outer n1 c))"
    "clean c \<longrightarrow> clean c' \<and> (st = 0 \<longleftrightarrow> unat first + unat count \<le> n2 \<and> transfer_ok (sl_device inner) count \<and> (count = 0 \<or> present))"
    using block_store.slice_device_read [OF store i, of c first count present] assms(2) unfolding f2_def by blast
  have "stored c' = stored c" using r(3,4) stored_split [of c' outer n1] stored_split [of c outer n1] by simp
  moreover have "bs = take (unat count * ssize) (drop ((unat (sl_first_sector outer) + f2 + unat first) * ssize) (stored c))" if "st = 0"
  proof -
    have "(f2 + unat first + unat count) * ssize \<le> n1 * ssize" using that r(5) n by (intro mult_right_mono) auto
    then show ?thesis using that r(5) by (simp add: window_def add_mult_distrib drop_take take_take min_def algebra_simps)
  qed
  ultimately show ?thesis using r unfolding f2_def by blast
qed

lemma nested_write:
  assumes "sliced_twice outer n1 inner n2" "inv c" "length buf = unat count * ssize"
  shows "\<exists>st c'. ns_block_write (ns_slice_ops (ns_slice_ops ops outer) inner) (sl_device inner) first count (Some buf) c = Some (st, c') \<and>
    inv c' \<and> stored c' = (if st = 0 then splice_at
      ((unat (sl_first_sector outer) + unat (sl_first_sector inner) + unat first) * ssize) buf (stored c) else stored c) \<and>
    (clean c \<longrightarrow> clean c' \<and> (st = 0 \<longleftrightarrow> unat first + unat count \<le> n2 \<and> transfer_ok (sl_device inner) count \<and> (count = 0 \<or> writable (sl_device inner))))"
proof -
  define f2 where "f2 = unat (sl_first_sector inner)"
  have o: "sliced outer n1" using assms(1) by (simp add: sliced_twice_def)
  note store = slice_store [OF o, of "around outer n1 c"]
  have i: "block_store.sliced (ns_slice_ops ops outer) ssize n1 (transfer_ok (sl_parent outer)) (writable (sl_parent outer)) inner n2"
    using assms(1) by (simp add: sliced_twice_def)
  have n: "f2 + n2 \<le> n1" using i by (simp add: block_store.sliced_def [OF store] f2_def)
  obtain st c' where w: "ns_block_write (ns_slice_ops (ns_slice_ops ops outer) inner) (sl_device inner) first count (Some buf) c = Some (st, c')"
    "inv c'" "around outer n1 c' = around outer n1 c"
    "window outer n1 c' = (if st = 0 then splice_at ((f2 + unat first) * ssize) buf (window outer n1 c) else window outer n1 c)"
    "st = 0 \<longrightarrow> unat first + unat count \<le> n2"
    "clean c \<longrightarrow> clean c' \<and> (st = 0 \<longleftrightarrow> unat first + unat count \<le> n2 \<and> transfer_ok (sl_device inner) count \<and> (count = 0 \<or> writable (sl_device inner)))"
    using block_store.slice_device_write [OF store i _ assms(3), of c first] assms(2) unfolding f2_def by blast
  have "stored c' = splice_at ((unat (sl_first_sector outer) + f2 + unat first) * ssize) buf (stored c)" if "st = 0"
  proof -
    have "(f2 + unat first + unat count) * ssize \<le> n1 * ssize" using that w(5) n by (intro mult_right_mono) auto
    then show ?thesis
      using window_write [OF o assms(2) w(2,3), of "(f2 + unat first) * ssize" buf] w(4) that assms(3) by (simp add: algebra_simps)
  qed
  moreover have "stored c' = stored c" if "st \<noteq> 0"
    using that w(3,4) stored_split [of c' outer n1] stored_split [of c outer n1] by simp
  ultimately show ?thesis using w unfolding f2_def by auto
qed

end

end
