(* ===== verification/Block_Props.thy ===== *)
theory Block_Props
  imports Block_Mem Block_Store
begin

text \<open>
  The memory device keeps the contract of a block driver, and with it the generic layer and slices over
  it; histories of calls on a memory device.
\<close>

unbundle bit_operations_syntax

section \<open>The memory device keeps the contract\<close>

definition mem_ok :: "ns_block_device \<Rightarrow> ns_mem_block \<Rightarrow> bool" where
  "mem_ok dev m \<longleftrightarrow>
     mb_device m = dev \<and> ns_mem_block_valid m \<and> mb_lock m = 0 \<and>
     (\<exists>bytes. mb_data m = Some bytes \<and> length bytes = unat (mb_byte_count m)) \<and>
     unat (mb_byte_count m) = unat (bd_sector_count dev) * unat (bd_sector_size dev)"

text \<open>No fault is armed.\<close>

definition mem_quiet :: "ns_mem_block \<Rightarrow> bool" where
  "mem_quiet m \<longleftrightarrow> mf_operation_mask (mb_fault m) = 0"

definition mem_bytes :: "ns_mem_block \<Rightarrow> u8 list" where
  "mem_bytes m = the (mb_data m)"

text \<open>The updates of statistics, fault state and lock leave the rest alone.\<close>

definition same_store :: "ns_mem_block \<Rightarrow> ns_mem_block \<Rightarrow> bool" where
  "same_store m m' \<longleftrightarrow> mb_device m' = mb_device m \<and> mb_data m' = mb_data m \<and> mb_byte_count m' = mb_byte_count m \<and>
     mb_magic m' = mb_magic m \<and> mb_owns_data m' = mb_owns_data m \<and> mb_allocator m' = mb_allocator m"

lemma same_store_count [simp]: "same_store m (count_mem f m') \<longleftrightarrow> same_store m m'"
  by (simp add: same_store_def count_mem_def)

lemma same_store_fields [simp]:
  "same_store m (m'\<lparr>mb_fault := f\<rparr>) \<longleftrightarrow> same_store m m'" "same_store m (m'\<lparr>mb_stats := t\<rparr>) \<longleftrightarrow> same_store m m'"
  "same_store m (m'\<lparr>mb_lock := l\<rparr>) \<longleftrightarrow> same_store m m'" "same_store m (ns_mem_unlock m') \<longleftrightarrow> same_store m m'" "same_store m m"
  by (simp_all add: same_store_def ns_mem_unlock_def)

lemma maybe_fail_same: "same_store m (snd (ns_mem_maybe_fail op f n m)) "
  by (simp add: ns_mem_maybe_fail_def Let_def)

lemma maybe_fail_keeps: "ns_mem_maybe_fail op f n m1 = (st, m2) \<Longrightarrow> same_store m m1 \<Longrightarrow> same_store m m2"
  using maybe_fail_same [of m1 op f n] by (simp add: same_store_def)

lemma quiet_count [simp]: "mem_quiet (count_mem f m) \<longleftrightarrow> mem_quiet m"
  by (simp add: mem_quiet_def count_mem_def)

lemma quiet_fields [simp]:
  "mem_quiet (m\<lparr>mb_stats := t\<rparr>) \<longleftrightarrow> mem_quiet m" "mem_quiet (m\<lparr>mb_lock := l\<rparr>) \<longleftrightarrow> mem_quiet m"
  "mem_quiet (m\<lparr>mb_data := d\<rparr>) \<longleftrightarrow> mem_quiet m" "mem_quiet (ns_mem_unlock m) \<longleftrightarrow> mem_quiet m"
  "mem_quiet (m\<lparr>mb_fault := f\<rparr>) \<longleftrightarrow> mf_operation_mask f = 0"
  by (simp_all add: mem_quiet_def ns_mem_unlock_def)

lemma maybe_fail_quiet: "ns_mem_maybe_fail op f n m = (st, m') \<Longrightarrow> mem_quiet m \<Longrightarrow> st = 0 \<and> mem_quiet m'"
  by (auto simp: ns_mem_maybe_fail_def ns_fault_matches_def mem_quiet_def)

lemma same_store_ok: "mem_ok dev m \<Longrightarrow> same_store m m' \<Longrightarrow> mb_lock m' = 0 \<Longrightarrow> mem_ok dev m' \<and> mem_bytes m' = mem_bytes m"
  by (auto simp: mem_ok_def same_store_def ns_mem_block_valid_def mem_bytes_def)

lemma unlock_lock [simp]: "mb_lock (ns_mem_unlock m) = 0"
  by (simp add: ns_mem_unlock_def)

lemma mem_lock_ok: "mem_ok dev m \<Longrightarrow> ns_mem_lock m = Some (m\<lparr>mb_lock := 1\<rparr>)"
  by (simp add: mem_ok_def ns_mem_lock_def)

lemma sector_bytes:
  assumes "mem_ok dev m" "unat first + unat count \<le> unat (bd_sector_count dev)"
  shows "unat (ucast (count::u32) * ucast (bd_sector_size dev) :: u64) = unat count * unat (bd_sector_size dev)"
    "unat (first * ucast (bd_sector_size dev) :: u64) = unat first * unat (bd_sector_size dev)"
    "unat first * unat (bd_sector_size dev) + unat count * unat (bd_sector_size dev) \<le> length (mem_bytes m)"
proof -
  have len: "length (mem_bytes m) = unat (bd_sector_count dev) * unat (bd_sector_size dev)" "length (mem_bytes m) < 18446744073709551616"
    using assms(1) u64_less [of "mb_byte_count m"] by (auto simp: mem_ok_def mem_bytes_def)
  have "(unat first + unat count) * unat (bd_sector_size dev) \<le> unat (bd_sector_count dev) * unat (bd_sector_size dev)"
    using assms(2) by simp
  then show sum: "unat first * unat (bd_sector_size dev) + unat count * unat (bd_sector_size dev) \<le> length (mem_bytes m)"
    by (simp add: len(1) add_mult_distrib)
  have "unat first * unat (bd_sector_size dev) < 18446744073709551616" "unat count * unat (bd_sector_size dev) < 18446744073709551616"
    using sum len(2) by linarith+
  then show "unat (ucast (count::u32) * ucast (bd_sector_size dev) :: u64) = unat count * unat (bd_sector_size dev)"
    "unat (first * ucast (bd_sector_size dev) :: u64) = unat first * unat (bd_sector_size dev)"
    by (simp_all add: unat_word_ariths unat_ucast_up)
qed

lemma mem_read_ok:
  assumes "mem_ok dev m" "unat first + unat count \<le> unat (bd_sector_count dev)"
  shows "\<exists>st bs m'. ns_mem_read first count m = Some ((st, bs), m') \<and> mem_ok dev m' \<and> mem_bytes m' = mem_bytes m \<and>
    (st = 0 \<longrightarrow> bs = take (unat count * unat (bd_sector_size dev)) (drop (unat first * unat (bd_sector_size dev)) (mem_bytes m))) \<and>
    (mem_quiet m \<longrightarrow> mem_quiet m' \<and> st = 0)"
proof -
  define m1 where "m1 = count_mem (\<lambda>t. t\<lparr>ms_read_calls := ns_saturating_add_u64 (ms_read_calls t) 1\<rparr>) (m\<lparr>mb_lock := 1\<rparr>)"
  obtain st m2 where f: "ns_mem_maybe_fail 1 first count m1 = (st, m2)" by fastforce
  have same: "same_store m m2" by (rule maybe_fail_keeps [OF f]) (simp add: m1_def)
  have quiet: "mem_quiet m \<longrightarrow> mem_quiet m2 \<and> st = 0" using maybe_fail_quiet [OF f] by (simp add: m1_def)
  have dev: "mb_device m = dev" using assms(1) by (simp add: mem_ok_def)
  have "copy_out (mb_data m2) (unat first * unat (bd_sector_size dev)) (unat count * unat (bd_sector_size dev)) =
      Some (take (unat count * unat (bd_sector_size dev)) (drop (unat first * unat (bd_sector_size dev)) (mem_bytes m)))"
    using same sector_bytes(3) [OF assms] assms(1) by (auto simp: copy_out_def same_store_def mem_ok_def mem_bytes_def)
  then show ?thesis
    using same_store_ok [OF assms(1)] same quiet
    unfolding ns_mem_read_def mem_lock_ok [OF assms(1)] dev Let_def bind.simps m1_def [symmetric] f prod.case sector_bytes(1,2) [OF assms]
    by (auto simp: Let_def)
qed

lemma mem_write_ok:
  assumes "mem_ok dev m" "unat first + unat count \<le> unat (bd_sector_count dev)" "length buf = unat count * unat (bd_sector_size dev)"
  shows "\<exists>st m'. ns_mem_write first count buf m = Some (st, m') \<and> mem_ok dev m' \<and>
    mem_bytes m' = (if st = 0 then splice_at (unat first * unat (bd_sector_size dev)) buf (mem_bytes m) else mem_bytes m) \<and>
    (mem_quiet m \<longrightarrow> mem_quiet m' \<and> st = 0)"
proof -
  define m1 where "m1 = count_mem (\<lambda>t. t\<lparr>ms_write_calls := ns_saturating_add_u64 (ms_write_calls t) 1\<rparr>) (m\<lparr>mb_lock := 1\<rparr>)"
  obtain st m2 where f: "ns_mem_maybe_fail 2 first count m1 = (st, m2)" by fastforce
  have same: "same_store m m2" by (rule maybe_fail_keeps [OF f]) (simp add: m1_def)
  have quiet: "mem_quiet m \<longrightarrow> mem_quiet m2 \<and> st = 0" using maybe_fail_quiet [OF f] by (simp add: m1_def)
  have dev: "mb_device m = dev" using assms(1) by (simp add: mem_ok_def)
  define new where "new = splice_at (unat first * unat (bd_sector_size dev)) buf (mem_bytes m)"
  have room: "unat first * unat (bd_sector_size dev) + length buf \<le> length (mem_bytes m)"
    using sector_bytes(3) [OF assms(1,2)] assms(3) by simp
  then have copy: "copy_in (mb_data m2) (unat first * unat (bd_sector_size dev)) (length buf) buf = Some new"
    using same assms(1) by (auto simp: copy_in_def same_store_def mem_ok_def mem_bytes_def new_def splice_at_def)
  have "length new = length (mem_bytes m)" using room by (simp add: new_def)
  then have "mem_ok dev m' \<and> mem_bytes m' = new" if "same_store (m2\<lparr>mb_data := Some new\<rparr>) m'" "mb_lock m' = 0" for m'
    using that same assms(1) by (auto simp: mem_ok_def same_store_def ns_mem_block_valid_def mem_bytes_def)
  then show ?thesis
    using same_store_ok [OF assms(1)] same copy quiet
    unfolding ns_mem_write_def mem_lock_ok [OF assms(1)] dev Let_def bind.simps m1_def [symmetric] f prod.case
      sector_bytes(1,2) [OF assms(1,2)] assms(3) [symmetric]
    by (auto simp: Let_def new_def)
qed

lemma mem_flush_ok:
  assumes "mem_ok dev m"
  shows "\<exists>st m'. ns_mem_flush m = Some (st, m') \<and> mem_ok dev m' \<and> mem_bytes m' = mem_bytes m \<and>
    (mem_quiet m \<longrightarrow> mem_quiet m' \<and> st = 0)"
proof -
  define m1 where "m1 = count_mem (\<lambda>t. t\<lparr>ms_flush_calls := ns_saturating_add_u64 (ms_flush_calls t) 1\<rparr>) (m\<lparr>mb_lock := 1\<rparr>)"
  obtain st m2 where f: "ns_mem_maybe_fail 4 0 0 m1 = (st, m2)" by fastforce
  have same: "same_store m m2" by (rule maybe_fail_keeps [OF f]) (simp add: m1_def)
  have quiet: "mem_quiet m \<longrightarrow> mem_quiet m2 \<and> st = 0" using maybe_fail_quiet [OF f] by (simp add: m1_def)
  then show ?thesis
    using same_store_ok [OF assms] same quiet
    unfolding ns_mem_flush_def mem_lock_ok [OF assms] Let_def bind.simps m1_def [symmetric] f prod.case by auto
qed

interpretation mem: block_store ns_mem_block_ops "mem_ok dev" mem_quiet mem_bytes "unat (bd_sector_size dev)" "unat (bd_sector_count dev)"
  "\<lambda>_. True" True
  for dev
proof
  fix c and first :: u64 and count :: u32 and buf :: "u8 list"
  assume ok: "mem_ok dev c"
  then show "length (mem_bytes c) = unat (bd_sector_count dev) * unat (bd_sector_size dev)"
    by (auto simp: mem_ok_def mem_bytes_def)
  show "\<exists>fl st c'. dr_flush ns_mem_block_ops = Some fl \<and> fl c = Some (st, c') \<and> mem_ok dev c' \<and> mem_bytes c' = mem_bytes c \<and>
      (mem_quiet c \<longrightarrow> mem_quiet c' \<and> st = 0)"
    using mem_flush_ok [OF ok] by (simp add: ns_mem_block_ops_def)
  assume range: "unat first + unat count \<le> unat (bd_sector_count dev)"
  show "\<exists>rd st bs c'. dr_read ns_mem_block_ops = Some rd \<and> rd first count c = Some ((st, bs), c') \<and> mem_ok dev c' \<and>
      mem_bytes c' = mem_bytes c \<and>
      (st = 0 \<longrightarrow> bs = take (unat count * unat (bd_sector_size dev)) (drop (unat first * unat (bd_sector_size dev)) (mem_bytes c))) \<and>
      (mem_quiet c \<longrightarrow> mem_quiet c' \<and> (True \<longrightarrow> st = 0))"
    using mem_read_ok [OF ok range] by (simp add: ns_mem_block_ops_def)
  assume "length buf = unat count * unat (bd_sector_size dev)"
  from mem_write_ok [OF ok range this]
  show "\<exists>wr st c'. dr_write ns_mem_block_ops = Some wr \<and> wr first count buf c = Some (st, c') \<and> mem_ok dev c' \<and>
      mem_bytes c' = (if st = 0 then splice_at (unat first * unat (bd_sector_size dev)) buf (mem_bytes c) else mem_bytes c) \<and>
      (mem_quiet c \<longrightarrow> mem_quiet c' \<and> (True \<and> True \<longrightarrow> st = 0))"
    by (simp add: ns_mem_block_ops_def)
qed

section \<open>Histories of a memory device\<close>

datatype mem_call =
    MRead u64 u32 bool
  | MWrite u64 u32 "u8 list option"
  | MFlush
  | MSet_fault ns_mem_block_fault
  | MClear_fault
  | MGet_stats
  | MReset_stats

fun mem_exec :: "mem_call \<Rightarrow> ns_mem_block \<Rightarrow> ((int \<times> u8 list) \<times> ns_mem_block) option" where
  "mem_exec (MRead f n present) m = ns_block_read ns_mem_block_ops (mb_device m) f n present m"
| "mem_exec (MWrite f n buf) m = map_option (\<lambda>(r, m). ((r, []), m)) (ns_block_write ns_mem_block_ops (mb_device m) f n buf m)"
| "mem_exec MFlush m = map_option (\<lambda>(r, m). ((r, []), m)) (ns_block_flush ns_mem_block_ops (mb_device m) m)"
| "mem_exec (MSet_fault fault) m = map_option (\<lambda>(r, m). ((r, []), m)) (ns_mem_block_set_fault fault m)"
| "mem_exec MClear_fault m = map_option (\<lambda>m. ((0, []), m)) (ns_mem_block_clear_fault m)"
| "mem_exec MGet_stats m = map_option (\<lambda>(r, t, m). ((r, []), m)) (ns_mem_block_get_stats m)"
| "mem_exec MReset_stats m = map_option (\<lambda>(r, m). ((r, []), m)) (ns_mem_block_reset_stats m)"

fun mem_run :: "mem_call list \<Rightarrow> ns_mem_block \<Rightarrow> ((int \<times> u8 list) list \<times> ns_mem_block) option" where
  "mem_run [] m = Some ([], m)"
| "mem_run (c # cs) m =
     (case mem_exec c m of
        None \<Rightarrow> None
      | Some (r, m) \<Rightarrow> map_option (\<lambda>(rs, m). (r # rs, m)) (mem_run cs m))"

text \<open>A write is given a buffer of the size it names.\<close>

fun call_ok :: "nat \<Rightarrow> mem_call \<Rightarrow> bool" where
  "call_ok ssize (MWrite f n (Some buf)) \<longleftrightarrow> length buf = unat n * ssize"
| "call_ok ssize _ \<longleftrightarrow> True"

text \<open>
  The specification: an array of bytes, which successful writes change and successful reads show, and
  whether a fault may be armed. Without one, a transfer succeeds exactly when its sectors are on the
  device, and a write when the device is writable.
\<close>

definition on_device :: "ns_block_device \<Rightarrow> u64 \<Rightarrow> u32 \<Rightarrow> bool" where
  "on_device dev f n \<longleftrightarrow> unat f + unat n \<le> unat (bd_sector_count dev)"

fun conforms :: "ns_block_device \<Rightarrow> mem_call list \<Rightarrow> (int \<times> u8 list) list \<Rightarrow> bool \<Rightarrow> u8 list \<Rightarrow> u8 list \<Rightarrow> bool" where
  "conforms dev [] [] armed bytes final \<longleftrightarrow> final = bytes"
| "conforms dev (MRead f n present # cs) ((st, bs) # rs) armed bytes final \<longleftrightarrow>
     (st = 0 \<longrightarrow> on_device dev f n \<and>
        bs = take (unat n * unat (bd_sector_size dev)) (drop (unat f * unat (bd_sector_size dev)) bytes)) \<and>
     (\<not> armed \<longrightarrow> (st = 0 \<longleftrightarrow> on_device dev f n \<and> (n = 0 \<or> present))) \<and>
     conforms dev cs rs armed bytes final"
| "conforms dev (MWrite f n (Some buf) # cs) ((st, _) # rs) armed bytes final \<longleftrightarrow>
     (st = 0 \<longrightarrow> on_device dev f n) \<and>
     (\<not> armed \<longrightarrow> (st = 0 \<longleftrightarrow> on_device dev f n \<and> (n = 0 \<or> writable dev))) \<and>
     conforms dev cs rs armed (if st = 0 then splice_at (unat f * unat (bd_sector_size dev)) buf bytes else bytes) final"
| "conforms dev (MWrite f n None # cs) ((st, _) # rs) armed bytes final \<longleftrightarrow>
     (st = 0 \<longrightarrow> on_device dev f n \<and> n = 0) \<and> conforms dev cs rs armed bytes final"
| "conforms dev (MFlush # cs) ((st, _) # rs) armed bytes final \<longleftrightarrow>
     (\<not> armed \<longrightarrow> st = 0) \<and> conforms dev cs rs armed bytes final"
| "conforms dev (MSet_fault fault # cs) ((st, _) # rs) armed bytes final \<longleftrightarrow>
     conforms dev cs rs (if st = 0 then mf_operation_mask fault \<noteq> 0 else armed) bytes final"
| "conforms dev (MClear_fault # cs) (_ # rs) armed bytes final \<longleftrightarrow> conforms dev cs rs False bytes final"
| "conforms dev (MGet_stats # cs) ((st, _) # rs) armed bytes final \<longleftrightarrow> st = 0 \<and> conforms dev cs rs armed bytes final"
| "conforms dev (MReset_stats # cs) ((st, _) # rs) armed bytes final \<longleftrightarrow> st = 0 \<and> conforms dev cs rs armed bytes final"
| "conforms dev _ _ armed bytes final \<longleftrightarrow> False"

text \<open>What is kept about a device between calls, with the fault state and the bytes.\<close>

definition kept :: "ns_block_device \<Rightarrow> bool \<Rightarrow> u8 list \<Rightarrow> ns_mem_block \<Rightarrow> bool" where
  "kept dev armed bytes m \<longleftrightarrow>
     mem_ok dev m \<and> bd_max_transfer_sectors dev = 0 \<and> mem_bytes m = bytes \<and> (armed \<or> mem_quiet m)"

lemma kept_fits: "kept dev armed bytes m \<Longrightarrow> mem.fits dev dev"
  by (auto simp: kept_def mem.fits_def mem_ok_def ns_mem_block_valid_def)

lemma mem_valid: "mem_ok dev m \<Longrightarrow> ns_mem_block_valid m"
  by (simp add: mem_ok_def)

lemma mem_control_ok:
  assumes "mem_ok dev m"
  shows "\<exists>r m'. ns_mem_block_set_fault fault m = Some (r, m') \<and> mem_ok dev m' \<and> mem_bytes m' = mem_bytes m \<and>
      (if r = 0 then mem_quiet m' \<longleftrightarrow> mf_operation_mask fault = 0 else mem_quiet m' \<longleftrightarrow> mem_quiet m)"
    and "\<exists>m'. ns_mem_block_clear_fault m = Some m' \<and> mem_ok dev m' \<and> mem_bytes m' = mem_bytes m \<and> mem_quiet m'"
    and "\<exists>t m'. ns_mem_block_get_stats m = Some (0, t, m') \<and> mem_ok dev m' \<and> mem_bytes m' = mem_bytes m \<and>
      (mem_quiet m' \<longleftrightarrow> mem_quiet m)"
    and "\<exists>m'. ns_mem_block_reset_stats m = Some (0, m') \<and> mem_ok dev m' \<and> mem_bytes m' = mem_bytes m \<and>
      (mem_quiet m' \<longleftrightarrow> mem_quiet m)"
proof -
  have keep: "mem_ok dev (ns_mem_unlock m') \<and> mem_bytes (ns_mem_unlock m') = mem_bytes m" if "same_store m m'" for m'
    using same_store_ok [OF assms, of "ns_mem_unlock m'"] that by simp
  note [simp] = mem_lock_ok [OF assms] mem_valid [OF assms]
  show clear: "\<exists>m'. ns_mem_block_clear_fault m = Some m' \<and> mem_ok dev m' \<and> mem_bytes m' = mem_bytes m \<and> mem_quiet m'"
    using keep by (simp add: ns_mem_block_clear_fault_def zero_fault_def)
  show "\<exists>r m'. ns_mem_block_set_fault fault m = Some (r, m') \<and> mem_ok dev m' \<and> mem_bytes m' = mem_bytes m \<and>
      (if r = 0 then mem_quiet m' \<longleftrightarrow> mf_operation_mask fault = 0 else mem_quiet m' \<longleftrightarrow> mem_quiet m)"
    using assms keep clear ns_errno_value_pos by (auto simp: ns_mem_block_set_fault_def)
  show "\<exists>t m'. ns_mem_block_get_stats m = Some (0, t, m') \<and> mem_ok dev m' \<and> mem_bytes m' = mem_bytes m \<and>
      (mem_quiet m' \<longleftrightarrow> mem_quiet m)"
    using keep by (simp add: ns_mem_block_get_stats_def)
  show "\<exists>m'. ns_mem_block_reset_stats m = Some (0, m') \<and> mem_ok dev m' \<and> mem_bytes m' = mem_bytes m \<and>
      (mem_quiet m' \<longleftrightarrow> mem_quiet m)"
    using keep by (simp add: ns_mem_block_reset_stats_def)
qed

definition exec_ok :: "ns_block_device \<Rightarrow> mem_call \<Rightarrow> bool \<Rightarrow> u8 list \<Rightarrow> ns_mem_block \<Rightarrow> bool" where
  "exec_ok dev c armed bytes m \<longleftrightarrow> (\<exists>r m' armed' bytes'. mem_exec c m = Some (r, m') \<and> kept dev armed' bytes' m' \<and>
     (\<forall>cs rs final. conforms dev cs rs armed' bytes' final \<longrightarrow> conforms dev (c # cs) (r # rs) armed bytes final))"

lemma exec_okI:
  assumes "mem_exec c m = Some (r, m')" "kept dev armed' bytes' m'"
    "\<And>cs rs final. conforms dev cs rs armed' bytes' final \<Longrightarrow> conforms dev (c # cs) (r # rs) armed bytes final"
  shows "exec_ok dev c armed bytes m"
  using assms unfolding exec_ok_def by blast

lemma exec_read:
  assumes "kept dev armed bytes m"
  shows "exec_ok dev (MRead f n present) armed bytes m"
proof -
  have k: "mem_ok dev m" "mb_device m = dev" "mem_bytes m = bytes" "transfer_ok dev n" "\<not> armed \<Longrightarrow> mem_quiet m"
    using assms by (auto simp: kept_def mem_ok_def transfer_ok_def)
  obtain st bs m' where r: "ns_block_read ns_mem_block_ops dev f n present m = Some ((st, bs), m')" "mem_ok dev m'"
    "mem_bytes m' = bytes"
    "st = 0 \<longrightarrow> on_device dev f n \<and> bs = take (unat n * unat (bd_sector_size dev)) (drop (unat f * unat (bd_sector_size dev)) bytes)"
    "mem_quiet m \<longrightarrow> mem_quiet m' \<and> (st = 0 \<longleftrightarrow> on_device dev f n \<and> (n = 0 \<or> present))"
    using mem.block_read [OF kept_fits [OF assms] k(1), of f n present] k(3,4) unfolding on_device_def by blast
  show ?thesis
    by (rule exec_okI [of _ _ "(st, bs)" m' _ armed bytes]) (use r k assms in \<open>auto simp: kept_def\<close>)
qed

lemma exec_write:
  assumes "kept dev armed bytes m" "length buf = unat n * unat (bd_sector_size dev)"
  shows "exec_ok dev (MWrite f n (Some buf)) armed bytes m"
proof -
  have k: "mem_ok dev m" "mb_device m = dev" "mem_bytes m = bytes" "transfer_ok dev n" "\<not> armed \<Longrightarrow> mem_quiet m"
    using assms by (auto simp: kept_def mem_ok_def transfer_ok_def)
  obtain st m' where r: "ns_block_write ns_mem_block_ops dev f n (Some buf) m = Some (st, m')" "mem_ok dev m'"
    "mem_bytes m' = (if st = 0 then splice_at (unat f * unat (bd_sector_size dev)) buf bytes else bytes)"
    "st = 0 \<longrightarrow> on_device dev f n"
    "mem_quiet m \<longrightarrow> mem_quiet m' \<and> (st = 0 \<longleftrightarrow> on_device dev f n \<and> (n = 0 \<or> writable dev))"
    using mem.block_write [OF kept_fits [OF assms(1)] k(1) assms(2), of f] k(3,4) unfolding on_device_def by blast
  show ?thesis
    by (rule exec_okI [of _ _ "(st, [])" m' _ armed "mem_bytes m'"]) (use r k assms in \<open>auto simp: kept_def\<close>)
qed

lemma exec_write_null:
  assumes "kept dev armed bytes m"
  shows "exec_ok dev (MWrite f n None) armed bytes m"
proof -
  have k: "mb_device m = dev" using assms by (auto simp: kept_def mem_ok_def)
  have "\<exists>st. ns_block_write ns_mem_block_ops dev f n None m = Some (st, m) \<and> (st = 0 \<longrightarrow> on_device dev f n \<and> n = 0)"
    using mem.validated [OF kept_fits [OF assms], of f n] ns_errno_value_pos [of NS_EFAULT]
    by (auto simp: ns_block_write_def on_device_def)
  then obtain st where "ns_block_write ns_mem_block_ops dev f n None m = Some (st, m)" "st = 0 \<longrightarrow> on_device dev f n \<and> n = 0"
    by blast
  then show ?thesis
    by (intro exec_okI [of _ _ "(st, [])" m _ armed bytes]) (use k assms in \<open>auto simp: kept_def\<close>)
qed

lemma exec_flush:
  assumes "kept dev armed bytes m"
  shows "exec_ok dev MFlush armed bytes m"
proof -
  have k: "mem_ok dev m" "mb_device m = dev" "mem_bytes m = bytes" "\<not> armed \<Longrightarrow> mem_quiet m"
    using assms by (auto simp: kept_def mem_ok_def)
  obtain st m' where "ns_block_flush ns_mem_block_ops dev m = Some (st, m')" "mem_ok dev m'" "mem_bytes m' = bytes"
    "mem_quiet m \<longrightarrow> mem_quiet m' \<and> st = 0"
    using mem.block_flush [OF kept_fits [OF assms] k(1)] k(3) by blast
  then show ?thesis
    by (intro exec_okI [of _ _ "(st, [])" m' _ armed bytes]) (use k assms in \<open>auto simp: kept_def\<close>)
qed

lemma exec_control:
  assumes "kept dev armed bytes m"
  shows "exec_ok dev (MSet_fault fault) armed bytes m" "exec_ok dev MClear_fault armed bytes m"
    "exec_ok dev MGet_stats armed bytes m" "exec_ok dev MReset_stats armed bytes m"
proof -
  have ok: "mem_ok dev m" using assms by (simp add: kept_def)
  obtain r m' where "ns_mem_block_set_fault fault m = Some (r, m')" "mem_ok dev m'" "mem_bytes m' = mem_bytes m"
    "if r = 0 then mem_quiet m' \<longleftrightarrow> mf_operation_mask fault = 0 else mem_quiet m' \<longleftrightarrow> mem_quiet m"
    using mem_control_ok(1) [OF ok] by blast
  then show "exec_ok dev (MSet_fault fault) armed bytes m"
    by (intro exec_okI [of _ _ "(r, [])" m' _ "if r = 0 then mf_operation_mask fault \<noteq> 0 else armed" bytes])
      (use assms in \<open>auto simp: kept_def split: if_splits\<close>)
  obtain m1 where "ns_mem_block_clear_fault m = Some m1" "mem_ok dev m1" "mem_bytes m1 = mem_bytes m" "mem_quiet m1"
    using mem_control_ok(2) [OF ok] by blast
  then show "exec_ok dev MClear_fault armed bytes m"
    by (intro exec_okI [of _ _ "(0, [])" m1 _ False bytes]) (use assms in \<open>auto simp: kept_def\<close>)
  obtain t m2 where "ns_mem_block_get_stats m = Some (0, t, m2)" "mem_ok dev m2" "mem_bytes m2 = mem_bytes m"
    "mem_quiet m2 \<longleftrightarrow> mem_quiet m"
    using mem_control_ok(3) [OF ok] by blast
  then show "exec_ok dev MGet_stats armed bytes m"
    by (intro exec_okI [of _ _ "(0, [])" m2 _ armed bytes]) (use assms in \<open>auto simp: kept_def\<close>)
  obtain m3 where "ns_mem_block_reset_stats m = Some (0, m3)" "mem_ok dev m3" "mem_bytes m3 = mem_bytes m"
    "mem_quiet m3 \<longleftrightarrow> mem_quiet m"
    using mem_control_ok(4) [OF ok] by blast
  then show "exec_ok dev MReset_stats armed bytes m"
    by (intro exec_okI [of _ _ "(0, [])" m3 _ armed bytes]) (use assms in \<open>auto simp: kept_def\<close>)
qed

lemma mem_exec_ok:
  assumes "kept dev armed bytes m" "call_ok (unat (bd_sector_size dev)) c"
  shows "exec_ok dev c armed bytes m"
proof (cases c)
  case (MWrite f n b)
  then show ?thesis
    using exec_write [OF assms(1)] exec_write_null [OF assms(1)] assms(2) by (cases b) simp_all
qed (simp_all add: exec_read exec_flush exec_control assms(1))

lemma mem_run_ok:
  "kept dev armed bytes m \<Longrightarrow> \<forall>c \<in> set cs. call_ok (unat (bd_sector_size dev)) c \<Longrightarrow>
   \<exists>rs m'. mem_run cs m = Some (rs, m') \<and> mem_ok dev m' \<and> conforms dev cs rs armed bytes (mem_bytes m')"
proof (induction cs arbitrary: m armed bytes)
  case Nil
  then show ?case by (simp add: kept_def)
next
  case (Cons c cs)
  then obtain r m1 armed' bytes' where s: "mem_exec c m = Some (r, m1)" "kept dev armed' bytes' m1"
    "\<And>rs final. conforms dev cs rs armed' bytes' final \<Longrightarrow> conforms dev (c # cs) (r # rs) armed bytes final"
    using mem_exec_ok [of dev armed bytes m c] by (auto simp: exec_ok_def)
  from Cons.IH [OF s(2)] Cons.prems(2) obtain rs m' where "mem_run cs m1 = Some (rs, m')" "mem_ok dev m'"
    "conforms dev cs rs armed' bytes' (mem_bytes m')" by auto
  then show ?case using s by auto
qed

lemma init_borrowed_ok:
  assumes "ns_mem_block_init_borrowed (Some bytes) n ssize flags = (0, m)" "length bytes = unat n"
  shows "kept (mb_device m) False bytes m" "bd_sector_size (mb_device m) = ssize" "bd_sector_count (mb_device m) = n div ucast ssize"
    "bd_flags (mb_device m) = flags"
proof -
  obtain d where d: "ns_block_device_init ns_mem_block_ops ssize (n div ucast ssize) 0 flags ns_block_device_reset = (0, d)"
    and m: "m = ns_mem_block_reset_fields\<lparr>mb_data := Some bytes, mb_byte_count := n, mb_lock := 0,
      mb_magic := NS_MEM_BLOCK_MAGIC, mb_device := d, mb_owns_data := False\<rparr>"
    and c: "n \<noteq> 0" "n mod ucast ssize = 0" "ns_is_power_of_two_u32 ssize"
    using assms(1)
    by (auto simp: ns_mem_block_init_borrowed_def ns_mem_block_finish_init_def ns_mem_block_reset_fields_def Let_def
        split: if_splits prod.splits)
  note valid = device_init_valid [OF d]
  have "unat n mod unat ssize = 0" using c(2) using unat_mod [of n "ucast ssize"] by (simp add: unat_ucast_up)
  then have "unat n = unat (n div ucast ssize) * unat ssize"
    by (simp add: unat_div unat_ucast_up dvd_div_mult_self mod_eq_0_iff_dvd)
  then show "kept (mb_device m) False bytes m"
    using valid c(1) assms(2)
    by (simp add: kept_def mem_ok_def m ns_mem_block_valid_def mem_bytes_def mem_quiet_def ns_mem_block_reset_fields_def zero_fault_def)
  show "bd_sector_size (mb_device m) = ssize" "bd_sector_count (mb_device m) = n div ucast ssize" "bd_flags (mb_device m) = flags"
    using valid by (simp_all add: m ns_mem_block_ops_def)
qed

section \<open>Properties\<close>

definition example_mem :: ns_mem_block where
  "example_mem = snd (ns_mem_block_init_borrowed (Some [1, 2, 3, 4, 5, 6, 7, 8]) 8 2 0)"

definition example_calls :: "mem_call list" where
  "example_calls =
     [MWrite 1 1 (Some [9, 10]), MSet_fault \<lparr>mf_operation_mask = 1, mf_error = - 5, mf_first_sector = 0, mf_sector_count = 2,
        mf_pass_count = 0, mf_fail_count = 1\<rparr>, MRead 1 1 True, MRead 1 2 True, MClear_fault, MRead 3 2 True, MFlush, MGet_stats]"

lemma example_init: "ns_mem_block_init_borrowed (Some [1, 2, 3, 4, 5, 6, 7, 8]) 8 2 0 = (0, example_mem)"
  unfolding example_mem_def by code_simp

definition example_outer :: ns_block_slice where
  "example_outer = snd (ns_block_slice_init ns_mem_block_ops (mb_device example_mem) 1 3 0 ns_block_slice_reset)"

definition example_inner :: ns_block_slice where
  "example_inner = snd (ns_block_slice_init (ns_slice_ops ns_mem_block_ops example_outer) (sl_device example_outer) 1 1 0 ns_block_slice_reset)"

lemma example_slices:
  "ns_block_slice_init ns_mem_block_ops (mb_device example_mem) 1 3 0 ns_block_slice_reset = (0, example_outer)"
  "ns_block_slice_init (ns_slice_ops ns_mem_block_ops example_outer) (sl_device example_outer) 1 1 0 ns_block_slice_reset = (0, example_inner)"
  unfolding example_inner_def example_outer_def by code_simp+

text \<open>
  C39. A memory device over \<open>bytes\<close> is well-formed after initialization and after every history of reads,
  writes, flushes, fault injections and statistics calls. No call of the history touches memory outside
  the backing store or waits on the lock for ever. Reads that succeed show the bytes at their sectors,
  writes that succeed replace exactly those bytes, and nothing else changes them. As long as no fault is
  armed, a transfer succeeds if and only if its sectors are on the device, its buffer is there and, for a
  write, the device is not read-only.
\<close>

theorem mem_block_history:
  assumes "ns_mem_block_init_borrowed (Some bytes) n ssize flags = (0, m)" "length bytes = unat n"
    "\<forall>c \<in> set cs. call_ok (unat ssize) c"
  shows "mem_ok (mb_device m) m \<and> bd_sector_size (mb_device m) = ssize \<and>
    (\<exists>rs m'. mem_run cs m = Some (rs, m') \<and> mem_ok (mb_device m) m' \<and>
       conforms (mb_device m) cs rs False bytes (mem_bytes m'))"
proof -
  note init = init_borrowed_ok [OF assms(1,2)]
  have "mem_ok (mb_device m) m" using init(1) by (simp add: kept_def)
  then show ?thesis using mem_run_ok [OF init(1)] assms(3) by (simp add: init(2))
qed

theorem mem_block_history_witness:
  "mem_ok (mb_device example_mem) example_mem \<and>
   (\<exists>rs m'. mem_run example_calls example_mem = Some (rs, m') \<and> mem_ok (mb_device example_mem) m' \<and>
      conforms (mb_device example_mem) example_calls rs False [1, 2, 3, 4, 5, 6, 7, 8] (mem_bytes m') \<and>
      map fst rs = [0, 0, - 5, 0, 0, - 34, 0, 0] \<and> rs ! 3 = (0, [9, 10, 5, 6]))"
proof -
  have "map_option (\<lambda>(rs, m). (map fst rs, rs ! 3)) (mem_run example_calls example_mem) =
      Some ([0, 0, - 5, 0, 0, - 34, 0, 0], (0, [9, 10, 5, 6]))"
    by code_simp
  moreover have "\<forall>c \<in> set example_calls. call_ok (unat (2 :: u32)) c" by code_simp
  ultimately show ?thesis using mem_block_history [OF example_init, of example_calls] by auto
qed

text \<open>
  C40. A slice of a slice of a memory device is confined to its window. A write through it succeeds if and
  only if its sectors are in the window and neither the device nor one of the slices is read-only; it then
  replaces exactly the bytes of the device at the two offsets added, inside both windows, and otherwise no
  byte. A read through it succeeds if and only if its sectors are in the window, and shows those bytes.
\<close>

theorem nested_slice_confined:
  assumes "ns_mem_block_init_borrowed (Some bytes) n ssize flags = (0, m)" "length bytes = unat n"
    "ns_block_slice_init ns_mem_block_ops (mb_device m) f1 n1 flags1 s1 = (0, outer)"
    "ns_block_slice_init (ns_slice_ops ns_mem_block_ops outer) (sl_device outer) f2 n2 flags2 s2 = (0, inner)"
    "length buf = unat count * unat ssize"
  shows "\<exists>st m' r bs m''.
    ns_block_write (ns_slice_ops (ns_slice_ops ns_mem_block_ops outer) inner) (sl_device inner) first count (Some buf) m = Some (st, m') \<and>
    (st = 0 \<longleftrightarrow> unat first + unat count \<le> unat n2 \<and> (count = 0 \<or> (flags OR flags1 OR flags2) AND 1 = 0)) \<and>
    (st = 0 \<longrightarrow> unat f2 + unat first + unat count \<le> unat n1 \<and>
       (unat f1 + unat f2 + unat first) * unat ssize + length buf \<le> length bytes) \<and>
    mem_bytes m' = (if st = 0 then splice_at ((unat f1 + unat f2 + unat first) * unat ssize) buf bytes else bytes) \<and>
    ns_block_read (ns_slice_ops (ns_slice_ops ns_mem_block_ops outer) inner) (sl_device inner) first count True m' = Some ((r, bs), m'') \<and>
    (r = 0 \<longleftrightarrow> unat first + unat count \<le> unat n2) \<and>
    (r = 0 \<longrightarrow> bs = take (unat count * unat ssize) (drop ((unat f1 + unat f2 + unat first) * unat ssize) (mem_bytes m'))) \<and>
    mem_bytes m'' = mem_bytes m'"
proof -
  note init = init_borrowed_ok [OF assms(1,2)]
  have ok: "mem_ok (mb_device m) m" "mem_quiet m" "mem_bytes m = bytes" using init(1) by (simp_all add: kept_def)
  have len: "length buf = unat count * unat (bd_sector_size (mb_device m))" by (simp add: assms(5) init(2))
  note sl = mem.slice_init_twice [OF kept_fits [OF init(1)] assms(3,4)]
  have t: "transfer_ok (sl_device inner) count" using init(1) by (simp add: sl(4) kept_def transfer_ok_def)
  have w: "writable (sl_device inner) \<longleftrightarrow> (flags OR flags1 OR flags2) AND 1 = 0" by (simp add: writable_def sl(5) init(4))
  obtain st m' where w2: "ns_block_write (ns_slice_ops (ns_slice_ops ns_mem_block_ops outer) inner) (sl_device inner) first count (Some buf) m = Some (st, m')"
    "mem_ok (mb_device m) m'" "mem_quiet m'"
    "mem_bytes m' = (if st = 0 then splice_at ((unat f1 + unat f2 + unat first) * unat ssize) buf bytes else bytes)"
    "st = 0 \<longleftrightarrow> unat first + unat count \<le> unat n2 \<and> (count = 0 \<or> (flags OR flags1 OR flags2) AND 1 = 0)"
    using mem.nested_write [OF sl(1) ok(1) len, of first] ok(2) t unfolding sl(2,3) w init(2) ok(3) by blast
  obtain r bs m'' where "ns_block_read (ns_slice_ops (ns_slice_ops ns_mem_block_ops outer) inner) (sl_device inner) first count True m' = Some ((r, bs), m'')"
    "mem_bytes m'' = mem_bytes m'" "r = 0 \<longleftrightarrow> unat first + unat count \<le> unat n2"
    "r = 0 \<longrightarrow> bs = take (unat count * unat ssize) (drop ((unat f1 + unat f2 + unat first) * unat ssize) (mem_bytes m'))"
    using mem.nested_read [OF sl(1) w2(2), of first count True] w2(3) t unfolding sl(2,3) init(2) by blast
  moreover have "unat f2 + unat first + unat count \<le> unat n1 \<and>
       (unat f1 + unat f2 + unat first) * unat ssize + length buf \<le> length bytes" if "st = 0"
  proof -
    have "unat f1 + unat f2 + unat first + unat count \<le> unat (bd_sector_count (mb_device m))" using that w2(5) sl(6,7) by linarith
    then have "(unat f1 + unat f2 + unat first + unat count) * unat ssize \<le> length bytes"
      using mem.stored_length [OF ok(1)] by (simp add: init(2) ok(3))
    then show ?thesis using that w2(5) sl(7) assms(5) by (simp add: add_mult_distrib)
  qed
  ultimately show ?thesis using w2(1,4,5) by blast
qed

theorem nested_slice_confined_witness:
  "\<exists>m' bs m''. ns_block_write (ns_slice_ops (ns_slice_ops ns_mem_block_ops example_outer) example_inner) (sl_device example_inner) 0 1
      (Some [9, 10]) example_mem = Some (0, m') \<and>
    mem_bytes m' = [1, 2, 3, 4, 9, 10, 7, 8] \<and>
    ns_block_read (ns_slice_ops (ns_slice_ops ns_mem_block_ops example_outer) example_inner) (sl_device example_inner) 0 1 True m' =
      Some ((0, bs), m'') \<and> bs = [9, 10]"
  using nested_slice_confined [OF example_init _ example_slices, of "[9, 10]" 1 0] by (auto simp: splice_at_def)

end
