(* ===== verification/Spec2Isabelle.thy ===== *)
theory Spec2Isabelle
  imports Pmm_Alloc Scheduler_Props Pipe Net_Routing Net_Delivery Net_Udp_Props Sha256_Props Elf_Props Block_Props
begin

text \<open>
  A verification development for NorthstarOS, an x86-64 kernel in C with its user programs and host tools.

  \<^bold>\<open>The program.\<close> The boot loader passes a memory map to the kernel, which builds a physical memory
  manager from it, page tables and a heap on top of that, then processes: an ELF loader, a round-robin
  scheduler, pipes and system calls. Files are reached through a VFS with an initramfs and a journalled
  file system on block devices. The network stack has drivers, Ethernet, ARP, IPv4, ICMP, UDP, TCP, DHCP,
  DNS and sockets. The components call each other through structures of callbacks (a driver's
  operations, the mapper of the loader, the runtime of a pipe), which is where the models are cut.

  \<^bold>\<open>Conventions.\<close> Each operation is a function over records with the fields of the C structures, with
  integers at their width (\<open>u8\<close> to \<open>u64\<close>, where \<open>+\<close> wraps). \<open>Prelude\<close> has these types, the \<open>for\<close>
  loop over a \<open>uint64_t\<close> counter (\<open>for_u64\<close>, \<open>run_u64\<close>) and the lemmas between words and numbers. An
  operation that can go wrong in the machine returns an option: \<open>None\<close> stands for an access outside a
  buffer, a null dereference, a spin on a lock that is held, or a loop that does not end. Theorems that
  state \<open>\<exists>s. f x = Some s \<and> ...\<close> therefore say that none of this happens. A pointer to an object that is
  not shared is the object, so the tests of such a pointer against \<open>NULL\<close> have no counterpart; a pointer
  that may be null in the use of the code is an option. An output parameter is part of the result.
  Callbacks are recorded in the order they are called, with a function from the calls so far to their
  results as a parameter, or are parameters themselves. \<open>Errno\<close> has the error codes of
  \<open>include/northstar/errno.h\<close>, \<open>Ring\<close> the ring buffers and \<open>Pointer_Lists\<close> the linked lists that several
  components use.

  \<^bold>\<open>Physical memory manager\<close> (\<open>kernel/mm/pmm.c\<close>). \<open>Pmm\<close> translates the whole file: the validation of the
  boot record, the two bitmaps, the search for a run, allocation, freeing, reservation, statistics and
  the self check. \<open>Pmm_Frames\<close> reads the bitmaps as sets of frames; writing one bit and a run of bits
  is the locale \<open>bitmap_update\<close>, interpreted for setting and clearing. \<open>Pmm_Alloc\<close> has the properties: the
  free frames after initialization are exactly the usable minus the reserved ones, the search returns
  the first fitting run, histories hand out disjoint runs, freeing is all or nothing with the right
  error, the self check is exact.

  \<^bold>\<open>Scheduler\<close> (\<open>kernel/proc/scheduler.c\<close>). \<open>Scheduler\<close> keeps the threads in an explicit store with the
  links of the ready queue, the blocked list and the sleep list. \<open>Scheduler_Spec\<close> is a scheduler over plain
  lists and the proof that the pointer version implements it; removing from the two singly linked
  lists through a cursor is the locale \<open>cursor_list\<close>. \<open>Scheduler_Props\<close> has the refinement for whole
  sequences of calls that keep the contract of each call, fairness, that no wakeup is lost, what a tick
  and a wake do, and two sequences outside the contract that fault or do not end.

  \<^bold>\<open>Pipes\<close> (\<open>kernel/proc/pipe.c\<close>). \<open>Pipe\<close> models reading, writing, stat and close; between the locked
  sections of one call other threads may change the pipe, which is a list of functions, one for
  each time the lock is taken. A call that uses up the list is still waiting and has the value \<open>None\<close>; the
  specification \<open>spec_read\<close> and \<open>spec_write\<close> over a byte queue has the same list, so the refinement also
  says when a call returns. The properties are the refinement, atomic small writes, a round trip and
  what close releases, with an interleaving of two closes that uses a freed pipe.

  \<^bold>\<open>Network stack\<close> (\<open>kernel/net/net_device.c\<close>, \<open>net_ethernet.c\<close>, \<open>net_arp.c\<close>, \<open>net_ipv4.c\<close>, \<open>net_icmp.c\<close>,
  \<open>net_checksum.c\<close>, \<open>include/northstar/net_types.h\<close>). \<open>Net_Types\<close>, \<open>Net_Checksum\<close>, \<open>Net_Device\<close>, \<open>Net_Arp\<close>, \<open>Net_Ipv4\<close>
  and \<open>Net_Input\<close> translate these files over one record for their static state. The drivers are a
  function from the frames sent so far to statuses. \<open>Net_Inv\<close> has the invariant and that every operation
  keeps it; what the stack asks of the handlers of other protocols is the locale \<open>protocol_handlers\<close>,
  interpreted with ICMP. \<open>Net_History\<close> concludes for arbitrary histories and arbitrary frames from the
  wire, \<open>Net_Routing\<close> has the route lookup, \<open>Net_Delivery\<close> delivery between two stacks, the release of
  waiting datagrams and echo replies. The checksum is shown equal to that of RFC 1071 for any cut of the
  data into pieces.

  \<^bold>\<open>UDP\<close> (\<open>kernel/net/net_udp.c\<close>). \<open>Net_Udp\<close> translates the file. \<open>Net_Udp_Inv\<close> and \<open>Net_Udp_Ops\<close> have the
  invariant, the generations of handles and the queues; \<open>Net_Udp_Recv\<close> the checksum of RFC 768 and
  receiving; \<open>Net_Udp_Props\<close> the properties: safety of all histories, delivery of a datagram with
  its sender, queues in order, closed handles that stay dead for 1048574 closes, ephemeral ports. The search for a
  port is a recursion on the number of attempts left, 16384 as in the source.

  \<^bold>\<open>SHA-256\<close> (\<open>kernel/core/sha256.c\<close>). \<open>Sha256\<close> has the code and, separately, the hash as FIPS 180-4 defines it;
  \<open>Sha256_Props\<close> that they agree however the data is cut.

  \<^bold>\<open>ELF loader\<close> (\<open>kernel/proc/elf_loader.c\<close>). \<open>Elf_Loader\<close> has the planning and the loading with its rollback;
  the file and the mapper are parameters. \<open>Elf_Plan\<close> shows what an accepted plan guarantees for any bytes of
  the file, \<open>Elf_Props\<close> what a successful load puts into memory and that a failed one leaves nothing mapped.

  \<^bold>\<open>Block devices\<close> (\<open>kernel/fs/block.c\<close>, \<open>block_slice.c\<close>, \<open>block_mem.c\<close>). \<open>Block\<close> and \<open>Block_Mem\<close> translate the files.
  The contract between the block layer and a driver is the locale \<open>block_store\<close> of \<open>Block_Store\<close>; in it
  the layer's reads and writes are characterized once, and a slice over a driver that keeps the contract
  keeps it again. \<open>Block_Props\<close> interprets it for the memory device and has histories of a device, with
  injected faults, and slices of slices.

  \<^bold>\<open>Bounds.\<close> No operation is cut off by fuel. Loops with a counter are recursions on it; the folding of
  checksums, the hash update and the copy loop of the loader are functions with termination proofs; walks
  along pointers, whose end depends on the state, are partial functions into options, and the properties
  show that they end in every state that satisfies the invariant.

  \<^bold>\<open>Not modelled.\<close> Boot code and \<open>kernel/arch\<close> are assembly and device registers. The milestones in
  \<open>kernel/core\<close> (\<open>main.c\<close>, \<open>m2.c\<close> to \<open>m5.c\<close>) start the other parts and print to the serial port; \<open>string.c\<close> is
  the usual byte functions, which the models use as list operations. \<open>drivers/ata.c\<close> and \<open>drivers/rtl8139.c\<close> talk to
  ports and DMA memory; the block layer and the network devices take drivers as parameters. The page tables
  (\<open>mm/vmm.c\<close>), the heap (\<open>mm/heap.c\<close>), the file systems (\<open>fs/vfs.c\<close>, \<open>nsfs.c\<close>, \<open>nsfs_vfs.c\<close>, \<open>initramfs.c\<close>), processes
  and system calls (\<open>proc/process.c\<close>, \<open>syscall.c\<close>, \<open>usercopy.c\<close>, \<open>fd.c\<close>, \<open>image.c\<close>, \<open>runtime.c\<close>), and TCP, DNS, DHCP and
  sockets are not covered: each is a component of its own beside the ones here, and none of the
  theorems depends on it. Of pipes, \<open>ns_pipe_create\<close> is left out because it allocates file objects of the
  VFS. User programs and host tools are clients of the kernel's interfaces. Interrupts and other
  processors appear only where the code hands over a lock, in pipes; elsewhere the lock is a field that must be
  free when it is taken.
\<close>

end
